(* ===== verification/Go_Base.thy ===== *)
theory Go_Base
  imports Main "HOL-Library.Multiset"
begin

text \<open>
  The prelude: what the other theories share of Go itself.  Strings are byte lists (\<open>string\<close>,
  as a Go string is a byte sequence); machine integers are \<open>int\<close> with the 64-bit wrap-around
  written out by \<open>wrap64\<close>; instants and durations are nanosecond counts.  The section on
  strings models the functions of the packages \<open>strings\<close>, \<open>strconv\<close> and \<open>fmt\<close> that the
  sources call; the section on lists holds the generic lemmas about removing the first element
  that satisfies a test, which the queues of the engine and of the event bus share.
\<close>

section \<open>Collections of facts\<close>

named_theorems go_string_simps \<open>evaluation of the string helpers on literals\<close>
named_theorems range_simps \<open>facts about the lists that stand for ranges over Go maps\<close>

section \<open>Machine integers, instants and durations\<close>

type_synonym instant = int
type_synonym duration = int

definition max_int64 :: int where "max_int64 = 9223372036854775807"
definition min_int64 :: int where "min_int64 = -9223372036854775808"

text \<open>The value a 64-bit two's complement register holds after an operation.\<close>

definition wrap64 :: "int \<Rightarrow> int" where
  "wrap64 x = (x + 9223372036854775808) mod 18446744073709551616 - 9223372036854775808"

definition int64 :: "int \<Rightarrow> bool" where
  "int64 x \<longleftrightarrow> min_int64 \<le> x \<and> x \<le> max_int64"

text \<open>\<open>Time.Sub\<close> saturates at the bounds of a Duration instead of wrapping.\<close>

definition time_sub :: "instant \<Rightarrow> instant \<Rightarrow> duration" where
  "time_sub a b = max min_int64 (min max_int64 (a - b))"

definition Millisecond :: duration where "Millisecond = 1000000"
definition Second :: duration where "Second = 1000000000"

text \<open>\<open>Duration.Milliseconds\<close>, and the integer division of Go: towards zero.\<close>

definition Milliseconds :: "duration \<Rightarrow> int" where
  "Milliseconds d = (if 0 \<le> d then d div Millisecond else - ((- d) div Millisecond))"

lemma int64_wrap64: "int64 (wrap64 x)"
proof -
  have "0 \<le> (x + 9223372036854775808) mod 18446744073709551616"
    and "(x + 9223372036854775808) mod 18446744073709551616 < 18446744073709551616"
    by simp_all
  then show ?thesis by (simp add: int64_def wrap64_def max_int64_def min_int64_def)
qed

lemma wrap64_id: "int64 x \<Longrightarrow> wrap64 x = x"
  by (simp add: int64_def wrap64_def max_int64_def min_int64_def)

lemma int64_time_sub: "int64 (time_sub a b)"
  by (simp add: int64_def time_sub_def max_int64_def min_int64_def)

section \<open>Strings\<close>

text \<open>\<open>strings.ToLower\<close>, byte by byte: exact on ASCII, the identity on the other bytes.\<close>

definition lower_char :: "char \<Rightarrow> char" where
  "lower_char c = (let n = of_char c :: nat in if 65 \<le> n \<and> n \<le> 90 then char_of (n + 32) else c)"

definition to_lower :: "string \<Rightarrow> string" where
  "to_lower s = map lower_char s"

text \<open>\<open>strings.Split\<close> with a one-byte separator: never empty.\<close>

fun split_on :: "char \<Rightarrow> string \<Rightarrow> string list" where
  "split_on c [] = [[]]"
| "split_on c (x # xs) =
     (if x = c then [] # split_on c xs
      else (case split_on c xs of [] \<Rightarrow> [[x]] | w # ws \<Rightarrow> (x # w) # ws))"

fun join_with :: "string \<Rightarrow> string list \<Rightarrow> string" where
  "join_with sep [] = []"
| "join_with sep [w] = w"
| "join_with sep (w # ws) = w @ sep @ join_with sep ws"

fun has_prefix :: "string \<Rightarrow> string \<Rightarrow> bool" where
  "has_prefix [] s = True"
| "has_prefix (p # ps) [] = False"
| "has_prefix (p # ps) (x # xs) = (p = x \<and> has_prefix ps xs)"

definition has_suffix :: "string \<Rightarrow> string \<Rightarrow> bool" where
  "has_suffix p s = has_prefix (rev p) (rev s)"

fun str_contains :: "string \<Rightarrow> string \<Rightarrow> bool" where
  "str_contains p [] = (p = [])"
| "str_contains p (x # xs) = (has_prefix p (x # xs) \<or> str_contains p xs)"

definition trim_prefix :: "string \<Rightarrow> string \<Rightarrow> string" where
  "trim_prefix p s = (if has_prefix p s then drop (length p) s else s)"

definition trim_suffix :: "string \<Rightarrow> string \<Rightarrow> string" where
  "trim_suffix p s = (if has_suffix p s then take (length s - length p) s else s)"

text \<open>Decimal and hexadecimal rendering (\<open>%d\<close>, \<open>%0nx\<close>).\<close>

definition digit_char :: "nat \<Rightarrow> char" where
  "digit_char d = (if d < 10 then char_of (48 + d) else char_of (87 + d))"

fun show_base :: "nat \<Rightarrow> nat \<Rightarrow> string" where
  "show_base b n =
     (if b < 2 \<or> n < b then [digit_char n] else show_base b (n div b) @ [digit_char (n mod b)])"

declare show_base.simps [simp del]

definition show_int :: "int \<Rightarrow> string" where
  "show_int i = (if i < 0 then ''-'' @ show_base 10 (nat (- i)) else show_base 10 (nat i))"

definition hex_pad :: "nat \<Rightarrow> nat \<Rightarrow> string" where
  "hex_pad w n = (let s = show_base 16 n in replicate (w - length s) CHR ''0'' @ s)"

lemma to_lower_Nil [simp]: "to_lower [] = []"
  by (simp add: to_lower_def)

lemma length_to_lower [simp]: "length (to_lower s) = length s"
  by (simp add: to_lower_def)

lemma lower_char_idem [simp]: "lower_char (lower_char c) = lower_char c"
proof -
  have "of_char c < (256 :: nat)" by simp
  then show ?thesis
    by (auto simp: lower_char_def Let_def)
qed

lemma to_lower_idem [simp]: "to_lower (to_lower s) = to_lower s"
  by (simp add: to_lower_def)

lemma split_on_not_Nil [simp]: "split_on c s \<noteq> []"
  by (induction s) (auto split: list.splits)

lemma split_on_absent: "c \<notin> set s \<Longrightarrow> split_on c s = [s]"
  by (induction s) auto

lemma split_on_append:
  "c \<notin> set s \<Longrightarrow> split_on c (s @ c # t) = s # split_on c t"
  by (induction s) auto

lemma split_on_no_sep: "w \<in> set (split_on c s) \<Longrightarrow> c \<notin> set w"
  by (induction s arbitrary: w) (auto split: if_splits list.splits)

lemma join_split: "join_with [c] (split_on c s) = s"
proof (induction s)
  case Nil
  show ?case by simp
next
  case (Cons x xs)
  then show ?case
    by (cases "split_on c xs"; cases "tl (split_on c xs)") auto
qed

lemma has_prefix_iff: "has_prefix p s \<longleftrightarrow> (\<exists>t. s = p @ t)"
  by (induction p s rule: has_prefix.induct) auto

lemma has_prefix_self [simp]: "has_prefix p (p @ s)"
  by (simp add: has_prefix_iff)

lemma str_contains_iff: "str_contains p s \<longleftrightarrow> (\<exists>u v. s = u @ p @ v)"
proof (induction s)
  case Nil
  show ?case by simp
next
  case (Cons x xs)
  show ?case
  proof
    assume "str_contains p (x # xs)"
    then consider "has_prefix p (x # xs)" | "str_contains p xs" by auto
    then show "\<exists>u v. x # xs = u @ p @ v"
    proof cases
      case 1
      then show ?thesis by (metis append_Nil has_prefix_iff)
    next
      case 2
      then show ?thesis using Cons.IH by (metis append_Cons)
    qed
  next
    assume "\<exists>u v. x # xs = u @ p @ v"
    then obtain u v where uv: "x # xs = u @ p @ v" by blast
    show "str_contains p (x # xs)"
    proof (cases u)
      case Nil
      then show ?thesis using uv by (metis append_Nil has_prefix_self str_contains.simps(2))
    next
      case (Cons y ys)
      then show ?thesis using uv Cons.IH by auto
    qed
  qed
qed

lemma has_suffix_iff: "has_suffix p s \<longleftrightarrow> (\<exists>t. s = t @ p)"
proof
  assume "has_suffix p s"
  then obtain t where "rev s = rev p @ t" by (auto simp: has_suffix_def has_prefix_iff)
  then have "s = rev t @ p" by (metis rev_append rev_rev_ident)
  then show "\<exists>t. s = t @ p" ..
qed (auto simp: has_suffix_def has_prefix_iff)

lemma length_hex_pad: "n < 16 ^ w \<Longrightarrow> 0 < w \<Longrightarrow> length (hex_pad w n) = w"
proof -
  have "length (show_base 16 n) \<le> w" if "n < 16 ^ w" "0 < w" for w n
    using that
  proof (induction w arbitrary: n)
    case 0
    then show ?case by simp
  next
    case (Suc w)
    show ?case
    proof (cases "n < 16")
      case True
      then show ?thesis by (subst show_base.simps) simp
    next
      case False
      with Suc.prems have "n div 16 < 16 ^ w" and "0 < w"
        by (auto simp: less_mult_imp_div_less mult.commute intro: Suc_lessI gr0I)
      then have "length (show_base 16 (n div 16)) \<le> w" by (rule Suc.IH)
      with False show ?thesis by (subst show_base.simps) simp
    qed
  qed
  then show "n < 16 ^ w \<Longrightarrow> 0 < w \<Longrightarrow> length (hex_pad w n) = w"
    by (simp add: hex_pad_def Let_def)
qed

section \<open>Removing the first match from a list\<close>

text \<open>
  \<open>append(q[:i], q[i+1:]...)\<close> at the first index whose element passes the test:
  \<open>List.extract\<close> finds the split, \<open>remove_first\<close> is the list that is left.
\<close>

definition remove_first :: "('a \<Rightarrow> bool) \<Rightarrow> 'a list \<Rightarrow> 'a list" where
  "remove_first P xs = (case List.extract P xs of None \<Rightarrow> xs | Some (ys, _, zs) \<Rightarrow> ys @ zs)"

lemma remove_first_simps [simp]:
  "remove_first P [] = []"
  "remove_first P (x # xs) = (if P x then xs else x # remove_first P xs)"
  by (auto simp: remove_first_def extract_Nil_code extract_Cons_code split: option.splits)

lemma extract_SomeD:
  "List.extract P xs = Some (ys, y, zs) \<Longrightarrow> xs = ys @ y # zs \<and> P y \<and> (\<forall>x\<in>set ys. \<not> P x)"
  by (simp add: extract_Some_iff)

lemma extract_NoneD: "List.extract P xs = None \<Longrightarrow> x \<in> set xs \<Longrightarrow> \<not> P x"
  by (simp add: extract_None_iff)

lemma extract_not_None: "x \<in> set xs \<Longrightarrow> P x \<Longrightarrow> \<exists>ys y zs. List.extract P xs = Some (ys, y, zs)"
  by (metis extract_None_iff option.exhaust prod_cases3)

lemma remove_first_absent: "(\<And>x. x \<in> set xs \<Longrightarrow> \<not> P x) \<Longrightarrow> remove_first P xs = xs"
  by (induction xs) auto

lemma set_remove_first: "set (remove_first P xs) \<subseteq> set xs"
  by (induction xs) auto

lemma length_remove_first:
  "length (remove_first P xs) = (if \<exists>x\<in>set xs. P x then length xs - 1 else length xs)"
  by (induction xs) (auto simp: length_Suc_conv split: if_splits dest!: length_pos_if_in_set)

lemma distinct_remove_first: "distinct xs \<Longrightarrow> distinct (remove_first P xs)"
  by (induction xs) (use set_remove_first in fastforce)+

lemma set_remove_first_distinct:
  "distinct xs \<Longrightarrow> set (remove_first (\<lambda>j. j = i) xs) = set xs - {i}"
  by (induction xs) auto

lemma find_remove_first:
  "List.find P xs = Some x \<Longrightarrow> P x \<and> x \<in> set xs \<and> mset xs = add_mset x (mset (remove_first P xs))"
  by (induction xs) (auto split: if_splits)

lemma find_hd_filter: "List.find P xs = (case filter P xs of [] \<Rightarrow> None | x # _ \<Rightarrow> Some x)"
  by (induction xs) auto

section \<open>Maps that the code ranges over\<close>

text \<open>
  Go leaves the order of a range over a map open.  Where a range's order can be seen, the
  definition takes it as an argument; \<open>range_of m ord\<close> says that \<open>ord\<close> lists the keys of \<open>m\<close>,
  each once.
\<close>

definition range_of :: "('k \<rightharpoonup> 'v) \<Rightarrow> 'k list \<Rightarrow> bool" where
  "range_of m ord \<longleftrightarrow> distinct ord \<and> set ord = dom m"

lemma range_of_in [range_simps]: "range_of m ord \<Longrightarrow> k \<in> set ord \<longleftrightarrow> m k \<noteq> None"
  by (auto simp: range_of_def)

lemma range_of_ex [range_simps]:
  "range_of m ord \<Longrightarrow> (\<exists>k\<in>set ord. P k) \<longleftrightarrow> (\<exists>k v. m k = Some v \<and> P k)"
  by (auto simp: range_of_def dom_def)

end
