(* ===== verification/Priority_Class.thy ===== *)
theory Priority_Class
  imports Go_Base
begin

text \<open>
  The priority classes of \<open>core/context/context.go\<close> and their wire numbers
  (\<open>core/context/serialization.go\<close>).  A \<open>PriorityClass\<close> is a Go string: the five constants
  are the ones the engine knows, any other string is a legal value of the type.
\<close>

type_synonym priority_class = string

definition PriorityClassCritical :: priority_class where "PriorityClassCritical = ''Critical''"
definition PriorityClassHigh :: priority_class where "PriorityClassHigh = ''High''"
definition PriorityClassNormal :: priority_class where "PriorityClassNormal = ''Normal''"
definition PriorityClassLow :: priority_class where "PriorityClassLow = ''Low''"
definition PriorityClassBackground :: priority_class where "PriorityClassBackground = ''Background''"

lemmas priority_class_defs = PriorityClassCritical_def PriorityClassHigh_def
  PriorityClassNormal_def PriorityClassLow_def PriorityClassBackground_def

lemma priority_class_distinct [simp]:
  "distinct [PriorityClassCritical, PriorityClassHigh, PriorityClassNormal, PriorityClassLow,
             PriorityClassBackground]"
  by (simp add: priority_class_defs)

lemma priority_class_neq [simp]:
  "PriorityClassCritical \<noteq> PriorityClassHigh" "PriorityClassCritical \<noteq> PriorityClassNormal"
  "PriorityClassCritical \<noteq> PriorityClassLow" "PriorityClassCritical \<noteq> PriorityClassBackground"
  "PriorityClassHigh \<noteq> PriorityClassCritical" "PriorityClassHigh \<noteq> PriorityClassNormal"
  "PriorityClassHigh \<noteq> PriorityClassLow" "PriorityClassHigh \<noteq> PriorityClassBackground"
  "PriorityClassNormal \<noteq> PriorityClassCritical" "PriorityClassNormal \<noteq> PriorityClassHigh"
  "PriorityClassNormal \<noteq> PriorityClassLow" "PriorityClassNormal \<noteq> PriorityClassBackground"
  "PriorityClassLow \<noteq> PriorityClassCritical" "PriorityClassLow \<noteq> PriorityClassHigh"
  "PriorityClassLow \<noteq> PriorityClassNormal" "PriorityClassLow \<noteq> PriorityClassBackground"
  "PriorityClassBackground \<noteq> PriorityClassCritical" "PriorityClassBackground \<noteq> PriorityClassHigh"
  "PriorityClassBackground \<noteq> PriorityClassNormal" "PriorityClassBackground \<noteq> PriorityClassLow"
  by (simp_all add: priority_class_defs)

lemma priority_class_not_Nil [simp]:
  "PriorityClassCritical \<noteq> []" "PriorityClassHigh \<noteq> []" "PriorityClassNormal \<noteq> []"
  "PriorityClassLow \<noteq> []" "PriorityClassBackground \<noteq> []"
  by (simp_all add: priority_class_defs)

section \<open>Wire numbers\<close>

definition mapPriorityToInt :: "priority_class \<Rightarrow> int" where
  "mapPriorityToInt priority =
     (if priority = PriorityClassCritical then 4
      else if priority = PriorityClassHigh then 3
      else if priority = PriorityClassNormal then 2
      else if priority = PriorityClassLow then 1
      else if priority = PriorityClassBackground then 0
      else 2)"

definition mapIntToPriority :: "int \<Rightarrow> priority_class" where
  "mapIntToPriority val =
     (if val = 4 then PriorityClassCritical
      else if val = 3 then PriorityClassHigh
      else if val = 2 then PriorityClassNormal
      else if val = 1 then PriorityClassLow
      else if val = 0 then PriorityClassBackground
      else PriorityClassNormal)"

definition knownClasses :: "priority_class list" where
  "knownClasses = [PriorityClassCritical, PriorityClassHigh, PriorityClassNormal,
                   PriorityClassLow, PriorityClassBackground]"

lemma mapPriorityToInt_inverse:
  "0 \<le> n \<Longrightarrow> n \<le> 4 \<Longrightarrow> mapPriorityToInt (mapIntToPriority n) = n"
  by (auto simp: mapPriorityToInt_def mapIntToPriority_def)

lemma mapIntToPriority_inverse:
  "mapIntToPriority (mapPriorityToInt p) = (if p \<in> set knownClasses then p else PriorityClassNormal)"
  by (auto simp: mapPriorityToInt_def mapIntToPriority_def knownClasses_def)

end
