(* ===== verification/Work_Queue.thy ===== *)
theory Work_Queue
  imports Go_Base
begin

text \<open>
  The contract of the engine's queue of pending work, as a locale: a bag of pointers with a
  selective dequeue and a removal by identifier.  The operations run in sequence
  (\<open>wq_run\<close>) in any order and with any arguments; what the client relies on is that nothing is
  lost, duplicated or invented.
\<close>

definition passes :: "('e \<Rightarrow> bool) option \<Rightarrow> 'e \<Rightarrow> bool" where
  "passes can e = (case can of None \<Rightarrow> True | Some f \<Rightarrow> f e)"

lemma passes_simps [simp]: "passes None e" "passes (Some f) e = f e"
  by (simp_all add: passes_def)

datatype ('e, 'o) wq_op = Enq 'e | Deq "('e \<Rightarrow> bool) option" | Rem 'o string

text \<open>A run returns what was handed out, how many removals hit, and the final queue.\<close>

fun wq_run ::
  "('e \<Rightarrow> 'q \<Rightarrow> 'q) \<Rightarrow> (('e \<Rightarrow> bool) option \<Rightarrow> 'q \<Rightarrow> 'e option \<times> 'q) \<Rightarrow> ('o \<Rightarrow> string \<Rightarrow> 'q \<Rightarrow> bool \<times> 'q)
   \<Rightarrow> ('e, 'o) wq_op list \<Rightarrow> 'q \<Rightarrow> 'e list \<times> nat \<times> 'q" where
  "wq_run enq deq rem [] q = ([], 0, q)"
| "wq_run enq deq rem (Enq e # ops) q = wq_run enq deq rem ops (enq e q)"
| "wq_run enq deq rem (Deq can # ops) q =
     (case deq can q of (r, q') \<Rightarrow>
        case wq_run enq deq rem ops q' of (out, n, q'') \<Rightarrow>
          ((case r of None \<Rightarrow> out | Some e \<Rightarrow> e # out), n, q''))"
| "wq_run enq deq rem (Rem ord x # ops) q =
     (case rem ord x q of (hit, q') \<Rightarrow>
        case wq_run enq deq rem ops q' of (out, n, q'') \<Rightarrow> (out, (if hit then Suc n else n), q''))"

fun enqueued :: "('e, 'o) wq_op list \<Rightarrow> 'e list" where
  "enqueued [] = []"
| "enqueued (Enq e # ops) = e # enqueued ops"
| "enqueued (_ # ops) = enqueued ops"

locale work_queue =
  fixes empty_q :: "'q"
    and enq :: "'e \<Rightarrow> 'q \<Rightarrow> 'q"
    and deq :: "('e \<Rightarrow> bool) option \<Rightarrow> 'q \<Rightarrow> 'e option \<times> 'q"
    and rem :: "'o \<Rightarrow> string \<Rightarrow> 'q \<Rightarrow> bool \<times> 'q"
    and size_q :: "'q \<Rightarrow> nat"
    and bag :: "'q \<Rightarrow> 'e multiset"
    and ident :: "'e \<Rightarrow> string"
    and inv :: "'q \<Rightarrow> bool"
  assumes inv_empty: "inv empty_q"
    and bag_empty: "bag empty_q = {#}"
    and inv_enq: "inv q \<Longrightarrow> inv (enq e q)"
    and bag_enq: "inv q \<Longrightarrow> bag (enq e q) = add_mset e (bag q)"
    and inv_deq: "inv q \<Longrightarrow> inv (snd (deq can q))"
    and deq_Some: "inv q \<Longrightarrow> deq can q = (Some e, q') \<Longrightarrow> passes can e \<and> bag q = add_mset e (bag q')"
    and deq_None: "inv q \<Longrightarrow> deq can q = (None, q') \<Longrightarrow> bag q' = bag q"
    and inv_rem: "inv q \<Longrightarrow> inv (snd (rem ord x q))"
    and rem_hit: "inv q \<Longrightarrow> rem ord x q = (True, q') \<Longrightarrow> \<exists>e. ident e = x \<and> bag q = add_mset e (bag q')"
    and rem_miss: "inv q \<Longrightarrow> rem ord x q = (False, q') \<Longrightarrow> bag q' = bag q"
    and size_bag: "inv q \<Longrightarrow> size_q q = size (bag q)"
begin

lemmas invs = inv_empty inv_enq inv_deq inv_rem

lemma size_enq: "inv q \<Longrightarrow> size_q (enq e q) = Suc (size_q q)"
  by (simp add: size_bag invs bag_enq)

lemma size_deq:
  "inv q \<Longrightarrow> deq can q = (r, q') \<Longrightarrow> size_q q = (case r of None \<Rightarrow> size_q q' | Some _ \<Rightarrow> Suc (size_q q'))"
  using inv_deq [of q can] by (cases r) (auto simp: size_bag dest: deq_None deq_Some)

lemma deq_member: "inv q \<Longrightarrow> deq can q = (Some e, q') \<Longrightarrow> e \<in># bag q"
  by (auto dest: deq_Some)

lemma size_rem:
  "inv q \<Longrightarrow> rem ord x q = (hit, q') \<Longrightarrow> size_q q = (if hit then Suc (size_q q') else size_q q')"
  using inv_rem [of q ord x] by (cases hit) (auto simp: size_bag dest: rem_hit rem_miss)

lemma run_conserves:
  assumes "inv q" and "wq_run enq deq rem ops q = (out, n, q')"
  shows "inv q' \<and> (\<exists>R. size R = n \<and> bag q + mset (enqueued ops) = bag q' + mset out + R)"
  using assms
proof (induction ops arbitrary: q out n)
  case Nil
  then show ?case by (intro conjI exI [of _ "{#}"]) auto
next
  case (Cons op ops)
  show ?case
  proof (cases op)
    case (Enq e)
    with Cons.prems have run: "wq_run enq deq rem ops (enq e q) = (out, n, q')" by simp
    have i: "inv (enq e q)" by (rule inv_enq [OF Cons.prems(1)])
    from Cons.IH [OF i run] show ?thesis
      using Enq Cons.prems(1) by (auto simp: bag_enq)
  next
    case (Deq can)
    obtain r q1 where d: "deq can q = (r, q1)" by fastforce
    obtain out1 where run: "wq_run enq deq rem ops q1 = (out1, n, q')"
      and out: "out = (case r of None \<Rightarrow> out1 | Some e \<Rightarrow> e # out1)"
      using Cons.prems(2) Deq d by (auto split: prod.splits)
    have i: "inv q1" using inv_deq [OF Cons.prems(1), of can] d by simp
    from Cons.IH [OF i run] show ?thesis
      using Deq d out deq_Some [OF Cons.prems(1)] deq_None [OF Cons.prems(1)]
      by (cases r) (auto simp: add.assoc)
  next
    case (Rem ord x)
    obtain hit q1 where d: "rem ord x q = (hit, q1)" by fastforce
    obtain m where run: "wq_run enq deq rem ops q1 = (out, m, q')"
      and n: "n = (if hit then Suc m else m)"
      using Cons.prems(2) Rem d by (auto split: prod.splits)
    have i: "inv q1" using inv_rem [OF Cons.prems(1), of ord x] d by simp
    from Cons.IH [OF i run] obtain R where
      R: "inv q'" "size R = m" "bag q1 + mset (enqueued ops) = bag q' + mset out + R" by blast
    show ?thesis
    proof (cases hit)
      case True
      with d rem_hit [OF Cons.prems(1), of ord x q1] obtain e
        where "bag q = add_mset e (bag q1)" by auto
      with True R n Rem show ?thesis
        by (intro conjI exI [of _ "add_mset e R"]) auto
    next
      case False
      with d rem_miss [OF Cons.prems(1), of ord x q1] R n Rem show ?thesis by auto
    qed
  qed
qed

end

end
