(* ===== verification/Scheduler.thy ===== *)
theory Scheduler
  imports Priority_Class Work_Queue "HOL-Library.AList"
begin

text \<open>
  \<open>core/execution/scheduler.go\<close>: the weighted round-robin queue of pending executions.  The
  scheduler holds pointers; \<open>'r\<close> is the type of a pointer to an execution, and the fields it
  reads through the pointer (\<open>exec.Priority\<close>, \<open>exec.ID\<close>) are functions on pointers.  The map
  \<open>queues\<close> is an association list with distinct keys; \<open>currentCredits\<close> is a total function,
  since a Go map reads 0 at a missing key.  Each method runs under the scheduler's mutex, so
  each is one atomic function of the state.
\<close>

section \<open>State and operations\<close>

record 'r priority_scheduler =
  queues :: "(priority_class \<times> 'r list) list"
  weights :: "(priority_class \<times> int) list"
  currentCredits :: "priority_class \<Rightarrow> int"

definition queue_of :: "'r priority_scheduler \<Rightarrow> priority_class \<Rightarrow> 'r list" where
  "queue_of ps p = (case map_of (queues ps) p of None \<Rightarrow> [] | Some q \<Rightarrow> q)"

definition set_queue :: "priority_class \<Rightarrow> 'r list \<Rightarrow> 'r priority_scheduler \<Rightarrow> 'r priority_scheduler" where
  "set_queue p q ps = ps\<lparr>queues := AList.update p q (queues ps)\<rparr>"

definition default_weights :: "(priority_class \<times> int) list" where
  "default_weights = [(PriorityClassCritical, 16), (PriorityClassHigh, 8), (PriorityClassNormal, 4),
                      (PriorityClassLow, 2), (PriorityClassBackground, 1)]"

text \<open>The loops \<open>for k, v := range weights { credits[k] = v }\<close>: keys outside are left alone.\<close>

definition credit_from :: "(priority_class \<times> int) list \<Rightarrow> (priority_class \<Rightarrow> int) \<Rightarrow> priority_class \<Rightarrow> int" where
  "credit_from ws c = fold (\<lambda>(k, v) c. c(k := v)) ws c"

definition NewPriorityScheduler :: "'r priority_scheduler" where
  "NewPriorityScheduler =
     \<lparr>queues = [], weights = default_weights, currentCredits = credit_from default_weights (\<lambda>_. 0)\<rparr>"

definition Enqueue :: "('r \<Rightarrow> priority_class) \<Rightarrow> 'r \<Rightarrow> 'r priority_scheduler \<Rightarrow> 'r priority_scheduler" where
  "Enqueue Priority exec ps =
     (let p = (if Priority exec = [] then PriorityClassNormal else Priority exec)
      in set_queue p (queue_of ps p @ [exec]) ps)"

definition findAndRemove ::
  "priority_class \<Rightarrow> ('r \<Rightarrow> bool) option \<Rightarrow> 'r priority_scheduler \<Rightarrow> 'r option \<times> 'r priority_scheduler" where
  "findAndRemove p canSchedule ps =
     (case List.extract (\<lambda>exec. case canSchedule of None \<Rightarrow> True | Some f \<Rightarrow> f exec) (queue_of ps p) of
        None \<Rightarrow> (None, ps)
      | Some (before, exec, after) \<Rightarrow>
          (Some exec,
           (set_queue p (before @ after) ps)
             \<lparr>currentCredits := (currentCredits ps)(p := currentCredits ps p - 1)\<rparr>))"

definition priorityOrder :: "priority_class list" where
  "priorityOrder = [PriorityClassCritical, PriorityClassHigh, PriorityClassNormal, PriorityClassLow,
                    PriorityClassBackground]"

text \<open>The two loops of \<open>Dequeue\<close>: over classes with credit left, then over all classes.\<close>

fun scan_credited ::
  "priority_class list \<Rightarrow> ('r \<Rightarrow> bool) option \<Rightarrow> 'r priority_scheduler \<Rightarrow> 'r option \<times> 'r priority_scheduler" where
  "scan_credited [] canSchedule ps = (None, ps)"
| "scan_credited (p # rest) canSchedule ps =
     (if queue_of ps p \<noteq> [] \<and> currentCredits ps p > 0
      then (case findAndRemove p canSchedule ps of
              (Some exec, ps') \<Rightarrow> (Some exec, ps')
            | (None, ps') \<Rightarrow> scan_credited rest canSchedule ps')
      else scan_credited rest canSchedule ps)"

fun scan_all ::
  "priority_class list \<Rightarrow> ('r \<Rightarrow> bool) option \<Rightarrow> 'r priority_scheduler \<Rightarrow> 'r option \<times> 'r priority_scheduler" where
  "scan_all [] canSchedule ps = (None, ps)"
| "scan_all (p # rest) canSchedule ps =
     (case findAndRemove p canSchedule ps of
        (Some exec, ps') \<Rightarrow> (Some exec, ps')
      | (None, ps') \<Rightarrow> scan_all rest canSchedule ps')"

definition hasCandidates :: "'r priority_scheduler \<Rightarrow> bool" where
  "hasCandidates ps = list_ex (\<lambda>(p, q). q \<noteq> []) (queues ps)"

definition resetCredits :: "'r priority_scheduler \<Rightarrow> 'r priority_scheduler" where
  "resetCredits ps = ps\<lparr>currentCredits := credit_from (weights ps) (currentCredits ps)\<rparr>"

definition Dequeue ::
  "('r \<Rightarrow> bool) option \<Rightarrow> 'r priority_scheduler \<Rightarrow> 'r option \<times> 'r priority_scheduler" where
  "Dequeue canSchedule ps =
     (case scan_credited priorityOrder canSchedule ps of
        (Some exec, ps') \<Rightarrow> (Some exec, ps')
      | (None, ps') \<Rightarrow>
          if \<not> hasCandidates ps' then (None, ps')
          else scan_all priorityOrder canSchedule (resetCredits ps'))"

text \<open>\<open>Remove\<close> ranges over the map: \<open>ord\<close> is the order in which Go visits the classes.\<close>

fun Remove ::
  "priority_class list \<Rightarrow> ('r \<Rightarrow> string) \<Rightarrow> string \<Rightarrow> 'r priority_scheduler \<Rightarrow> bool \<times> 'r priority_scheduler" where
  "Remove [] ID execID ps = (False, ps)"
| "Remove (p # ord) ID execID ps =
     (case List.extract (\<lambda>exec. ID exec = execID) (queue_of ps p) of
        Some (before, _, after) \<Rightarrow> (True, set_queue p (before @ after) ps)
      | None \<Rightarrow> Remove ord ID execID ps)"

definition Size :: "'r priority_scheduler \<Rightarrow> nat" where
  "Size ps = sum_list (map (\<lambda>(p, q). length q) (queues ps))"

section \<open>The invariant and what each method keeps of it\<close>

text \<open>
  Keys are distinct, every execution sits in the queue of its own (normalised) class, the
  weights are the constructor's, and a class's credit lies between 0 and its weight.
\<close>

definition class_of :: "('r \<Rightarrow> priority_class) \<Rightarrow> 'r \<Rightarrow> priority_class" where
  "class_of Priority e = (if Priority e = [] then PriorityClassNormal else Priority e)"

definition weight_of :: "priority_class \<Rightarrow> int" where
  "weight_of p = (case map_of default_weights p of None \<Rightarrow> 0 | Some w \<Rightarrow> w)"

definition ps_inv :: "('r \<Rightarrow> priority_class) \<Rightarrow> 'r priority_scheduler \<Rightarrow> bool" where
  "ps_inv Priority ps \<longleftrightarrow>
     distinct (map fst (queues ps)) \<and> weights ps = default_weights \<and>
     (\<forall>p. 0 \<le> currentCredits ps p \<and> currentCredits ps p \<le> weight_of p) \<and>
     (\<forall>p. \<forall>e\<in>set (queue_of ps p). class_of Priority e = p)"

definition bag :: "'r priority_scheduler \<Rightarrow> 'r multiset" where
  "bag ps = mset (concat (map snd (queues ps)))"

lemma weight_of_simps [simp]:
  "weight_of PriorityClassCritical = 16" "weight_of PriorityClassHigh = 8"
  "weight_of PriorityClassNormal = 4" "weight_of PriorityClassLow = 2"
  "weight_of PriorityClassBackground = 1"
  by (simp_all add: weight_of_def default_weights_def)

lemma weight_of_unknown: "p \<notin> set priorityOrder \<Longrightarrow> weight_of p = 0"
  by (auto simp: weight_of_def default_weights_def priorityOrder_def)

lemma weight_of_nonneg [simp]: "0 \<le> weight_of p"
  by (auto simp: weight_of_def default_weights_def)

lemma credit_from_default:
  "credit_from default_weights c p = (if p \<in> set priorityOrder then weight_of p else c p)"
  by (auto simp: credit_from_def default_weights_def priorityOrder_def weight_of_def)

lemma queue_of_set_queue [simp]:
  "queue_of (set_queue p q ps) r = (if r = p then q else queue_of ps r)"
  by (simp add: queue_of_def set_queue_def update_conv')

lemma set_queue_fields [simp]:
  "weights (set_queue p q ps) = weights ps" "currentCredits (set_queue p q ps) = currentCredits ps"
  by (simp_all add: set_queue_def)

lemma queue_of_credits [simp]: "queue_of (ps\<lparr>currentCredits := c\<rparr>) = queue_of ps"
  by (simp add: queue_of_def fun_eq_iff)

lemma queues_reset [simp]:
  "queues (resetCredits ps) = queues ps" "queue_of (resetCredits ps) = queue_of ps"
  by (simp_all add: resetCredits_def)

lemma distinct_set_queue:
  "distinct (map fst (queues ps)) \<Longrightarrow> distinct (map fst (queues (set_queue p q ps)))"
  by (simp add: set_queue_def distinct_update)

text \<open>The bag of a scheduler splits off any one queue; replacing that queue replaces its part.\<close>

lemma bag_alist_update:
  "distinct (map fst xs) \<Longrightarrow>
   mset (concat (map snd (AList.update p q xs))) + mset (case map_of xs p of None \<Rightarrow> [] | Some q' \<Rightarrow> q')
     = mset (concat (map snd xs)) + mset q"
proof (induction xs)
  case Nil
  show ?case by simp
next
  case (Cons x xs)
  obtain k v where x: "x = (k, v)" by fastforce
  show ?case
  proof (cases "k = p")
    case True
    with Cons.prems x have "map_of xs p = None" by (auto simp: map_of_eq_None_iff)
    with True x show ?thesis by (simp add: ac_simps)
  next
    case False
    with Cons x show ?thesis by (simp add: ac_simps)
  qed
qed

lemma bag_set_queue:
  assumes "distinct (map fst (queues ps))"
  shows "bag (set_queue p q ps) + mset (queue_of ps p) = bag ps + mset q"
  using bag_alist_update [OF assms, of p q] by (simp add: bag_def queue_of_def set_queue_def)

lemma bag_credits [simp]: "bag (ps\<lparr>currentCredits := c\<rparr>) = bag ps"
  by (simp add: bag_def)

lemma Size_bag: "Size ps = size (bag ps)"
proof -
  have "sum_list (map (\<lambda>(p, q). length q) xs) = length (concat (map snd xs))"
    for xs :: "(priority_class \<times> 'r list) list"
    by (induction xs) auto
  then show ?thesis by (simp add: Size_def bag_def)
qed

lemma bag_iff: "distinct (map fst (queues ps)) \<Longrightarrow> e \<in># bag ps \<longleftrightarrow> (\<exists>p. e \<in> set (queue_of ps p))"
proof -
  have "(e \<in> set (concat (map snd xs))) \<longleftrightarrow> (\<exists>p. e \<in> set (case map_of xs p of None \<Rightarrow> [] | Some q \<Rightarrow> q))"
    if "distinct (map fst xs)" for e :: 'b and xs :: "(priority_class \<times> 'b list) list"
    using that
    by (force simp: map_of_eq_Some_iff split: option.splits dest: map_of_SomeD)
  then show "distinct (map fst (queues ps)) \<Longrightarrow> ?thesis"
    by (simp only: bag_def queue_of_def set_mset_mset)
qed

lemma hasCandidates_iff: "distinct (map fst (queues ps)) \<Longrightarrow> hasCandidates ps \<longleftrightarrow> bag ps \<noteq> {#}"
  by (force simp: hasCandidates_def bag_def list_ex_iff concat_eq_Nil_conv)

section \<open>A reference definition of \<open>Dequeue\<close>\<close>

text \<open>
  Which class the code serves, without loops or state: the first class with credit left and
  something schedulable, else the first class with something schedulable after the credits are
  set back to the weights.  From that class it takes the oldest schedulable execution.
\<close>

definition schedulable :: "('r \<Rightarrow> bool) option \<Rightarrow> 'r priority_scheduler \<Rightarrow> priority_class \<Rightarrow> bool" where
  "schedulable can ps p \<longleftrightarrow> list_ex (passes can) (queue_of ps p)"

definition choose_class :: "('r \<Rightarrow> bool) option \<Rightarrow> 'r priority_scheduler \<Rightarrow> (priority_class \<times> bool) option" where
  "choose_class can ps =
     (case List.find (\<lambda>p. currentCredits ps p > 0 \<and> schedulable can ps p) priorityOrder of
        Some p \<Rightarrow> Some (p, False)
      | None \<Rightarrow> map_option (\<lambda>p. (p, True)) (List.find (schedulable can ps) priorityOrder))"

definition take_from ::
  "priority_class \<Rightarrow> ('r \<Rightarrow> bool) option \<Rightarrow> 'r priority_scheduler \<Rightarrow> 'r option \<times> 'r priority_scheduler" where
  "take_from p can ps =
     (List.find (passes can) (queue_of ps p),
      (set_queue p (remove_first (passes can) (queue_of ps p)) ps)
        \<lparr>currentCredits := (currentCredits ps)(p := currentCredits ps p - 1)\<rparr>)"

lemma schedulable_iff: "schedulable can ps p \<longleftrightarrow> (\<exists>e\<in>set (queue_of ps p). passes can e)"
  by (simp add: schedulable_def list_ex_iff)

lemma schedulable_credits [simp]:
  "schedulable can (ps\<lparr>currentCredits := c\<rparr>) = schedulable can ps"
  "schedulable can (resetCredits ps) = schedulable can ps"
  by (simp_all add: fun_eq_iff schedulable_def)

lemma schedulable_not_Nil: "schedulable can ps p \<Longrightarrow> queue_of ps p \<noteq> []"
  by (auto simp: schedulable_iff)

lemma hasCandidates_schedulable: "schedulable can ps p \<Longrightarrow> hasCandidates ps"
proof -
  assume "schedulable can ps p"
  then have "queue_of ps p \<noteq> []" by (rule schedulable_not_Nil)
  then obtain q where q: "map_of (queues ps) p = Some q" "q \<noteq> []"
    by (auto simp: queue_of_def split: option.splits)
  from map_of_SomeD [OF q(1)] q(2) show ?thesis
    unfolding hasCandidates_def list_ex_iff by (intro bexI [of _ "(p, q)"]) simp_all
qed

lemma find_of_extract: "List.extract P xs = Some (ys, y, zs) \<Longrightarrow> List.find P xs = Some y"
  by (induction xs arbitrary: ys)
     (auto simp: extract_Nil_code extract_Cons_code split: if_splits option.splits)

lemma findAndRemove_eq:
  "findAndRemove p can ps = (if schedulable can ps p then take_from p can ps else (None, ps))"
proof -
  have "(\<lambda>exec. case can of None \<Rightarrow> True | Some f \<Rightarrow> f exec) = passes can"
    by (simp add: passes_def fun_eq_iff)
  then show ?thesis
    by (auto simp: findAndRemove_def take_from_def schedulable_iff remove_first_def find_of_extract
        dest: extract_NoneD extract_SomeD split: option.splits)
qed

lemma take_from_Some: "schedulable can ps p \<Longrightarrow> \<exists>e. fst (take_from p can ps) = Some e"
  by (cases "List.find (passes can) (queue_of ps p)")
     (auto simp: take_from_def schedulable_iff find_None_iff)

lemma findAndRemove_case:
  "(case findAndRemove p can ps of (Some e, ps') \<Rightarrow> (Some e, ps') | (None, ps') \<Rightarrow> k ps') =
     (if schedulable can ps p then take_from p can ps else k ps)"
  using take_from_Some [of can ps p]
  by (cases "take_from p can ps") (auto simp: findAndRemove_eq)

lemma scan_credited_eq:
  "scan_credited cs can ps =
     (case List.find (\<lambda>p. currentCredits ps p > 0 \<and> schedulable can ps p) cs of
        None \<Rightarrow> (None, ps) | Some p \<Rightarrow> take_from p can ps)"
  by (induction cs) (auto simp: findAndRemove_case schedulable_not_Nil)

lemma scan_all_eq:
  "scan_all cs can ps =
     (case List.find (schedulable can ps) cs of None \<Rightarrow> (None, ps) | Some p \<Rightarrow> take_from p can ps)"
  by (induction cs) (auto simp: findAndRemove_case)

lemma Dequeue_eq:
  "Dequeue can ps =
     (case choose_class can ps of
        None \<Rightarrow> (None, if hasCandidates ps then resetCredits ps else ps)
      | Some (p, fresh) \<Rightarrow> take_from p can (if fresh then resetCredits ps else ps))"
proof (cases "List.find (\<lambda>p. currentCredits ps p > 0 \<and> schedulable can ps p) priorityOrder")
  case None
  then have first: "scan_credited priorityOrder can ps = (None, ps)" by (simp add: scan_credited_eq)
  show ?thesis
  proof (cases "List.find (schedulable can ps) priorityOrder")
    case None': None
    with None first show ?thesis by (simp add: Dequeue_def choose_class_def scan_all_eq)
  next
    case (Some p)
    then have "schedulable can ps p" by (auto simp: find_Some_iff)
    then have "hasCandidates ps" by (rule hasCandidates_schedulable)
    with None Some first show ?thesis by (simp add: Dequeue_def choose_class_def scan_all_eq)
  qed
next
  case (Some p)
  then have "schedulable can ps p" by (auto simp: find_Some_iff)
  then obtain e ps' where "take_from p can ps = (Some e, ps')"
    using take_from_Some by (metis prod.collapse)
  with Some show ?thesis by (simp add: Dequeue_def choose_class_def scan_credited_eq)
qed

lemma choose_class_SomeD:
  assumes "choose_class can ps = Some (p, fresh)"
  shows "p \<in> set priorityOrder \<and> schedulable can ps p \<and> (\<not> fresh \<longrightarrow> currentCredits ps p > 0)"
  using assms by (auto simp: choose_class_def find_Some_iff split: option.splits)

lemma choose_class_None_iff:
  "choose_class can ps = None \<longleftrightarrow> (\<forall>p\<in>set priorityOrder. \<not> schedulable can ps p)"
proof (cases "List.find (\<lambda>p. currentCredits ps p > 0 \<and> schedulable can ps p) priorityOrder")
  case (Some p)
  then have "p \<in> set priorityOrder \<and> schedulable can ps p" by (auto simp: find_Some_iff)
  with Some show ?thesis by (auto simp: choose_class_def)
next
  case None
  then have "choose_class can ps = map_option (\<lambda>p. (p, True)) (List.find (schedulable can ps) priorityOrder)"
    by (simp add: choose_class_def)
  then show ?thesis by (auto simp: find_None_iff)
qed

section \<open>Preservation of the invariant\<close>

lemma ps_invD:
  assumes "ps_inv Priority ps"
  shows "distinct (map fst (queues ps))" "weights ps = default_weights"
    "0 \<le> currentCredits ps p" "currentCredits ps p \<le> weight_of p"
    "e \<in> set (queue_of ps p) \<Longrightarrow> class_of Priority e = p"
  using assms by (auto simp: ps_inv_def)

lemma ps_inv_new: "ps_inv Priority NewPriorityScheduler"
  by (auto simp: ps_inv_def NewPriorityScheduler_def queue_of_def credit_from_default)

lemma queue_of_new [simp]: "queue_of NewPriorityScheduler p = []"
  by (simp add: queue_of_def NewPriorityScheduler_def)

lemma bag_new: "bag NewPriorityScheduler = {#}"
  by (simp add: bag_def NewPriorityScheduler_def)

lemma ps_inv_Enqueue: "ps_inv Priority ps \<Longrightarrow> ps_inv Priority (Enqueue Priority e ps)"
  by (auto simp: ps_inv_def Enqueue_def Let_def distinct_set_queue class_of_def)

lemma bag_Enqueue: "ps_inv Priority ps \<Longrightarrow> bag (Enqueue Priority e ps) = add_mset e (bag ps)"
proof -
  assume "ps_inv Priority ps"
  then have "bag (set_queue p (queue_of ps p @ [e]) ps) = add_mset e (bag ps)" for p
    using bag_set_queue [OF ps_invD(1), of Priority ps p "queue_of ps p @ [e]"] by simp
  then show ?thesis by (simp add: Enqueue_def Let_def)
qed

lemma ps_inv_reset: "ps_inv Priority ps \<Longrightarrow> ps_inv Priority (resetCredits ps)"
  by (auto simp: ps_inv_def resetCredits_def credit_from_default)

lemma bag_reset [simp]: "bag (resetCredits ps) = bag ps"
  by (simp add: resetCredits_def)

lemma credits_reset:
  "ps_inv Priority ps \<Longrightarrow> currentCredits (resetCredits ps) p = weight_of p"
  using ps_invD(3,4) [of Priority ps p] weight_of_unknown [of p]
  by (auto simp: resetCredits_def credit_from_default ps_invD(2))

lemma ps_inv_take_from:
  assumes "ps_inv Priority ps" and "currentCredits ps p > 0"
  shows "ps_inv Priority (snd (take_from p can ps))"
proof -
  have "currentCredits ps p - 1 \<le> weight_of p" using ps_invD(4) [OF assms(1), of p] by simp
  then show ?thesis
    using assms set_remove_first [of "passes can" "queue_of ps p"]
    by (auto simp: ps_inv_def take_from_def distinct_set_queue)
qed

lemma bag_take_from:
  assumes "ps_inv Priority ps" and "take_from p can ps = (Some e, ps')"
  shows "passes can e \<and> e \<in> set (queue_of ps p) \<and> bag ps = add_mset e (bag ps')"
proof -
  from assms(2) have f: "List.find (passes can) (queue_of ps p) = Some e"
    and ps': "ps' = (set_queue p (remove_first (passes can) (queue_of ps p)) ps)
        \<lparr>currentCredits := (currentCredits ps)(p := currentCredits ps p - 1)\<rparr>"
    by (auto simp: take_from_def)
  from bag_set_queue [OF ps_invD(1) [OF assms(1)], of p "remove_first (passes can) (queue_of ps p)"]
    find_remove_first [OF f] ps'
  show ?thesis by auto
qed

text \<open>The class a dequeue serves has credit when it is served: left over, or from the reset.\<close>

lemma served_credit:
  assumes "ps_inv Priority ps" and "choose_class can ps = Some (p, fresh)"
  defines "ps0 \<equiv> (if fresh then resetCredits ps else ps)"
  shows "ps_inv Priority ps0" "currentCredits ps0 p > 0" "schedulable can ps0 p"
proof -
  note c = choose_class_SomeD [OF assms(2)]
  show "ps_inv Priority ps0" using assms(1) by (simp add: ps0_def ps_inv_reset)
  have "weight_of p > 0" using c by (auto simp: priorityOrder_def)
  then show "currentCredits ps0 p > 0"
    using c credits_reset [OF assms(1), of p] by (auto simp: ps0_def)
  show "schedulable can ps0 p" using c by (simp add: ps0_def)
qed

lemma ps_inv_Dequeue: "ps_inv Priority ps \<Longrightarrow> ps_inv Priority (snd (Dequeue can ps))"
proof -
  assume i: "ps_inv Priority ps"
  show ?thesis
  proof (cases "choose_class can ps")
    case None
    with i show ?thesis by (simp add: Dequeue_eq ps_inv_reset)
  next
    case (Some pf)
    obtain p fresh where pf: "pf = (p, fresh)" by fastforce
    from ps_inv_take_from [OF served_credit(1,2) [OF i Some [unfolded pf]]] show ?thesis
      by (simp add: Dequeue_eq Some pf)
  qed
qed

lemma Dequeue_None_D: "Dequeue can ps = (None, ps') \<Longrightarrow> choose_class can ps = None"
proof (cases "choose_class can ps")
  case (Some pf)
  obtain p fresh where pf: "pf = (p, fresh)" by fastforce
  let ?ps0 = "if fresh then resetCredits ps else ps"
  have "schedulable can ?ps0 p"
    using choose_class_SomeD [OF Some [unfolded pf]] by simp
  from take_from_Some [OF this] obtain e where "fst (take_from p can ?ps0) = Some e" ..
  moreover assume "Dequeue can ps = (None, ps')"
  ultimately show ?thesis by (simp add: Dequeue_eq Some pf)
qed simp

lemma bag_Dequeue_None: "Dequeue can ps = (None, ps') \<Longrightarrow> bag ps' = bag ps"
  by (frule Dequeue_None_D) (auto simp: Dequeue_eq split: if_splits)

lemma Dequeue_SomeD:
  assumes "ps_inv Priority ps" and "Dequeue can ps = (Some e, ps')"
  obtains p fresh where "choose_class can ps = Some (p, fresh)"
    and "take_from p can (if fresh then resetCredits ps else ps) = (Some e, ps')"
  using assms by (auto simp: Dequeue_eq split: option.splits)

lemma bag_Dequeue_Some:
  assumes "ps_inv Priority ps" and "Dequeue can ps = (Some e, ps')"
  shows "passes can e \<and> bag ps = add_mset e (bag ps')"
proof -
  obtain p fresh where c: "choose_class can ps = Some (p, fresh)"
    and t: "take_from p can (if fresh then resetCredits ps else ps) = (Some e, ps')"
    using Dequeue_SomeD [OF assms] .
  from bag_take_from [OF served_credit(1) [OF assms(1) c] t] show ?thesis by (cases fresh) auto
qed

lemma Dequeue_known_class:
  assumes "ps_inv Priority ps" and "Dequeue can ps = (Some e, ps')"
  shows "class_of Priority e \<in> set priorityOrder"
proof -
  obtain p fresh where c: "choose_class can ps = Some (p, fresh)"
    and t: "take_from p can (if fresh then resetCredits ps else ps) = (Some e, ps')"
    using Dequeue_SomeD [OF assms] .
  have "e \<in> set (queue_of ps p)"
    using bag_take_from [OF served_credit(1) [OF assms(1) c] t] by (cases fresh) auto
  with ps_invD(5) [OF assms(1)] choose_class_SomeD [OF c] show ?thesis by auto
qed

lemma Remove_hit:
  assumes "ps_inv Priority ps" and "Remove ord ID x ps = (True, ps')"
  shows "ps_inv Priority ps' \<and> (\<exists>e. ID e = x \<and> bag ps = add_mset e (bag ps'))"
  using assms(2)
proof (induction ord)
  case Nil
  then show ?case by simp
next
  case (Cons p ord)
  show ?case
  proof (cases "List.extract (\<lambda>e. ID e = x) (queue_of ps p)")
    case None
    with Cons show ?thesis by simp
  next
    case (Some r)
    then obtain before e after where r: "List.extract (\<lambda>e. ID e = x) (queue_of ps p) = Some (before, e, after)"
      by (metis prod_cases3)
    from extract_SomeD [OF r] have q: "queue_of ps p = before @ e # after" and id: "ID e = x" by auto
    from Cons.prems r have ps': "ps' = set_queue p (before @ after) ps" by simp
    from bag_set_queue [OF ps_invD(1) [OF assms(1)], of p "before @ after"] q ps' id assms(1)
    show ?thesis by (auto simp: ps_inv_def distinct_set_queue)
  qed
qed

lemma Remove_miss: "Remove ord ID x ps = (False, ps') \<Longrightarrow> ps' = ps"
  by (induction ord) (auto split: option.splits)

lemma ps_inv_Remove: "ps_inv Priority ps \<Longrightarrow> ps_inv Priority (snd (Remove ord ID x ps))"
  using Remove_hit [of Priority ps ord ID x] Remove_miss [of ord ID x ps]
  by (cases "Remove ord ID x ps"; cases "fst (Remove ord ID x ps)") auto

interpretation sq: work_queue NewPriorityScheduler "Enqueue Priority" Dequeue "\<lambda>ord. Remove ord ID"
    Size bag ID "ps_inv Priority" for Priority :: "'r \<Rightarrow> priority_class" and ID :: "'r \<Rightarrow> string"
  by unfold_locales
    (auto simp: ps_inv_new bag_new ps_inv_Enqueue bag_Enqueue ps_inv_Dequeue bag_Dequeue_None
      ps_inv_Remove Size_bag dest: bag_Dequeue_Some Remove_hit Remove_miss)

section \<open>Bounded waiting\<close>

text \<open>
  The potential of a class that waits: the credit the other classes may still use up before it,
  plus a full round when it has no credit itself.  A dequeue that serves another class lowers it.
\<close>

definition others_credit :: "priority_class \<Rightarrow> 'r priority_scheduler \<Rightarrow> int" where
  "others_credit p ps = sum_list (map (currentCredits ps) (filter (\<lambda>q. q \<noteq> p) priorityOrder))"

definition waiting_potential :: "priority_class \<Rightarrow> 'r priority_scheduler \<Rightarrow> int" where
  "waiting_potential p ps = others_credit p ps + (if currentCredits ps p = 0 then 32 else 1)"

fun dequeues :: "('r, 'o) wq_op list \<Rightarrow> nat" where
  "dequeues [] = 0"
| "dequeues (Deq can # ops) = Suc (dequeues ops)"
| "dequeues (_ # ops) = dequeues ops"

lemma others_credit_nonneg: "ps_inv Priority ps \<Longrightarrow> 0 \<le> others_credit p ps"
  by (auto simp: others_credit_def ps_invD(3) intro!: sum_list_nonneg)

lemma waiting_potential_bounds:
  assumes "ps_inv Priority ps" and "p \<in> set priorityOrder"
  shows "1 \<le> waiting_potential p ps" "waiting_potential p ps \<le> 62"
proof -
  show "1 \<le> waiting_potential p ps"
    using others_credit_nonneg [OF assms(1), of p] by (simp add: waiting_potential_def)
  have "others_credit p ps \<le> 30"
    using assms(2) ps_invD(4) [OF assms(1), of PriorityClassCritical]
      ps_invD(4) [OF assms(1), of PriorityClassHigh] ps_invD(4) [OF assms(1), of PriorityClassNormal]
      ps_invD(4) [OF assms(1), of PriorityClassLow] ps_invD(4) [OF assms(1), of PriorityClassBackground]
    by (auto simp: others_credit_def priorityOrder_def)
  then show "waiting_potential p ps \<le> 62" by (simp add: waiting_potential_def)
qed

lemma others_credit_dec:
  "q \<in> set priorityOrder \<Longrightarrow> q \<noteq> p \<Longrightarrow>
   others_credit p (ps\<lparr>currentCredits := (currentCredits ps)(q := currentCredits ps q - 1)\<rparr>)
     = others_credit p ps - 1"
  by (auto simp: others_credit_def priorityOrder_def)

lemma others_credit_set_queue [simp]: "others_credit p (set_queue q xs ps) = others_credit p ps"
  by (simp add: others_credit_def)

lemma others_credit_reset:
  "ps_inv Priority ps \<Longrightarrow> p \<in> set priorityOrder \<Longrightarrow>
   others_credit p (resetCredits ps) = 31 - weight_of p"
  by (auto simp: others_credit_def credits_reset priorityOrder_def)

lemma find_hd: "xs \<noteq> [] \<Longrightarrow> P (hd xs) \<Longrightarrow> List.find P xs = Some (hd xs)"
  by (cases xs) auto

lemma take_from_other:
  assumes "take_from q can ps = (r, ps')" and "q \<noteq> p"
  shows "queue_of ps' p = queue_of ps p" "currentCredits ps' p = currentCredits ps p"
    "q \<in> set priorityOrder \<Longrightarrow> others_credit p ps' = others_credit p ps - 1"
  using assms others_credit_dec [of q p "set_queue q (remove_first (passes can) (queue_of ps q)) ps"]
  by (auto simp: take_from_def)

lemma Dequeue_progress:
  assumes inv: "ps_inv Priority ps" and p: "p \<in> set priorityOrder" and ne: "queue_of ps p \<noteq> []"
    and pass: "\<And>e. class_of Priority e = p \<Longrightarrow> passes can e"
    and deq: "Dequeue can ps = (r, ps')"
  shows "r = Some (hd (queue_of ps p)) \<or>
    (\<exists>e. r = Some e \<and> queue_of ps' p = queue_of ps p \<and> waiting_potential p ps' < waiting_potential p ps)"
proof -
  have head: "passes can (hd (queue_of ps p))"
    using pass ps_invD(5) [OF inv, of "hd (queue_of ps p)" p] ne by simp
  then have sched: "schedulable can ps p" using ne by (auto simp: schedulable_iff)
  then obtain q fresh where c: "choose_class can ps = Some (q, fresh)"
    using p choose_class_None_iff [of can ps] by (cases "choose_class can ps") auto
  define ps0 where "ps0 = (if fresh then resetCredits ps else ps)"
  have t: "take_from q can ps0 = (r, ps')" using deq c by (simp add: Dequeue_eq ps0_def)
  have q0 [simp]: "queue_of ps0 = queue_of ps" by (simp add: ps0_def)
  note q = choose_class_SomeD [OF c]
  show ?thesis
  proof (cases "q = p")
    case True
    with t head ne show ?thesis by (auto simp: take_from_def find_hd)
  next
    case False
    note other = take_from_other [OF t False]
    obtain e where r: "r = Some e"
      using take_from_Some [of can ps0 q] q t by (cases fresh) (auto simp: ps0_def)
    have "waiting_potential p ps' < waiting_potential p ps"
    proof (cases fresh)
      case True
      with c sched p have "\<not> currentCredits ps p > 0"
        by (auto simp: choose_class_def find_None_iff split: option.splits)
      then have "currentCredits ps p = 0" using ps_invD(3) [OF inv, of p] by simp
      then have "32 \<le> waiting_potential p ps"
        using others_credit_nonneg [OF inv, of p] by (simp add: waiting_potential_def)
      moreover have "0 < weight_of p" using p by (auto simp: priorityOrder_def)
      moreover have "others_credit p ps' = 30 - weight_of p" "currentCredits ps' p = weight_of p"
        using other q True others_credit_reset [OF inv p] credits_reset [OF inv, of p]
        by (auto simp: ps0_def)
      ultimately show ?thesis by (simp add: waiting_potential_def)
    next
      case False
      with other q show ?thesis by (simp add: waiting_potential_def ps0_def)
    qed
    with other(1) r show ?thesis by simp
  qed
qed

lemma waiting_potential_Enqueue [simp]:
  "waiting_potential p (Enqueue Priority e ps) = waiting_potential p ps"
  by (simp add: waiting_potential_def Enqueue_def Let_def)

lemma head_Enqueue:
  "queue_of ps p \<noteq> [] \<Longrightarrow>
   queue_of (Enqueue Priority e ps) p \<noteq> [] \<and> hd (queue_of (Enqueue Priority e ps) p) = hd (queue_of ps p)"
  by (auto simp: Enqueue_def Let_def)

lemma served_within_potential:
  assumes "ps_inv Priority ps" and "p \<in> set priorityOrder" and "queue_of ps p \<noteq> []"
    and "\<And>can e. Deq can \<in> set ops \<Longrightarrow> class_of Priority e = p \<Longrightarrow> passes can e"
    and "\<not> (\<exists>ord x. Rem ord x \<in> set ops)"
    and "waiting_potential p ps \<le> int (dequeues ops)"
    and "wq_run (Enqueue Priority) Dequeue rem ops ps = (out, n, ps')"
  shows "hd (queue_of ps p) \<in> set out"
  using assms
proof (induction ops arbitrary: ps out n)
  case Nil
  then show ?case using waiting_potential_bounds(1) [OF Nil.prems(1,2)] by simp
next
  case (Cons op ops)
  show ?case
  proof (cases op)
    case (Enq e)
    from Cons.IH [of "Enqueue Priority e ps" out n] Cons.prems head_Enqueue [OF Cons.prems(3), of Priority e]
    show ?thesis by (auto simp: Enq ps_inv_Enqueue)
  next
    case (Deq can)
    obtain r ps1 where d: "Dequeue can ps = (r, ps1)" by fastforce
    obtain out1 where run: "wq_run (Enqueue Priority) Dequeue rem ops ps1 = (out1, n, ps')"
      and out: "out = (case r of None \<Rightarrow> out1 | Some e \<Rightarrow> e # out1)"
      using Cons.prems(7) Deq d by (auto split: prod.splits)
    have "r = Some (hd (queue_of ps p)) \<or>
        (\<exists>e. r = Some e \<and> queue_of ps1 p = queue_of ps p \<and> waiting_potential p ps1 < waiting_potential p ps)"
      using Cons.prems Deq d by (intro Dequeue_progress [of Priority]) auto
    then show ?thesis
    proof
      assume "r = Some (hd (queue_of ps p))"
      with out show ?thesis by simp
    next
      assume "\<exists>e. r = Some e \<and> queue_of ps1 p = queue_of ps p \<and> waiting_potential p ps1 < waiting_potential p ps"
      moreover have "ps_inv Priority ps1" using ps_inv_Dequeue [OF Cons.prems(1), of can] d by simp
      ultimately have "hd (queue_of ps1 p) \<in> set out1"
        using Cons.prems Deq run by (intro Cons.IH [of ps1 out1 n]) auto
      with \<open>\<exists>e. _\<close> out show ?thesis by auto
    qed
  next
    case (Rem ord x)
    with Cons.prems(5) show ?thesis by auto
  qed
qed

section \<open>Properties\<close>

text \<open>
  C12: \<open>Dequeue\<close> is its reference: it serves the first class with credit left and something
  schedulable, else (after setting the credits back) the first class with something
  schedulable; it hands out the oldest schedulable execution of that class, deletes exactly that
  one and charges one credit; with nothing schedulable it returns nil and only the credits move.
\<close>

theorem Dequeue_equals_reference:
  "Dequeue can ps =
     (case choose_class can ps of
        None \<Rightarrow> (None, if hasCandidates ps then resetCredits ps else ps)
      | Some (p, fresh) \<Rightarrow>
          (let ps0 = (if fresh then resetCredits ps else ps); q = queue_of ps p
           in (Some (hd (filter (passes can) q)),
               (set_queue p (remove_first (passes can) q) ps0)
                 \<lparr>currentCredits := (currentCredits ps0)(p := currentCredits ps0 p - 1)\<rparr>)))"
proof (cases "choose_class can ps")
  case (Some pf)
  obtain p fresh where pf: "pf = (p, fresh)" by fastforce
  have "filter (passes can) (queue_of ps p) \<noteq> []"
    using choose_class_SomeD [OF Some [unfolded pf]] by (auto simp: schedulable_iff filter_empty_conv)
  with Some pf show ?thesis
    by (auto simp: Dequeue_eq take_from_def find_hd_filter Let_def split: list.splits)
qed (simp add: Dequeue_eq)

text \<open>
  The scheduler is work-conserving on the five known classes: it returns nil exactly when
  no queued execution of a known class may be scheduled.
\<close>

theorem Dequeue_idle_iff:
  assumes "ps_inv Priority ps"
  shows "fst (Dequeue can ps) = None \<longleftrightarrow>
    (\<forall>e. e \<in># bag ps \<and> class_of Priority e \<in> set priorityOrder \<longrightarrow> \<not> passes can e)"
proof -
  have "fst (Dequeue can ps) = None \<longleftrightarrow> choose_class can ps = None"
    using Dequeue_None_D [of can ps "snd (Dequeue can ps)"]
    by (auto simp: Dequeue_eq prod_eq_iff)
  also have "\<dots> \<longleftrightarrow> (\<forall>p\<in>set priorityOrder. \<not> schedulable can ps p)"
    by (rule choose_class_None_iff)
  finally show ?thesis
    using ps_invD(5) [OF assms] by (auto simp: schedulable_iff bag_iff [OF ps_invD(1) [OF assms]])
qed

theorem Dequeue_idle_iff_witness:
  "fst (Dequeue (Some (\<lambda>e. e = ''b'')) (Enqueue (\<lambda>_. ''High'') ''a'' NewPriorityScheduler)) = None"
  using Dequeue_idle_iff [OF ps_inv_Enqueue [OF ps_inv_new], of "Some (\<lambda>e. e = ''b'')" "\<lambda>_. ''High''" "''a''"]
  by (simp add: bag_Enqueue [OF ps_inv_new] bag_new)

text \<open>
  C13: conservation.  Over any sequence of enqueues, dequeues with arbitrary tests and removals
  by identifier, starting from a new scheduler, every execution that was enqueued is still
  queued, was handed out, or is one of the removed ones, each exactly once; \<open>Size\<close> is what is
  left.
\<close>

theorem scheduler_conserves_work:
  assumes "wq_run (Enqueue Priority) Dequeue (\<lambda>ord. Remove ord ID) ops NewPriorityScheduler = (out, n, ps)"
  shows "\<exists>R. size R = n \<and> mset (enqueued ops) = bag ps + mset out + R \<and>
    Size ps + length out + n = length (enqueued ops)"
proof -
  from sq.run_conserves [OF ps_inv_new assms] obtain R where
    R: "size R = n" "mset (enqueued ops) = bag ps + mset out + R" by (auto simp: bag_new)
  from R(2) have "length (enqueued ops) = size (bag ps) + length out + size R"
    by (metis size_mset size_union)
  with R show ?thesis by (auto simp: Size_bag)
qed

theorem scheduler_conserves_work_witness:
  "case wq_run (Enqueue (\<lambda>_. ''Low'')) Dequeue (\<lambda>ord. Remove ord id)
       [Enq ''a'', Enq ''b'', Rem [''Low''] ''a'', Deq None] NewPriorityScheduler of
     (out, n, ps) \<Rightarrow> out = [''b''] \<and> n = 1 \<and> Size ps + length out + n = 2"
proof -
  obtain out n ps where run: "wq_run (Enqueue (\<lambda>_. ''Low'')) Dequeue (\<lambda>ord. Remove ord id)
      [Enq ''a'', Enq ''b'', Rem [''Low''] ''a'', Deq None] NewPriorityScheduler = (out, n, ps)"
    using prod_cases3 by blast
  then have "out = [''b'']" "n = 1"
    by (auto simp: Let_def Enqueue_def set_queue_def queue_of_def NewPriorityScheduler_def Dequeue_def
        findAndRemove_def priorityOrder_def priority_class_defs default_weights_def credit_from_def
        extract_Cons_code extract_Nil_code)
  with scheduler_conserves_work [OF run] run show ?thesis by auto
qed

text \<open>
  C11: no starvation.  Let the oldest execution of a known class wait while others are enqueued
  and dequeued in any order.  If the tests never reject that class (whatever they do to the
  others), it has been handed out after at most 62 dequeues, two rounds of the weights.
\<close>

theorem Dequeue_no_starvation:
  assumes "ps_inv Priority ps" and "p \<in> set priorityOrder" and "queue_of ps p = e # rest"
    and "\<forall>can e'. Deq can \<in> set ops \<longrightarrow> class_of Priority e' = p \<longrightarrow> passes can e'"
    and "\<forall>ord x. Rem ord x \<notin> set ops" and "62 \<le> dequeues ops"
    and "wq_run (Enqueue Priority) Dequeue (\<lambda>ord. Remove ord ID) ops ps = (out, n, ps')"
  shows "e \<in> set out"
proof -
  have "waiting_potential p ps \<le> int (dequeues ops)"
    using waiting_potential_bounds(2) [OF assms(1,2)] assms(6) by simp
  then have "hd (queue_of ps p) \<in> set out"
    using assms by (intro served_within_potential) auto
  with assms(3) show ?thesis by simp
qed

theorem Dequeue_no_starvation_witness:
  "(''Low'', ''x'') \<in> set (fst (wq_run (Enqueue fst) Dequeue (\<lambda>ord. Remove ord snd)
     (concat (replicate 62 [Enq (''Critical'', ''c''), Deq None]))
     (Enqueue fst (''Low'', ''x'') NewPriorityScheduler)))"
proof -
  let ?ops = "\<lambda>n. concat (replicate n [Enq (''Critical'', ''c''), Deq None])
     :: (string \<times> string, string list) wq_op list"
  let ?ps = "Enqueue fst (''Low'', ''x'') NewPriorityScheduler"
  have n: "dequeues (?ops k) = k" for k by (induction k) auto
  have q: "queue_of ?ps ''Low'' = [(''Low'', ''x'')]"
    by (simp add: Enqueue_def Let_def)
  obtain out m ps' where "wq_run (Enqueue fst) Dequeue (\<lambda>ord. Remove ord snd) (?ops 62) ?ps = (out, m, ps')"
    using prod_cases3 by blast
  with Dequeue_no_starvation [OF ps_inv_Enqueue [OF ps_inv_new] _ q, of "?ops 62" snd out m ps'] n
  show ?thesis by (simp add: priorityOrder_def priority_class_defs)
qed

text \<open>
  An execution whose class is none of the five is never handed out, whatever is enqueued
  and dequeued; unless it is removed by identifier it stays queued and keeps counting in \<open>Size\<close>.
\<close>

theorem unknown_class_never_served:
  assumes "ps_inv Priority ps" and "\<forall>ord x. Rem ord x \<notin> set ops"
    and "wq_run (Enqueue Priority) Dequeue (\<lambda>ord. Remove ord ID) ops ps = (out, n, ps')"
    and "e \<in># bag ps" and "class_of Priority e \<notin> set priorityOrder"
  shows "e \<notin> set out \<and> e \<in># bag ps' \<and> 0 < Size ps'"
  using assms
proof (induction ops arbitrary: ps out n)
  case Nil
  then show ?case by (auto simp: Size_bag nonempty_has_size [symmetric])
next
  case (Cons op ops)
  show ?case
  proof (cases op)
    case (Enq a)
    from Cons.IH [of "Enqueue Priority a ps" out n] Cons.prems show ?thesis
      by (auto simp: Enq ps_inv_Enqueue bag_Enqueue)
  next
    case (Deq can)
    obtain r ps1 where d: "Dequeue can ps = (r, ps1)" by fastforce
    obtain out1 where run: "wq_run (Enqueue Priority) Dequeue (\<lambda>ord. Remove ord ID) ops ps1 = (out1, n, ps')"
      and out: "out = (case r of None \<Rightarrow> out1 | Some e \<Rightarrow> e # out1)"
      using Cons.prems(3) Deq d by (auto split: prod.splits)
    have i: "ps_inv Priority ps1" using ps_inv_Dequeue [OF Cons.prems(1), of can] d by simp
    have r: "r \<noteq> Some e"
      using Dequeue_known_class [OF Cons.prems(1), of can e ps1] d Cons.prems(5) by auto
    have "e \<in># bag ps1"
      using Cons.prems(4) d r bag_Dequeue_None [of can ps ps1] bag_Dequeue_Some [OF Cons.prems(1), of can _ ps1]
      by (cases r) auto
    with Cons.IH [OF i _ run] Cons.prems out r show ?thesis by (cases r) auto
  next
    case (Rem ord x)
    with Cons.prems(2) show ?thesis by auto
  qed
qed

theorem unknown_class_never_served_witness:
  "0 < Size (snd (snd (wq_run (Enqueue id) Dequeue (\<lambda>ord. Remove ord id) [Deq None]
     (Enqueue id ''Urgent'' NewPriorityScheduler))))"
proof -
  let ?ps = "Enqueue id ''Urgent'' NewPriorityScheduler"
  let ?ops = "[Deq None] :: (string, string list) wq_op list"
  obtain out n ps' where run: "wq_run (Enqueue id) Dequeue (\<lambda>ord. Remove ord id) ?ops ?ps = (out, n, ps')"
    using prod_cases3 by blast
  have "''Urgent'' \<in># bag ?ps" by (simp add: bag_Enqueue [OF ps_inv_new])
  with unknown_class_never_served [OF ps_inv_Enqueue [OF ps_inv_new] _ run, of "''Urgent''"] run
  show ?thesis by (simp add: class_of_def priorityOrder_def priority_class_defs)
qed

end
