(* ===== verification/Platform_Error.thy ===== *)
theory Platform_Error
  imports Go_Base
begin

text \<open>
  \<open>core/errors/error.go\<close>: the structured error of the runtime.  A Go \<open>error\<close> value is either
  a \<open>PlatformError\<close> or some other error, of which the code only ever reads the text
  (\<open>fmt.Errorf\<close>, \<open>errors.New\<close>, the errors of the package \<open>context\<close>); the nil error is \<open>None\<close>.
\<close>

type_synonym error_category = string

definition ErrCategoryConfig :: error_category where "ErrCategoryConfig = ''config''"
definition ErrCategoryProvider :: error_category where "ErrCategoryProvider = ''provider''"
definition ErrCategoryTimeout :: error_category where "ErrCategoryTimeout = ''timeout''"
definition ErrCategoryCancelled :: error_category where "ErrCategoryCancelled = ''cancelled''"
definition ErrCategoryValidation :: error_category where "ErrCategoryValidation = ''validation''"
definition ErrCategoryInternal :: error_category where "ErrCategoryInternal = ''internal''"
definition ErrCategorySaturation :: error_category where "ErrCategorySaturation = ''saturation''"
definition ErrCategoryAuth :: error_category where "ErrCategoryAuth = ''auth''"

lemmas error_category_defs = ErrCategoryConfig_def ErrCategoryProvider_def ErrCategoryTimeout_def
  ErrCategoryCancelled_def ErrCategoryValidation_def ErrCategoryInternal_def
  ErrCategorySaturation_def ErrCategoryAuth_def

datatype go_error =
    PlatformError (Category: error_category) (Message: string) (Retryable: bool) (Cause: "go_error option")
  | GoError string

fun Error :: "go_error \<Rightarrow> string" where
  "Error (PlatformError category message retryable (Some cause)) =
     ''['' @ category @ ''] '' @ message @ '': '' @ Error cause"
| "Error (PlatformError category message retryable None) = ''['' @ category @ ''] '' @ message"
| "Error (GoError s) = s"

definition NewError :: "error_category \<Rightarrow> string \<Rightarrow> bool \<Rightarrow> go_error option \<Rightarrow> go_error" where
  "NewError category message retryable cause = PlatformError category message retryable cause"

record execution_error =
  ee_Category :: string
  ee_Message :: string
  ee_Retryable :: bool

definition ToExecutionError :: "go_error option \<Rightarrow> execution_error option" where
  "ToExecutionError err =
     (case err of
        None \<Rightarrow> None
      | Some (PlatformError category message retryable cause) \<Rightarrow>
          Some \<lparr>ee_Category = category, ee_Message = message, ee_Retryable = retryable\<rparr>
      | Some (GoError s) \<Rightarrow>
          Some \<lparr>ee_Category = ErrCategoryInternal, ee_Message = Error (GoError s), ee_Retryable = False\<rparr>)"

lemma ToExecutionError_None_iff [simp]: "ToExecutionError err = None \<longleftrightarrow> err = None"
  by (auto simp: ToExecutionError_def split: option.splits go_error.splits)

lemma NewError_sel [simp]:
  "Category (NewError c m r e) = c" "Message (NewError c m r e) = m"
  "Retryable (NewError c m r e) = r" "Cause (NewError c m r e) = e"
  by (simp_all add: NewError_def)

end
