(* ===== verification/Retry.thy ===== *)
theory Retry
  imports Platform_Error
begin

text \<open>
  \<open>core/execution/retry.go\<close>: the delay before a retry.  Durations are 64-bit nanosecond counts,
  so both products wrap (\<open>wrap64\<close>); the draw of the random generator under its mutex is the
  argument \<open>Intn\<close>.
\<close>

type_synonym backoff_strategy = string

definition BackoffConstant :: backoff_strategy where "BackoffConstant = ''constant''"
definition BackoffLinear :: backoff_strategy where "BackoffLinear = ''linear''"
definition BackoffExponential :: backoff_strategy where "BackoffExponential = ''exponential''"

record retry_policy =
  MaxAttempts :: int
  BackoffStrategy :: backoff_strategy
  BaseDelay :: duration
  MaxDelay :: duration
  Jitter :: bool
  RetryableCheck :: "(go_error \<Rightarrow> bool) option"

text \<open>\<open>for i := 1; i < attempt; i++\<close>, left early once the multiplier passes a million.\<close>

function backoff_multiplier :: "int \<Rightarrow> int \<Rightarrow> int \<Rightarrow> int" where
  "backoff_multiplier i attempt multiplier =
     (if i < attempt
      then (let multiplier' = wrap64 (multiplier * 2)
            in if multiplier' > 1000000 then 1000000
               else backoff_multiplier (i + 1) attempt multiplier')
      else multiplier)"
  by pat_completeness auto
termination
  by (relation "measure (\<lambda>(i, attempt, multiplier). nat (attempt - i))") auto

declare backoff_multiplier.simps [simp del]

definition CalculateBackoff :: "(int \<Rightarrow> int) \<Rightarrow> retry_policy option \<Rightarrow> int \<Rightarrow> duration" where
  "CalculateBackoff Intn policy attempt =
     (case policy of
        None \<Rightarrow> 0
      | Some policy \<Rightarrow>
          let attempt = (if attempt \<le> 0 then 1 else attempt);
              delay = (if BackoffStrategy policy = BackoffConstant then BaseDelay policy
                       else if BackoffStrategy policy = BackoffLinear
                         then wrap64 (BaseDelay policy * attempt)
                       else if BackoffStrategy policy = BackoffExponential
                         then wrap64 (BaseDelay policy * backoff_multiplier 1 attempt 1)
                       else BaseDelay policy);
              delay = (if MaxDelay policy > 0 \<and> delay > MaxDelay policy then MaxDelay policy else delay)
          in if Jitter policy \<and> delay > 0 then Intn delay else delay)"

section \<open>The multiplier in closed form\<close>

lemma backoff_multiplier_power:
  assumes "0 \<le> k" and "k \<le> 19"
  shows "backoff_multiplier i (i + int n) (2 ^ nat k) = (if k + int n \<le> 19 then 2 ^ nat (k + int n) else 1000000)"
  using assms
proof (induction n arbitrary: i k)
  case 0
  then show ?case by (subst backoff_multiplier.simps) simp
next
  case (Suc n)
  have "(2::int) ^ nat k \<le> 2 ^ 19" using Suc.prems by (intro power_increasing) auto
  then have w: "wrap64 (2 ^ nat k * 2) = 2 ^ nat (k + 1)"
    using Suc.prems
    by (subst wrap64_id) (auto simp: int64_def max_int64_def min_int64_def nat_add_distrib intro: order_trans [of _ 0])
  show ?case
  proof (cases "k = 19")
    case True
    then show ?thesis using w by (subst backoff_multiplier.simps) (simp add: Let_def)
  next
    case False
    with Suc.prems have k: "0 \<le> k + 1" "k + 1 \<le> 19" by auto
    have "(2::int) ^ nat (k + 1) \<le> 2 ^ 19" using k by (intro power_increasing) auto
    then have "\<not> (2::int) ^ nat (k + 1) > 1000000" by simp
    with w Suc.IH [OF k, of "i + 1"] show ?thesis
      by (subst backoff_multiplier.simps) (simp add: Let_def algebra_simps)
  qed
qed

definition multiplier_spec :: "int \<Rightarrow> int" where
  "multiplier_spec attempt = (if attempt \<le> 20 then 2 ^ nat (attempt - 1) else 1000000)"

lemma backoff_multiplier_closed:
  "1 \<le> attempt \<Longrightarrow> backoff_multiplier 1 attempt 1 = multiplier_spec attempt"
  using backoff_multiplier_power [of 0 1 "nat (attempt - 1)"] by (simp add: multiplier_spec_def)

lemma multiplier_spec_bounds:
  assumes "1 \<le> attempt"
  shows "1 \<le> multiplier_spec attempt" "multiplier_spec attempt \<le> 1000000"
proof -
  have "attempt \<le> 20 \<Longrightarrow> (2::int) ^ nat (attempt - 1) \<le> 2 ^ 19" by (intro power_increasing) auto
  then show "1 \<le> multiplier_spec attempt" "multiplier_spec attempt \<le> 1000000"
    by (auto simp: multiplier_spec_def)
qed

lemma multiplier_spec_mono:
  assumes "1 \<le> a" and "a \<le> b"
  shows "multiplier_spec a \<le> multiplier_spec b"
proof (cases "b \<le> 20")
  case True
  with assms show ?thesis by (auto simp: multiplier_spec_def intro!: power_increasing)
next
  case False
  with multiplier_spec_bounds(2) [OF assms(1)] show ?thesis by (simp add: multiplier_spec_def)
qed

section \<open>What the delay is\<close>

text \<open>The factor of the base delay, and the delay before jitter where the product fits.\<close>

definition backoff_factor :: "retry_policy \<Rightarrow> int \<Rightarrow> int" where
  "backoff_factor policy attempt =
     (if BackoffStrategy policy = BackoffLinear then max 1 attempt
      else if BackoffStrategy policy = BackoffExponential then multiplier_spec (max 1 attempt)
      else 1)"

definition capped_delay :: "retry_policy \<Rightarrow> int \<Rightarrow> duration" where
  "capped_delay policy attempt =
     (let d = BaseDelay policy * backoff_factor policy attempt
      in if MaxDelay policy > 0 then min (MaxDelay policy) d else d)"

lemma strategies_distinct [simp]:
  "BackoffConstant \<noteq> BackoffLinear" "BackoffConstant \<noteq> BackoffExponential" "BackoffLinear \<noteq> BackoffExponential"
  "BackoffLinear \<noteq> BackoffConstant" "BackoffExponential \<noteq> BackoffConstant" "BackoffExponential \<noteq> BackoffLinear"
  by (simp_all add: BackoffConstant_def BackoffLinear_def BackoffExponential_def)

lemma CalculateBackoff_eq:
  assumes "int64 (BaseDelay policy * backoff_factor policy attempt)"
  shows "CalculateBackoff Intn (Some policy) attempt =
    (if Jitter policy \<and> 0 < capped_delay policy attempt then Intn (capped_delay policy attempt)
     else capped_delay policy attempt)"
proof -
  define a where "a = (if attempt \<le> 0 then 1 else attempt)"
  have a: "1 \<le> a" "max 1 attempt = a" by (auto simp: a_def)
  have raw: "(if BackoffStrategy policy = BackoffConstant then BaseDelay policy
       else if BackoffStrategy policy = BackoffLinear then wrap64 (BaseDelay policy * a)
       else if BackoffStrategy policy = BackoffExponential then wrap64 (BaseDelay policy * backoff_multiplier 1 a 1)
       else BaseDelay policy) = BaseDelay policy * backoff_factor policy attempt"
    using assms a by (auto simp: backoff_factor_def wrap64_id backoff_multiplier_closed)
  show ?thesis
    unfolding CalculateBackoff_def capped_delay_def Let_def
    by (simp only: option.case a_def [symmetric] raw min_def) (auto simp: min_def)
qed

text \<open>
  C32: where the product of base delay and factor fits in 64 bits, the delay is that product
  (attempts below 1 count as 1; the exponential factor is the power of two, held at a million
  from the 21st attempt on), capped by \<open>MaxDelay\<close> when that is positive, or a draw from
  \<open>[0, delay)\<close> under jitter.
\<close>

theorem CalculateBackoff_spec:
  assumes "int64 (BaseDelay policy * backoff_factor policy attempt)"
    and "\<And>n. 0 < n \<Longrightarrow> 0 \<le> Intn n \<and> Intn n < n"
  shows "if Jitter policy \<and> 0 < capped_delay policy attempt
    then 0 \<le> CalculateBackoff Intn (Some policy) attempt
       \<and> CalculateBackoff Intn (Some policy) attempt < capped_delay policy attempt
    else CalculateBackoff Intn (Some policy) attempt = capped_delay policy attempt"
  using assms(2) by (simp add: CalculateBackoff_eq [OF assms(1)])

definition default_retry_policy :: retry_policy where
  "default_retry_policy = \<lparr>MaxAttempts = 3, BackoffStrategy = BackoffExponential,
     BaseDelay = 200 * Millisecond, MaxDelay = 30 * Second, Jitter = True, RetryableCheck = None\<rparr>"

theorem CalculateBackoff_spec_witness:
  "CalculateBackoff (\<lambda>n. n - 1) (Some (default_retry_policy\<lparr>Jitter := False\<rparr>)) 30 = 30 * Second"
  using CalculateBackoff_spec [of "default_retry_policy\<lparr>Jitter := False\<rparr>" 30 "\<lambda>n. n - 1"]
  by (simp add: default_retry_policy_def backoff_factor_def capped_delay_def multiplier_spec_def
      Millisecond_def Second_def int64_def max_int64_def min_int64_def)

text \<open>
  The cap is unconditional: with a positive \<open>MaxDelay\<close> the result never exceeds it,
  whatever overflows.  The converse bound is not: a product that does not fit wraps to a negative
  delay, which passes the cap and skips the jitter.
\<close>

theorem CalculateBackoff_le_MaxDelay:
  assumes "0 < MaxDelay policy" and "\<And>n. 0 < n \<Longrightarrow> 0 \<le> Intn n \<and> Intn n < n"
  shows "CalculateBackoff Intn (Some policy) attempt \<le> MaxDelay policy"
proof -
  have *: "(if Jitter policy \<and> d > 0 then Intn d else d) \<le> MaxDelay policy" if "d \<le> MaxDelay policy" for d
    using assms(2) [of d] that by (auto intro: order_trans)
  show ?thesis
    unfolding CalculateBackoff_def Let_def option.case
    by (rule *) (use assms(1) in auto)
qed

theorem CalculateBackoff_le_MaxDelay_witness:
  "CalculateBackoff (\<lambda>n. n - 1) (Some default_retry_policy) 7 \<le> 30 * Second"
  using CalculateBackoff_le_MaxDelay [of default_retry_policy "\<lambda>n. n - 1" 7]
  by (simp add: default_retry_policy_def Second_def)

text \<open>
  The exponential back-off of a three-hour base delay wraps: from the 21st attempt on the
  delay is negative, below its 30-second cap, so the wait ends at once.
\<close>

theorem CalculateBackoff_overflow:
  "21 \<le> attempt \<Longrightarrow>
   CalculateBackoff Intn (Some (default_retry_policy\<lparr>BaseDelay := 10800 * Second\<rparr>)) attempt < 0"
  by (simp add: CalculateBackoff_def default_retry_policy_def backoff_multiplier_closed
      multiplier_spec_def Second_def wrap64_def)

theorem CalculateBackoff_overflow_witness:
  "CalculateBackoff id (Some (default_retry_policy\<lparr>BaseDelay := 10800 * Second\<rparr>)) 21 < 0"
  by (rule CalculateBackoff_overflow) simp

end
