(* ===== verification/Registry.thy ===== *)
theory Registry
  imports Platform_Error
begin

text \<open>
  \<open>core/execution/registry.go\<close>, and the contract it shares with the namespaces of the event
  bus: a table whose entries are written once.
\<close>

section \<open>Write-once tables\<close>

text \<open>Registering a list in order stops at the first error, as the boot sequence does.\<close>

fun register_all :: "('v \<Rightarrow> 'm \<Rightarrow> 'err + 'm) \<Rightarrow> 'v list \<Rightarrow> 'm \<Rightarrow> 'err + 'm" where
  "register_all reg [] m = Inr m"
| "register_all reg (v # vs) m =
     (case reg v m of Inl e \<Rightarrow> Inl e | Inr m' \<Rightarrow> register_all reg vs m')"

locale once_table =
  fixes reg :: "'v \<Rightarrow> 'm \<Rightarrow> 'err + 'm"
    and find_in :: "'m \<Rightarrow> 'k \<rightharpoonup> 'w"
    and key :: "'v \<Rightarrow> 'k"
    and stored :: "'v \<Rightarrow> 'w"
    and valid :: "'v \<Rightarrow> bool"
  assumes reg_fresh: "valid v \<Longrightarrow> find_in m (key v) = None \<Longrightarrow>
      \<exists>m'. reg v m = Inr m' \<and> find_in m' = (find_in m)(key v \<mapsto> stored v)"
    and reg_taken: "find_in m (key v) \<noteq> None \<Longrightarrow> \<exists>e. reg v m = Inl e"
    and reg_invalid: "\<not> valid v \<Longrightarrow> \<exists>e. reg v m = Inl e"
begin

lemma reg_InrD: "reg v m = Inr m' \<Longrightarrow>
    valid v \<and> find_in m (key v) = None \<and> find_in m' = (find_in m)(key v \<mapsto> stored v)"
  using reg_fresh [of v m] reg_taken [of m v] reg_invalid [of v m] by fastforce

lemma reg_keeps: "reg v m = Inr m' \<Longrightarrow> find_in m k = Some w \<Longrightarrow> find_in m' k = Some w"
  by (drule reg_InrD) auto

lemma register_all_keeps:
  "register_all reg vs m = Inr m' \<Longrightarrow> find_in m k = Some w \<Longrightarrow> find_in m' k = Some w"
  by (induction vs arbitrary: m) (auto split: sum.splits dest: reg_keeps)

lemma register_all_Inr_iff:
  "(\<exists>m'. register_all reg vs m = Inr m') \<longleftrightarrow>
     (\<forall>v\<in>set vs. valid v \<and> find_in m (key v) = None) \<and> distinct (map key vs)"
proof (induction vs arbitrary: m)
  case Nil
  show ?case by simp
next
  case (Cons v vs)
  show ?case
  proof (cases "reg v m")
    case (Inl e)
    then have "\<not> (valid v \<and> find_in m (key v) = None)" using reg_fresh [of v m] by auto
    with Inl show ?thesis by auto
  next
    case (Inr m1)
    from reg_InrD [OF this] have m1: "valid v" "find_in m (key v) = None"
      "find_in m1 = (find_in m)(key v \<mapsto> stored v)" by auto
    have "(\<forall>u\<in>set vs. valid u \<and> find_in m1 (key u) = None) \<longleftrightarrow>
        (\<forall>u\<in>set vs. valid u \<and> find_in m (key u) = None) \<and> key v \<notin> key ` set vs"
      using m1 by (auto simp: image_iff)
    with Cons.IH [of m1] Inr m1 show ?thesis by auto
  qed
qed

lemma register_all_lookup:
  "register_all reg vs m = Inr m' \<Longrightarrow> find_in m' = find_in m ++ map_of (rev (map (\<lambda>v. (key v, stored v)) vs))"
proof (induction vs arbitrary: m)
  case Nil
  then show ?case by simp
next
  case (Cons v vs)
  then obtain m1 where m1: "reg v m = Inr m1" "register_all reg vs m1 = Inr m'"
    by (auto split: sum.splits)
  from Cons.IH [OF m1(2)] reg_InrD [OF m1(1)] show ?case by (simp add: map_add_def fun_eq_iff split: option.split)
qed

end

section \<open>The provider registry\<close>

text \<open>A provider is opaque here; \<open>Name\<close> is its method of that name, \<open>None\<close> the nil interface.\<close>

record 'p registry =
  providers :: "string \<rightharpoonup> 'p"

definition NewRegistry :: "'p registry" where
  "NewRegistry = \<lparr>providers = Map.empty\<rparr>"

definition Register :: "('p \<Rightarrow> string) \<Rightarrow> 'p option \<Rightarrow> 'p registry \<Rightarrow> go_error + 'p registry" where
  "Register Name p r =
     (case p of
        None \<Rightarrow> Inl (NewError ErrCategoryValidation ''cannot register nil provider'' False None)
      | Some p \<Rightarrow>
          (let name = Name p
           in if name = [] then
                Inl (NewError ErrCategoryValidation ''cannot register provider with empty name'' False None)
              else if providers r name \<noteq> None then
                Inl (NewError ErrCategoryValidation (''provider already registered: '' @ name) False None)
              else Inr (r\<lparr>providers := (providers r)(name \<mapsto> p)\<rparr>)))"

text \<open>The empty name resolves to the first provider of the range \<open>ord\<close>.\<close>

definition Resolve :: "string list \<Rightarrow> string \<Rightarrow> 'p registry \<Rightarrow> go_error + 'p" where
  "Resolve ord name r =
     (let lookup = (case providers r name of
            None \<Rightarrow> Inl (NewError ErrCategoryProvider (''provider not found: '' @ name) False None)
          | Some p \<Rightarrow> Inr p)
      in if ord = [] then Inl (NewError ErrCategoryProvider ''no providers registered in system'' False None)
         else if name = [] then
           (case providers r (hd ord) of Some p \<Rightarrow> Inr p | None \<Rightarrow> lookup)
         else lookup)"

definition RegistryList :: "string list \<Rightarrow> 'p registry \<Rightarrow> string list" where
  "RegistryList ord r = fold (\<lambda>name list. list @ [name]) ord []"

lemma RegistryList_eq [simp]: "RegistryList ord r = ord"
proof -
  have "fold (\<lambda>name list. list @ [name]) ord acc = acc @ ord" for acc :: "string list"
    by (induction ord arbitrary: acc) auto
  then show ?thesis by (simp add: RegistryList_def)
qed

interpretation preg: once_table "\<lambda>p. Register Name (Some p)" providers Name "\<lambda>p. p" "\<lambda>p. Name p \<noteq> []"
  for Name :: "'p \<Rightarrow> string"
  by unfold_locales (auto simp: Register_def Let_def)

text \<open>
  Booting a list of providers succeeds exactly when no name is empty and the names are
  pairwise distinct; then \<open>Resolve\<close> finds every one of them under its name, and every other
  non-empty name is refused with a provider error.
\<close>

theorem registry_boot:
  "((\<exists>r. register_all (\<lambda>p. Register Name (Some p)) ps NewRegistry = Inr r) \<longleftrightarrow>
      (\<forall>p\<in>set ps. Name p \<noteq> []) \<and> distinct (map Name ps)) \<and>
   (\<forall>r ord p name. register_all (\<lambda>p. Register Name (Some p)) ps NewRegistry = Inr r \<longrightarrow>
      range_of (providers r) ord \<longrightarrow> name \<noteq> [] \<longrightarrow> ps \<noteq> [] \<longrightarrow>
      (Resolve ord name r = Inr p \<longleftrightarrow> p \<in> set ps \<and> Name p = name))" (is "?iff \<and> ?res")
proof
  show iff: ?iff using preg.register_all_Inr_iff [of Name ps NewRegistry] by (simp add: NewRegistry_def)
  show ?res
  proof (intro allI impI)
    fix r ord p and name :: string
    assume reg: "register_all (\<lambda>p. Register Name (Some p)) ps NewRegistry = Inr r"
      and ord: "range_of (providers r) ord" and name: "name \<noteq> []" and ne: "ps \<noteq> []"
    from reg iff have d: "distinct (map Name ps)" by blast
    have look: "providers r = map_of (rev (map (\<lambda>p. (Name p, p)) ps))"
      using preg.register_all_lookup [OF reg] by (simp add: NewRegistry_def)
    have d': "distinct (map fst (rev (map (\<lambda>p. (Name p, p)) ps)))"
      using d by (simp add: rev_map [symmetric] comp_def)
    have dom: "dom (providers r) = Name ` set ps"
      by (simp add: look dom_map_of_conv_image_fst image_image)
    have "ord \<noteq> []" using ord ne dom by (auto simp: range_of_def)
    then have "Resolve ord name r = Inr p \<longleftrightarrow> providers r name = Some p"
      using name by (auto simp: Resolve_def Let_def split: option.splits)
    also have "\<dots> \<longleftrightarrow> p \<in> set ps \<and> Name p = name"
      using map_of_eq_Some_iff [OF d', of name p] by (auto simp: look)
    finally show "Resolve ord name r = Inr p \<longleftrightarrow> p \<in> set ps \<and> Name p = name" .
  qed
qed

theorem registry_boot_witness:
  "\<exists>r. register_all (\<lambda>p. Register id (Some p)) [''openai-primary'', ''anthropic-primary''] NewRegistry = Inr r \<and>
     Resolve [''openai-primary'', ''anthropic-primary''] ''openai-primary'' r = Inr ''openai-primary''"
proof -
  let ?ps = "[''openai-primary'', ''anthropic-primary'']"
  obtain r where r: "register_all (\<lambda>p. Register id (Some p)) ?ps NewRegistry = Inr r"
    using registry_boot [of id ?ps] by auto
  then have "range_of (providers r) ?ps"
    by (auto simp: Register_def NewRegistry_def Let_def range_of_def split: if_splits)
  with r registry_boot [of id ?ps] have "Resolve ?ps ''openai-primary'' r = Inr ''openai-primary''"
    by simp
  with r show ?thesis by blast
qed

end
