(* ===== verification/Step_Machine.thy ===== *)
theory Step_Machine
  imports Go_Base
begin

text \<open>
  Runs of labelled steps, shared by the components with state: what one step keeps, a run
  keeps.  \<open>step_order\<close> lifts a preorder between states, \<open>step_invariant\<close> an invariant; the second
  is the first at the preorder "if the invariant held before, it holds after".
\<close>

inductive run :: "('s \<Rightarrow> 'op \<Rightarrow> 's \<Rightarrow> bool) \<Rightarrow> 's \<Rightarrow> 'op list \<Rightarrow> 's \<Rightarrow> bool" for step where
  run_nil: "run step s [] s"
| run_cons: "step s op t \<Longrightarrow> run step t ops u \<Longrightarrow> run step s (op # ops) u"

inductive_simps run_Nil_iff [simp]: "run step s [] t"
inductive_simps run_Cons_iff [simp]: "run step s (op # ops) t"

lemma run_append: "run step s (xs @ ys) u \<longleftrightarrow> (\<exists>t. run step s xs t \<and> run step t ys u)"
  by (induction xs arbitrary: s) auto

lemma run_snocI: "run step s ops t \<Longrightarrow> step t op u \<Longrightarrow> run step s (ops @ [op]) u"
  by (induction rule: run.induct) (auto intro: run.intros)

lemma run_restrict:
  "run step s ops t \<Longrightarrow> (\<And>op. op \<in> set ops \<Longrightarrow> P op) \<Longrightarrow> run (\<lambda>s op t. P op \<and> step s op t) s ops t"
  by (induction rule: run.induct) auto

definition reaches :: "('s \<Rightarrow> 'op \<Rightarrow> 's \<Rightarrow> bool) \<Rightarrow> 's \<Rightarrow> 's \<Rightarrow> bool" where
  "reaches step s t \<longleftrightarrow> (\<exists>ops. run step s ops t)"

lemma reaches_refl [simp]: "reaches step s s"
  unfolding reaches_def by (rule exI [of _ "[]"]) simp

lemma reaches_step: "reaches step s t \<Longrightarrow> step t op u \<Longrightarrow> reaches step s u"
  unfolding reaches_def using run_append [of step s _ "[op]" u] by fastforce

locale step_order =
  fixes step :: "'s \<Rightarrow> 'op \<Rightarrow> 's \<Rightarrow> bool" and R :: "'s \<Rightarrow> 's \<Rightarrow> bool"
  assumes R_refl: "R s s"
    and R_trans: "R s t \<Longrightarrow> R t u \<Longrightarrow> R s u"
    and step_R: "step s op t \<Longrightarrow> R s t"
begin

lemma run_R: "run step s ops t \<Longrightarrow> R s t"
  by (induction rule: run.induct) (auto intro: R_refl R_trans step_R)

lemma reaches_R: "reaches step s t \<Longrightarrow> R s t"
  by (auto simp: reaches_def intro: run_R)

end

locale step_invariant =
  fixes step :: "'s \<Rightarrow> 'op \<Rightarrow> 's \<Rightarrow> bool" and inv :: "'s \<Rightarrow> bool"
  assumes step_inv: "inv s \<Longrightarrow> step s op t \<Longrightarrow> inv t"

sublocale step_invariant \<subseteq> kept: step_order step "\<lambda>s t. inv s \<longrightarrow> inv t"
  by unfold_locales (auto intro: step_inv)

context step_invariant
begin

lemma run_inv: "run step s ops t \<Longrightarrow> inv s \<Longrightarrow> inv t"
  using kept.run_R by blast

lemma reaches_inv: "reaches step s t \<Longrightarrow> inv s \<Longrightarrow> inv t"
  using kept.reaches_R by blast

end

end
