(* ===== verification/Lifecycle.thy ===== *)
theory Lifecycle
  imports Platform_Error Step_Machine
begin

text \<open>
  \<open>core/lifecycle/manager.go\<close>: the state machine of the runtime and the health of its
  components.  Every method runs under the manager's lock and is one atomic function; the clock
  reading \<open>now\<close> and, where a map is ranged over, the order \<open>ord\<close> of the range are arguments.
\<close>

section \<open>Data\<close>

datatype lc_state =
    StateUninitialized | StateBooting | StateReady | StateRunning | StateDegraded
  | StateDraining | StateStopped | StateFailed

primrec state_name :: "lc_state \<Rightarrow> string" where
  "state_name StateUninitialized = ''UNINITIALIZED''"
| "state_name StateBooting = ''BOOTING''"
| "state_name StateReady = ''READY''"
| "state_name StateRunning = ''RUNNING''"
| "state_name StateDegraded = ''DEGRADED''"
| "state_name StateDraining = ''DRAINING''"
| "state_name StateStopped = ''STOPPED''"
| "state_name StateFailed = ''FAILED''"

datatype health_state = HealthHealthy | HealthDegraded | HealthUnhealthy | HealthDraining

record component_health =
  ch_State :: health_state
  ch_Details :: string
  ch_Fatal :: bool
  ch_LastError :: string
  ch_CheckedAt :: "instant option"

record health_status =
  hs_Overall :: health_state
  hs_State :: lc_state
  hs_Components :: "string \<rightharpoonup> component_health"
  hs_Since :: instant
  hs_Reason :: string

definition IsLive :: "health_status \<Rightarrow> bool" where
  "IsLive h \<longleftrightarrow> hs_State h \<noteq> StateUninitialized \<and> hs_State h \<noteq> StateStopped \<and> hs_State h \<noteq> StateFailed"

definition StatusIsReady :: "health_status \<Rightarrow> bool" where
  "StatusIsReady h \<longleftrightarrow> hs_State h = StateReady \<or> hs_State h = StateRunning"

definition IsReadyOrDegraded :: "health_status \<Rightarrow> bool" where
  "IsReadyOrDegraded h \<longleftrightarrow>
     hs_State h = StateReady \<or> hs_State h = StateRunning \<or> hs_State h = StateDegraded"

text \<open>The zero time of \<open>lastRestart\<close> is \<open>None\<close>.\<close>

record lifecycle_manager =
  stateVal :: lc_state
  since :: instant
  reason :: string
  components :: "string \<rightharpoonup> component_health"
  lastRestart :: "instant option"
  cooldownMS :: int
  degradedReady :: bool

section \<open>Operations\<close>

definition NewLifecycleManager :: "instant \<Rightarrow> lifecycle_manager" where
  "NewLifecycleManager now =
     \<lparr>stateVal = StateUninitialized, since = now, reason = [], components = Map.empty,
      lastRestart = None, cooldownMS = 1000, degradedReady = True\<rparr>"

definition Configure :: "int \<Rightarrow> bool \<Rightarrow> lifecycle_manager \<Rightarrow> lifecycle_manager" where
  "Configure cooldown acceptWhenDegraded lm =
     lm\<lparr>cooldownMS := cooldown, degradedReady := acceptWhenDegraded\<rparr>"

definition GetState :: "lifecycle_manager \<Rightarrow> lc_state" where
  "GetState lm = stateVal lm"

definition IsReady :: "lifecycle_manager \<Rightarrow> bool" where
  "IsReady lm =
     (if stateVal lm = StateReady \<or> stateVal lm = StateRunning then True
      else if stateVal lm = StateDegraded then degradedReady lm
      else False)"

definition valid_transition :: "lc_state \<Rightarrow> lc_state \<Rightarrow> bool" where
  "valid_transition from to =
     (case from of
        StateUninitialized \<Rightarrow> to = StateBooting
      | StateBooting \<Rightarrow> to = StateReady \<or> to = StateFailed
      | StateReady \<Rightarrow> to = StateRunning \<or> to = StateDraining \<or> to = StateFailed
      | StateRunning \<Rightarrow> to = StateDegraded \<or> to = StateFailed \<or> to = StateDraining
      | StateDegraded \<Rightarrow> to = StateRunning \<or> to = StateFailed \<or> to = StateDraining
      | StateDraining \<Rightarrow> to = StateStopped
      | StateFailed \<Rightarrow> to = StateBooting
      | StateStopped \<Rightarrow> False)"

definition Transition :: "instant \<Rightarrow> lc_state \<Rightarrow> lifecycle_manager \<Rightarrow> go_error + lifecycle_manager" where
  "Transition now to lm =
     (let from = stateVal lm
      in if from = to then Inr lm
         else if \<not> valid_transition from to then
           Inl (NewError ErrCategoryInternal
                  (''invalid lifecycle state transition from '' @ state_name from @ '' to '' @ state_name to)
                  False None)
         else (let lm = lm\<lparr>stateVal := to, since := now\<rparr>
               in Inr (if to = StateBooting then lm\<lparr>components := Map.empty, reason := []\<rparr> else lm)))"

definition CheckRestartCooldown :: "instant \<Rightarrow> lifecycle_manager \<Rightarrow> go_error + lifecycle_manager" where
  "CheckRestartCooldown now lm =
     (let reject = Inl (NewError ErrCategoryInternal
            (''restart rejected: cooldown active (minimum '' @ show_int (cooldownMS lm) @ ''ms between restarts)'')
            False None);
          accept = Inr (lm\<lparr>lastRestart := Some now\<rparr>)
      in case lastRestart lm of
           None \<Rightarrow> accept
         | Some prev \<Rightarrow>
             if time_sub now prev < wrap64 (cooldownMS lm * Millisecond) then reject else accept)"

definition handleComponentFailure ::
  "instant \<Rightarrow> lc_state \<Rightarrow> string \<Rightarrow> bool \<Rightarrow> string \<Rightarrow> lifecycle_manager \<Rightarrow> lifecycle_manager" where
  "handleComponentFailure now state component fatal lastErrStr lm =
     (if fatal then
        (if state = StateRunning \<or> state = StateDegraded \<or> state = StateReady \<or> state = StateBooting
         then lm\<lparr>stateVal := StateFailed, since := now,
                 reason := ''fatal component '' @ component @ '' failed: '' @ lastErrStr\<rparr>
         else lm)
      else
        (if state = StateRunning \<or> state = StateReady
         then lm\<lparr>stateVal := StateDegraded, since := now,
                 reason := ''non-fatal component '' @ component @ '' failed: '' @ lastErrStr\<rparr>
         else lm))"

text \<open>The lines \<open>name: error\<close> of the components that are still unhealthy, in range order.\<close>

fun remainingErrors :: "string list \<Rightarrow> (string \<rightharpoonup> component_health) \<Rightarrow> string list" where
  "remainingErrors [] cs = []"
| "remainingErrors (name # ord) cs =
     (case cs name of
        Some ch \<Rightarrow>
          if ch_State ch = HealthUnhealthy
          then (name @ '': '' @ ch_LastError ch) # remainingErrors ord cs
          else remainingErrors ord cs
      | None \<Rightarrow> remainingErrors ord cs)"

definition handleComponentRecovery :: "instant \<Rightarrow> string list \<Rightarrow> lc_state \<Rightarrow> lifecycle_manager \<Rightarrow> lifecycle_manager" where
  "handleComponentRecovery now ord state lm =
     (if state \<noteq> StateDegraded then lm
      else (let errs = remainingErrors ord (components lm)
            in if errs = [] then lm\<lparr>stateVal := StateRunning, since := now, reason := []\<rparr>
               else lm\<lparr>reason := ''degraded due to failed components: ['' @ join_with '' '' errs @ '']''\<rparr>))"

definition ReportComponentHealth ::
  "instant \<Rightarrow> string list \<Rightarrow> string \<Rightarrow> bool \<Rightarrow> bool \<Rightarrow> go_error option \<Rightarrow> lifecycle_manager \<Rightarrow> lifecycle_manager" where
  "ReportComponentHealth now ord component healthy fatal err lm =
     (let state = stateVal lm
      in if state = StateDraining \<or> state = StateStopped then lm
         else (let hState = (if healthy then HealthHealthy else HealthUnhealthy);
                   lastErrStr = (if healthy then [] else (case err of Some e \<Rightarrow> Error e | None \<Rightarrow> ''unknown error''));
                   lm = lm\<lparr>components := (components lm)(component \<mapsto>
                          \<lparr>ch_State = hState, ch_Details = lastErrStr, ch_Fatal = fatal,
                           ch_LastError = lastErrStr, ch_CheckedAt = Some now\<rparr>)\<rparr>
               in if \<not> healthy then handleComponentFailure now state component fatal lastErrStr lm
                  else handleComponentRecovery now ord state lm))"

definition overall_health :: "lc_state \<Rightarrow> health_state" where
  "overall_health state =
     (case state of
        StateUninitialized \<Rightarrow> HealthUnhealthy | StateBooting \<Rightarrow> HealthUnhealthy
      | StateStopped \<Rightarrow> HealthUnhealthy | StateFailed \<Rightarrow> HealthUnhealthy
      | StateReady \<Rightarrow> HealthHealthy | StateRunning \<Rightarrow> HealthHealthy
      | StateDegraded \<Rightarrow> HealthDegraded
      | StateDraining \<Rightarrow> HealthDraining)"

definition HealthStatus :: "lifecycle_manager \<Rightarrow> health_status" where
  "HealthStatus lm =
     (let state = stateVal lm; overall = overall_health state
      in \<lparr>hs_Overall = overall, hs_State = state,
          hs_Components = (components lm)(''lifecycle'' \<mapsto>
            \<lparr>ch_State = overall, ch_Details = state_name state, ch_Fatal = True,
             ch_LastError = [], ch_CheckedAt = Some (since lm)\<rparr>),
          hs_Since = since lm, hs_Reason = reason lm\<rparr>)"

section \<open>Steps\<close>

text \<open>
  One call of a state-changing method, at any clock reading and, for a report, with any order of
  the range; a refused transition or restart leaves the manager as it was.
\<close>

datatype lc_op =
    OpConfigure int bool
  | OpTransition instant lc_state
  | OpRestart instant
  | OpReport instant "string list" string bool bool "go_error option"

text \<open>The range of a report is over the map that the report has just written to.\<close>

inductive lc_step :: "lifecycle_manager \<Rightarrow> lc_op \<Rightarrow> lifecycle_manager \<Rightarrow> bool" where
  configure: "lc_step lm (OpConfigure ms b) (Configure ms b lm)"
| transition: "Transition now to lm = Inr lm' \<Longrightarrow> lc_step lm (OpTransition now to) lm'"
| refused: "Transition now to lm = Inl e \<Longrightarrow> lc_step lm (OpTransition now to) lm"
| restart: "CheckRestartCooldown now lm = Inr lm' \<Longrightarrow> lc_step lm (OpRestart now) lm'"
| too_soon: "CheckRestartCooldown now lm = Inl e \<Longrightarrow> lc_step lm (OpRestart now) lm"
| report: "distinct ord \<Longrightarrow> set ord = insert c (dom (components lm)) \<Longrightarrow>
     lc_step lm (OpReport now ord c healthy fatal err) (ReportComponentHealth now ord c healthy fatal err lm)"

inductive_cases lc_transitionE: "lc_step lm (OpTransition now to) lm'"
inductive_cases lc_reportE: "lc_step lm (OpReport now ord c healthy fatal err) lm'"
inductive_cases lc_restartE: "lc_step lm (OpRestart now) lm'"

section \<open>What one step does to the state\<close>

lemma Transition_Inr:
  "Transition now to lm = Inr lm' \<Longrightarrow>
     stateVal lm' = to \<and> (stateVal lm = to \<and> lm' = lm \<or> valid_transition (stateVal lm) to)"
  by (auto simp: Transition_def Let_def split: if_splits)

lemma Transition_lastRestart: "Transition now to lm = Inr lm' \<Longrightarrow> lastRestart lm' = lastRestart lm"
  by (auto simp: Transition_def Let_def split: if_splits)

lemma Restart_Inr:
  "CheckRestartCooldown now lm = Inr lm' \<Longrightarrow> lm' = lm\<lparr>lastRestart := Some now\<rparr>"
  by (auto simp: CheckRestartCooldown_def Let_def split: option.splits if_splits)

lemma stateVal_Configure [simp]: "stateVal (Configure ms b lm) = stateVal lm"
  by (simp add: Configure_def)

lemma remainingErrors_Nil_iff:
  "remainingErrors ord cs = [] \<longleftrightarrow>
     (\<forall>name\<in>set ord. \<forall>ch. cs name = Some ch \<longrightarrow> ch_State ch \<noteq> HealthUnhealthy)"
  by (induction ord) (auto split: option.splits)

definition all_healthy :: "(string \<rightharpoonup> component_health) \<Rightarrow> bool" where
  "all_healthy cs \<longleftrightarrow> (\<forall>name ch. cs name = Some ch \<longrightarrow> ch_State ch \<noteq> HealthUnhealthy)"

lemma remainingErrors_all:
  "dom cs \<subseteq> set ord \<Longrightarrow> remainingErrors ord cs = [] \<longleftrightarrow> all_healthy cs"
  by (auto simp: remainingErrors_Nil_iff all_healthy_def dom_def)

text \<open>The state after a report, and its component map.\<close>

definition reported_state :: "lc_state \<Rightarrow> bool \<Rightarrow> bool \<Rightarrow> bool \<Rightarrow> lc_state" where
  "reported_state s healthy fatal others_healthy =
     (if \<not> healthy \<and> fatal \<and> s \<in> {StateRunning, StateDegraded, StateReady, StateBooting} then StateFailed
      else if \<not> healthy \<and> \<not> fatal \<and> s \<in> {StateRunning, StateReady} then StateDegraded
      else if healthy \<and> s = StateDegraded \<and> others_healthy then StateRunning
      else s)"

lemma Report_state:
  assumes "set ord = insert c (dom (components lm))"
  shows "stateVal (ReportComponentHealth now ord c healthy fatal err lm) =
    reported_state (stateVal lm) healthy fatal (all_healthy ((components lm)(c := None)))"
proof -
  have "remainingErrors ord ((components lm)(c \<mapsto> ch)) = [] \<longleftrightarrow> all_healthy ((components lm)(c := None))"
    if "ch_State ch = HealthHealthy" for ch
    using that assms by (subst remainingErrors_all) (auto simp: all_healthy_def)
  then show ?thesis
    by (cases "stateVal lm")
      (auto simp: ReportComponentHealth_def handleComponentFailure_def handleComponentRecovery_def
        reported_state_def Let_def)
qed

lemma Report_components:
  "components (ReportComponentHealth now ord c healthy fatal err lm) =
     (if stateVal lm = StateDraining \<or> stateVal lm = StateStopped then components lm
      else (components lm)(c \<mapsto> \<lparr>ch_State = (if healthy then HealthHealthy else HealthUnhealthy),
              ch_Details = (if healthy then [] else (case err of Some e \<Rightarrow> Error e | None \<Rightarrow> ''unknown error'')),
              ch_Fatal = fatal,
              ch_LastError = (if healthy then [] else (case err of Some e \<Rightarrow> Error e | None \<Rightarrow> ''unknown error'')),
              ch_CheckedAt = Some now\<rparr>))"
  by (auto simp: ReportComponentHealth_def handleComponentFailure_def handleComponentRecovery_def Let_def)

lemma Report_lastRestart [simp]:
  "lastRestart (ReportComponentHealth now ord c healthy fatal err lm) = lastRestart lm"
  by (simp add: ReportComponentHealth_def handleComponentFailure_def handleComponentRecovery_def Let_def)

text \<open>The moves of the state: the table of \<open>Transition\<close>, and what a failure report adds to it.\<close>

definition lc_edge :: "lc_state \<Rightarrow> lc_state \<Rightarrow> bool" where
  "lc_edge s t \<longleftrightarrow> s = t \<or> valid_transition s t \<or> (s = StateReady \<and> t = StateDegraded)"

lemma reported_state_edge: "lc_edge s (reported_state s healthy fatal oh)"
  by (cases s) (auto simp: lc_edge_def reported_state_def valid_transition_def)

lemma lc_step_edge: "lc_step lm op lm' \<Longrightarrow> lc_edge (stateVal lm) (stateVal lm')"
proof (induction rule: lc_step.induct)
  case (transition now to lm lm')
  then show ?case by (auto simp: lc_edge_def dest: Transition_Inr)
next
  case (restart now lm lm')
  then show ?case by (auto simp: lc_edge_def dest: Restart_Inr)
next
  case (report ord c lm now healthy fatal err)
  then show ?case by (simp add: Report_state reported_state_edge)
qed (auto simp: lc_edge_def)

lemma lc_edge_from [simp]:
  "lc_edge StateStopped t \<longleftrightarrow> t = StateStopped"
  "lc_edge StateDraining t \<longleftrightarrow> t = StateDraining \<or> t = StateStopped"
  "lc_edge StateFailed t \<longleftrightarrow> t = StateFailed \<or> t = StateBooting"
  by (auto simp: lc_edge_def valid_transition_def)

section \<open>Invariants of runs\<close>

interpretation stopped: step_invariant lc_step "\<lambda>lm. stateVal lm = StateStopped"
  by unfold_locales (auto dest: lc_step_edge)

interpretation draining: step_invariant lc_step "\<lambda>lm. stateVal lm = StateDraining \<or> stateVal lm = StateStopped"
  by unfold_locales (auto dest: lc_step_edge)

definition boots :: "lc_op \<Rightarrow> bool" where
  "boots op \<longleftrightarrow> (\<exists>now. op = OpTransition now StateBooting)"

lemma failed_step:
  assumes "lc_step lm op lm'" and "stateVal lm = StateFailed" and "\<not> boots op"
  shows "stateVal lm' = StateFailed"
  using assms
proof (cases rule: lc_step.cases)
  case (transition now to)
  with assms show ?thesis
    using Transition_Inr [of now to lm lm'] by (auto simp: valid_transition_def boots_def)
next
  case (report ord c now healthy fatal err)
  with assms show ?thesis by (simp add: Report_state reported_state_def)
qed (auto dest: Restart_Inr)

interpretation failed: step_invariant "\<lambda>lm op lm'. \<not> boots op \<and> lc_step lm op lm'" "\<lambda>lm. stateVal lm = StateFailed"
  by unfold_locales (auto dest: failed_step)

text \<open>
  The code never asks for the transition to \<open>DEGRADED\<close>; without it, a degraded manager always
  records an unhealthy component.
\<close>

definition degrades :: "lc_op \<Rightarrow> bool" where
  "degrades op \<longleftrightarrow> (\<exists>now. op = OpTransition now StateDegraded)"

definition degraded_justified :: "lifecycle_manager \<Rightarrow> bool" where
  "degraded_justified lm \<longleftrightarrow> (stateVal lm = StateDegraded \<longrightarrow> \<not> all_healthy (components lm))"

lemma degraded_step:
  assumes "lc_step lm op lm'" and "degraded_justified lm" and "\<not> degrades op"
  shows "degraded_justified lm'"
  using assms(1)
proof (cases rule: lc_step.cases)
  case (configure ms b)
  with assms(2) show ?thesis by (simp add: degraded_justified_def Configure_def)
next
  case (transition now to)
  with assms(2,3) Transition_Inr [OF transition(2)] show ?thesis
    by (auto simp: degraded_justified_def degrades_def)
next
  case (restart now)
  with assms(2) show ?thesis by (auto simp: degraded_justified_def dest: Restart_Inr)
next
  case (report ord c now healthy fatal err)
  show ?thesis
  proof (cases "healthy")
    case True
    with report assms(2) show ?thesis
      by (auto simp: degraded_justified_def Report_state Report_components reported_state_def all_healthy_def
          split: if_splits)
  next
    case False
    with report show ?thesis
      by (auto simp: degraded_justified_def Report_state Report_components reported_state_def all_healthy_def)
  qed
qed (use assms(2) in simp_all)

interpretation justified: step_invariant "\<lambda>lm op lm'. \<not> degrades op \<and> lc_step lm op lm'" degraded_justified
  by unfold_locales (auto dest: degraded_step)

definition restarts :: "lc_op \<Rightarrow> bool" where
  "restarts op \<longleftrightarrow> (\<exists>now. op = OpRestart now)"

interpretation last_restart: step_invariant "\<lambda>lm op lm'. \<not> restarts op \<and> lc_step lm op lm'"
    "\<lambda>lm. lastRestart lm = last" for last
  by unfold_locales (auto simp: restarts_def Configure_def elim!: lc_step.cases dest: Transition_lastRestart)

section \<open>Properties\<close>

text \<open>
  C28: over any run of calls \<open>STOPPED\<close> is never left, \<open>DRAINING\<close> is left only to \<open>STOPPED\<close>, and a
  failed runtime stays failed unless some call asks for the transition to \<open>BOOTING\<close>; in
  particular no health report, healthy or not, brings it back.
\<close>

theorem lifecycle_absorbing:
  assumes "run lc_step lm ops lm'"
  shows "(stateVal lm = StateStopped \<longrightarrow> stateVal lm' = StateStopped) \<and>
    (stateVal lm = StateDraining \<longrightarrow> stateVal lm' = StateDraining \<or> stateVal lm' = StateStopped) \<and>
    (stateVal lm = StateFailed \<and> (\<forall>now. OpTransition now StateBooting \<notin> set ops) \<longrightarrow> stateVal lm' = StateFailed)"
proof -
  have "run (\<lambda>lm op lm'. \<not> boots op \<and> lc_step lm op lm') lm ops lm'"
    if "\<forall>now. OpTransition now StateBooting \<notin> set ops"
    using assms that by (intro run_restrict) (auto simp: boots_def)
  with stopped.run_inv [OF assms] draining.run_inv [OF assms] failed.run_inv show ?thesis by blast
qed

text \<open>A manager taken through a boot, with a fatal component failing.\<close>

definition failed_example :: lifecycle_manager where
  "failed_example = ReportComponentHealth 2 [''db''] ''db'' False True None
     ((NewLifecycleManager 0)\<lparr>stateVal := StateReady\<rparr>)"

theorem lifecycle_absorbing_witness:
  "stateVal (ReportComponentHealth 3 [''db''] ''db'' True True None failed_example) = StateFailed"
proof -
  have f: "stateVal failed_example = StateFailed" "dom (components failed_example) = {''db''}"
    by (simp_all add: Let_def failed_example_def ReportComponentHealth_def handleComponentFailure_def
        NewLifecycleManager_def)
  have "run lc_step failed_example [OpReport 3 [''db''] ''db'' True True None]
      (ReportComponentHealth 3 [''db''] ''db'' True True None failed_example)"
    by (rule run_cons [OF _ run_nil], rule lc_step.report) (simp_all add: f)
  from lifecycle_absorbing [OF this] f show ?thesis by simp
qed

text \<open>
  C29: what a health report does to the state, for every order of the range over the components:
  a fatal failure fails a live runtime, a non-fatal one degrades a ready or running one, and a
  healthy report brings a degraded runtime back to \<open>RUNNING\<close> exactly when no other component is
  still unhealthy.
\<close>

theorem report_outcome:
  assumes "lc_step lm (OpReport now ord c healthy fatal err) lm'"
  shows "stateVal lm' =
    (if \<not> healthy \<and> fatal \<and> stateVal lm \<in> {StateRunning, StateDegraded, StateReady, StateBooting} then StateFailed
     else if \<not> healthy \<and> \<not> fatal \<and> stateVal lm \<in> {StateRunning, StateReady} then StateDegraded
     else if healthy \<and> stateVal lm = StateDegraded \<and>
       (\<forall>name ch. name \<noteq> c \<longrightarrow> components lm name = Some ch \<longrightarrow> ch_State ch \<noteq> HealthUnhealthy) then StateRunning
     else stateVal lm)"
proof -
  from assms have eq: "lm' = ReportComponentHealth now ord c healthy fatal err lm"
    and ord: "set ord = insert c (dom (components lm))" by (auto elim: lc_reportE)
  have "all_healthy ((components lm)(c := None)) \<longleftrightarrow>
      (\<forall>name ch. name \<noteq> c \<longrightarrow> components lm name = Some ch \<longrightarrow> ch_State ch \<noteq> HealthUnhealthy)"
    by (auto simp: all_healthy_def)
  then show ?thesis by (simp only: eq Report_state [OF ord] reported_state_def)
qed

theorem report_outcome_witness:
  "stateVal (ReportComponentHealth 5 [''db''] ''db'' False True None
     ((NewLifecycleManager 0)\<lparr>stateVal := StateRunning\<rparr>)) = StateFailed"
  using report_outcome [OF lc_step.report [of "[''db'']" "''db''" "(NewLifecycleManager 0)\<lparr>stateVal := StateRunning\<rparr>" 5 False True None]]
  by (simp add: NewLifecycleManager_def)

text \<open>
  A runtime that became degraded through reports, whatever transitions other than the one
  to \<open>DEGRADED\<close> were interleaved, records at least one unhealthy component.
\<close>

theorem degraded_has_unhealthy:
  assumes "run lc_step (NewLifecycleManager now0) ops lm"
    and "\<forall>now. OpTransition now StateDegraded \<notin> set ops" and "stateVal lm = StateDegraded"
  shows "\<exists>name ch. components lm name = Some ch \<and> ch_State ch = HealthUnhealthy"
proof -
  have "run (\<lambda>lm op lm'. \<not> degrades op \<and> lc_step lm op lm') (NewLifecycleManager now0) ops lm"
    using assms(1,2) by (intro run_restrict) (auto simp: degrades_def)
  moreover have "degraded_justified (NewLifecycleManager now0)"
    by (simp add: degraded_justified_def NewLifecycleManager_def)
  ultimately have "degraded_justified lm" by (rule justified.run_inv)
  with assms(3) show ?thesis by (simp add: degraded_justified_def all_healthy_def)
qed

theorem degraded_has_unhealthy_witness:
  "\<exists>lm name ch. run lc_step (NewLifecycleManager 0)
      [OpTransition 1 StateBooting, OpTransition 2 StateReady, OpReport 3 [''log''] ''log'' False False None] lm \<and>
    components lm name = Some ch \<and> ch_State ch = HealthUnhealthy"
proof -
  let ?ops = "[OpTransition 1 StateBooting, OpTransition 2 StateReady, OpReport 3 [''log''] ''log'' False False None]"
  let ?ready = "(NewLifecycleManager 0)\<lparr>stateVal := StateReady, since := 2\<rparr>"
  let ?degraded = "ReportComponentHealth 3 [''log''] ''log'' False False None ?ready"
  let ?booting = "(NewLifecycleManager 0)\<lparr>stateVal := StateBooting, since := 1\<rparr>"
  have "lc_step (NewLifecycleManager 0) (OpTransition 1 StateBooting) ?booting"
    by (rule lc_step.transition) (simp add: Transition_def NewLifecycleManager_def valid_transition_def)
  moreover have "lc_step ?booting (OpTransition 2 StateReady) ?ready"
    by (rule lc_step.transition) (simp add: Transition_def NewLifecycleManager_def valid_transition_def)
  moreover have "lc_step ?ready (OpReport 3 [''log''] ''log'' False False None) ?degraded"
    by (rule lc_step.report) (simp_all add: NewLifecycleManager_def)
  ultimately have r: "run lc_step (NewLifecycleManager 0) ?ops ?degraded"
    by (meson run_cons run_nil)
  have "stateVal ?degraded = StateDegraded"
    by (simp add: Let_def ReportComponentHealth_def handleComponentFailure_def NewLifecycleManager_def)
  with degraded_has_unhealthy [OF r] r show ?thesis by auto
qed

text \<open>
  The restart cooldown.  Between two accepted restarts (with any other calls in between, a
  reconfiguration included) lies at least the cooldown configured at the second.
\<close>

theorem restart_cooldown:
  assumes "CheckRestartCooldown t1 lm = Inr lm1" and "run lc_step lm1 ops lm2"
    and "\<forall>now. OpRestart now \<notin> set ops" and "CheckRestartCooldown t2 lm2 = Inr lm3"
    and "int64 (cooldownMS lm2 * Millisecond)" and "int64 (t2 - t1)"
  shows "cooldownMS lm2 * Millisecond \<le> t2 - t1"
proof -
  have "run (\<lambda>lm op lm'. \<not> restarts op \<and> lc_step lm op lm') lm1 ops lm2"
    using assms(2,3) by (intro run_restrict) (auto simp: restarts_def)
  moreover have "lastRestart lm1 = Some t1" using Restart_Inr [OF assms(1)] by simp
  ultimately have "lastRestart lm2 = Some t1" by (rule last_restart.run_inv)
  with assms(4-6) show ?thesis
    by (auto simp: CheckRestartCooldown_def Let_def wrap64_id time_sub_def int64_def split: if_splits)
qed

theorem restart_cooldown_witness:
  "1000 * Millisecond \<le> (7000000000 :: int) - 5000000000"
proof -
  let ?lm = "NewLifecycleManager 0"
  let ?first = "?lm\<lparr>lastRestart := Some 5000000000\<rparr>"
  have "CheckRestartCooldown 5000000000 ?lm = Inr ?first"
    by (simp add: CheckRestartCooldown_def NewLifecycleManager_def)
  moreover have "CheckRestartCooldown 7000000000 ?first = Inr (?first\<lparr>lastRestart := Some 7000000000\<rparr>)"
    by (simp add: CheckRestartCooldown_def NewLifecycleManager_def time_sub_def Millisecond_def
        max_int64_def min_int64_def wrap64_def)
  ultimately show ?thesis
    using restart_cooldown [of 5000000000 ?lm ?first "[]" ?first 7000000000]
    by (simp add: NewLifecycleManager_def Millisecond_def int64_def max_int64_def min_int64_def)
qed

text \<open>
  The three readiness tests agree: the manager admits traffic exactly when its snapshot is
  ready, or degraded with \<open>accept_when_degraded\<close>; whatever is admitted is at least degraded and
  live; the snapshot's overall health is \<open>Healthy\<close> exactly when it is ready, and it always carries
  the fatal component \<open>lifecycle\<close>, even over a reported one of that name.
\<close>

theorem readiness_consistent:
  "(IsReady lm \<longleftrightarrow> StatusIsReady (HealthStatus lm) \<or> stateVal lm = StateDegraded \<and> degradedReady lm) \<and>
   (IsReady lm \<longrightarrow> IsReadyOrDegraded (HealthStatus lm)) \<and>
   (IsReadyOrDegraded (HealthStatus lm) \<longrightarrow> IsLive (HealthStatus lm)) \<and>
   (hs_Overall (HealthStatus lm) = HealthHealthy \<longleftrightarrow> StatusIsReady (HealthStatus lm)) \<and>
   (\<exists>ch. hs_Components (HealthStatus lm) ''lifecycle'' = Some ch \<and> ch_Fatal ch \<and>
      ch_State ch = hs_Overall (HealthStatus lm) \<and> ch_Details ch = state_name (stateVal lm))"
  by (cases "stateVal lm")
    (auto simp: IsReady_def StatusIsReady_def HealthStatus_def IsReadyOrDegraded_def IsLive_def
      overall_health_def Let_def)

theorem readiness_consistent_witness:
  "IsReadyOrDegraded (HealthStatus ((NewLifecycleManager 0)\<lparr>stateVal := StateDegraded\<rparr>))"
  using readiness_consistent [of "(NewLifecycleManager 0)\<lparr>stateVal := StateDegraded\<rparr>"]
  by (simp add: IsReady_def NewLifecycleManager_def)

end
