(* ===== verification/Topic_Match.thy ===== *)
theory Topic_Match
  imports Go_Base
begin

text \<open>
  \<open>matchTopic\<close> and \<open>getNamespace\<close> of \<open>core/events/bus.go\<close>: the pattern language of the event
  bus, and its equivalence with a structural definition.
\<close>

definition getNamespace :: "string \<Rightarrow> string" where
  "getNamespace topic = (case split_on CHR ''.'' topic of [] \<Rightarrow> [] | ns # _ \<Rightarrow> ns)"

text \<open>The loop over the segments of the pattern, with its index; the reads are in range.\<close>

function match_loop :: "nat \<Rightarrow> string list \<Rightarrow> string list \<Rightarrow> bool" where
  "match_loop i pSegs tSegs =
     (if i < length pSegs
      then (let p = pSegs ! i
            in if p = ''**'' then True
               else if i \<ge> length tSegs then False
               else if p = ''*'' then match_loop (i + 1) pSegs tSegs
               else if p \<noteq> tSegs ! i then False
               else match_loop (i + 1) pSegs tSegs)
      else length pSegs = length tSegs)"
  by pat_completeness auto
termination
  by (relation "measure (\<lambda>(i, pSegs, tSegs). length pSegs - i)") auto

declare match_loop.simps [simp del]

definition matchTopic :: "string \<Rightarrow> string \<Rightarrow> bool" where
  "matchTopic pattern topic =
     (if pattern = ''*'' then True
      else if pattern = topic then True
      else match_loop 0 (split_on CHR ''.'' pattern) (split_on CHR ''.'' topic))"

text \<open>The language of patterns, by recursion on the segments.\<close>

fun match_segs :: "string list \<Rightarrow> string list \<Rightarrow> bool" where
  "match_segs [] ts \<longleftrightarrow> ts = []"
| "match_segs (p # ps) ts \<longleftrightarrow>
     p = ''**'' \<or> (case ts of [] \<Rightarrow> False | t # ts' \<Rightarrow> (p = ''*'' \<or> p = t) \<and> match_segs ps ts')"

lemma match_loop_drop:
  assumes "i \<le> length tSegs"
  shows "match_loop i pSegs tSegs \<longleftrightarrow>
    (if i \<le> length pSegs then match_segs (drop i pSegs) (drop i tSegs) else length pSegs = length tSegs)"
  using assms
proof (induction i pSegs tSegs rule: match_loop.induct)
  case (1 i pSegs tSegs)
  show ?case
  proof (cases "i < length pSegs")
    case True
    then have d: "drop i pSegs = pSegs ! i # drop (Suc i) pSegs" by (simp add: Cons_nth_drop_Suc)
    show ?thesis
    proof (cases "i < length tSegs")
      case t: True
      then have dt: "drop i tSegs = tSegs ! i # drop (Suc i) tSegs" by (simp add: Cons_nth_drop_Suc)
      with True t d 1 show ?thesis
        by (subst match_loop.simps) (auto simp: Let_def)
    next
      case False
      with True d "1.prems" show ?thesis by (subst match_loop.simps) (simp add: Let_def)
    qed
  next
    case False
    with "1.prems" show ?thesis by (subst match_loop.simps) auto
  qed
qed

lemma match_loop_segs: "match_loop 0 ps ts = match_segs ps ts"
  by (simp add: match_loop_drop)

lemma matchTopic_exact [simp]: "matchTopic topic topic"
  by (simp add: matchTopic_def)

lemma match_segs_tail: "match_segs (ps @ ''**'' # zs) ts = match_segs (ps @ [''**'']) ts"
  by (induction ps arbitrary: ts) (auto split: list.splits)

text \<open>
  C31: the index loop of \<open>matchTopic\<close> decides the pattern language: \<open>*\<close> alone and the topic itself
  match; otherwise the segments match one by one, \<open>*\<close> any single segment, and \<open>**\<close> any rest,
  the empty one included (and whatever pattern segments follow it).
\<close>

theorem matchTopic_language:
  "(matchTopic pattern topic \<longleftrightarrow>
     pattern = ''*'' \<or> pattern = topic \<or>
     match_segs (split_on CHR ''.'' pattern) (split_on CHR ''.'' topic)) \<and>
   match_segs (ps @ ''**'' # zs) ts = match_segs (ps @ [''**'']) ts"
  using match_segs_tail [of ps zs ts] by (auto simp: matchTopic_def match_loop_segs)

lemma matchTopic_segs:
  "split_on CHR ''.'' pattern = ps \<Longrightarrow> split_on CHR ''.'' topic = ts \<Longrightarrow> pattern \<noteq> ''*'' \<Longrightarrow>
   matchTopic pattern topic \<longleftrightarrow> pattern = topic \<or> match_segs ps ts"
  by (auto simp: matchTopic_def match_loop_segs)

end
