(* ===== verification/Bounded_Buffer.thy ===== *)
theory Bounded_Buffer
  imports Go_Base "HOL-Library.Sublist"
begin

text \<open>
  Buffers that are sent to without blocking: the channel of a subscription of the event bus and
  the queue of the logger.  Both overflow by a policy; what their users share is that a buffer
  never exceeds its capacity and keeps the order of what it holds.
\<close>

locale bounded_buffer =
  fixes push :: "'e \<Rightarrow> 'e list \<Rightarrow> 'e list" and cap :: nat
  assumes push_bounded: "length q \<le> cap \<Longrightarrow> length (push e q) \<le> cap"
    and push_order: "subseq (push e q) (q @ [e])"
    and push_room: "length q < cap \<Longrightarrow> push e q = q @ [e]"
begin

lemma fold_bounded: "length q \<le> cap \<Longrightarrow> length (fold push es q) \<le> cap"
  by (induction es arbitrary: q) (auto intro: push_bounded)

lemma fold_order: "subseq (fold push es q) (q @ es)"
proof (induction es arbitrary: q)
  case Nil
  show ?case by simp
next
  case (Cons e es)
  have "subseq (fold push es (push e q)) (push e q @ es)" by (rule Cons.IH)
  also have "subseq (push e q @ es) ((q @ [e]) @ es)"
    by (rule list_emb_append_mono [OF push_order]) simp
  finally show ?case by simp
qed

lemma fold_room: "length q + length es \<le> cap \<Longrightarrow> fold push es q = q @ es"
  by (induction es arbitrary: q) (auto simp: push_room)

end

section \<open>The two policies of the event bus\<close>

definition offer_oldest :: "nat \<Rightarrow> 'e \<Rightarrow> 'e list \<Rightarrow> 'e list" where
  "offer_oldest cap e q =
     (if length q < cap then q @ [e] else (case q of [] \<Rightarrow> [] | _ # rest \<Rightarrow> rest @ [e]))"

definition offer_newest :: "nat \<Rightarrow> 'e \<Rightarrow> 'e list \<Rightarrow> 'e list" where
  "offer_newest cap e q = (if length q < cap then q @ [e] else q)"

interpretation oldest: bounded_buffer "offer_oldest cap" cap for cap
  by unfold_locales
    (auto simp: offer_oldest_def subseq_append' split: list.splits)

interpretation newest: bounded_buffer "offer_newest cap" cap for cap
  by unfold_locales (auto simp: offer_newest_def)

lemma fold_offer_oldest:
  "0 < cap \<Longrightarrow> length q \<le> cap \<Longrightarrow>
   fold (offer_oldest cap) es q = drop (length q + length es - cap) (q @ es)"
proof (induction es arbitrary: q)
  case Nil
  then show ?case by simp
next
  case (Cons e es)
  show ?case
  proof (cases "length q < cap")
    case True
    then show ?thesis using Cons.IH [of "q @ [e]"] Cons.prems by (simp add: offer_oldest_def)
  next
    case False
    then have "length q = cap" using Cons.prems(2) by simp
    with Cons.prems(1) obtain x rest where q: "q = x # rest" "length rest + 1 = cap" by (cases q) auto
    have "fold (offer_oldest cap) (e # es) q = fold (offer_oldest cap) es (rest @ [e])"
      using False q(1) by (simp add: offer_oldest_def)
    also have "\<dots> = drop (length (rest @ [e]) + length es - cap) ((rest @ [e]) @ es)"
      using q(2) Cons.prems(1) by (intro Cons.IH) simp_all
    also have "\<dots> = drop (length q + length (e # es) - cap) (q @ e # es)"
      unfolding q(2) [symmetric] q(1) by simp
    finally show ?thesis .
  qed
qed

lemma fold_offer_newest:
  "length q \<le> cap \<Longrightarrow> fold (offer_newest cap) es q = take cap (q @ es)"
proof (induction es arbitrary: q)
  case Nil
  then show ?case by simp
next
  case (Cons e es)
  then show ?case
    using Cons.IH [of "q @ [e]"] Cons.IH [of q] by (cases "length q < cap") (auto simp: offer_newest_def)
qed

end
