(* ===== verification/Event_Bus.thy ===== *)
theory Event_Bus
  imports Platform_Error Registry Topic_Match Bounded_Buffer "HOL-Library.AList"
begin

text \<open>
  \<open>core/events/bus.go\<close>: the in-process publish/subscribe bus.  Subscriptions are shared objects:
  \<open>table\<close> holds them by number (\<open>sub.id\<close> is the index plus one), and the lists under
  \<open>subscribers\<close> hold the numbers.  The channel of a subscription is its buffered queue and a
  closed flag; its goroutine is the operation \<open>consume\<close>.  Publishing may publish again (dead
  letters), so \<open>Publish\<close> takes fuel; \<open>Publish_returns\<close> below says how much is enough.
  \<open>rng ev\<close> is the order in which the publication of \<open>ev\<close> ranges over the map of patterns.
\<close>

section \<open>Data\<close>

definition TopicDeadLetter :: string where "TopicDeadLetter = ''eventbus.dead_letter''"

datatype 'a event =
    Event (Topic: string) (Type: string) (EvID: string) (Timestamp: "instant option")
          (Payload: "'a payload") (TraceID: string) (SourceID: string)
and 'a payload =
    Plain 'a
  | DeadLetterEntry "'a event" (SubscriberID: string) (Reason: string) (DlError: string) (OccurredAt: instant)

definition normalize :: "instant \<Rightarrow> 'a event \<Rightarrow> 'a event" where
  "normalize now ev =
     Event (if Topic ev = [] then Type ev else Topic ev)
           (if Topic ev = [] then Type ev else if Type ev = [] then Topic ev else Type ev)
           (if EvID ev = [] then ''evt-'' @ hex_pad 16 (nat now) else EvID ev)
           (case Timestamp ev of None \<Rightarrow> Some now | Some t \<Rightarrow> Some t)
           (Payload ev) (TraceID ev) (SourceID ev)"

definition with_trace :: "string \<Rightarrow> 'a event \<Rightarrow> 'a event" where
  "with_trace tid ev =
     Event (Topic ev) (Type ev) (EvID ev) (Timestamp ev) (Payload ev)
           (if TraceID ev = [] then tid else TraceID ev) (SourceID ev)"

datatype overflow_policy = DropOldest | DropNewest

definition ErrNamespaceTaken :: go_error where "ErrNamespaceTaken = GoError ''namespace already registered''"
definition ErrUnknownTopic :: go_error where "ErrUnknownTopic = GoError ''unknown topic or unregistered namespace''"

definition canonicalTopics :: "string list" where
  "canonicalTopics =
    [''runtime.starting'', ''runtime.ready'', ''runtime.state_changed'', ''runtime.degraded'',
     ''runtime.recovered'', ''runtime.failed'', ''runtime.restart_requested'',
     ''runtime.restart_rejected'', ''runtime.shutdown_started'', ''runtime.shutdown_completed'',
     ''execution.queued'', ''execution.started'', ''execution.retrying'', ''execution.succeeded'',
     ''execution.failed'', ''execution.cancelled'', ''execution.timed_out'',
     ''health.degraded'', ''health.recovered'', TopicDeadLetter]"

record 'a subscription =
  sub_pattern :: string
  sub_predicate :: "('a event \<Rightarrow> bool) option"
  sub_queue :: "'a event list"
  sub_cap :: nat
  sub_policy :: overflow_policy
  sub_closed :: bool

record 'a bus =
  subscribers :: "(string \<times> nat list) list"
  table :: "'a subscription list"
  namespaces :: "string \<rightharpoonup> string"
  queueCapacity :: nat
  overflowPolicy :: overflow_policy
  strictValidation :: bool
  retryAttempts :: int

section \<open>Namespaces and topics\<close>

definition RegisterNamespace :: "string \<times> string \<Rightarrow> 'a bus \<Rightarrow> go_error + 'a bus" where
  "RegisterNamespace po eb =
     (case po of (pfx, owner) \<Rightarrow>
        let pfx = trim_suffix ''.'' pfx
        in if namespaces eb pfx \<noteq> None then Inl ErrNamespaceTaken
           else Inr (eb\<lparr>namespaces := (namespaces eb)(pfx \<mapsto> owner)\<rparr>))"

text \<open>The constructor ignores the results of its four registrations (\<open>_ = ...\<close>).\<close>

definition register_core :: "string \<times> string \<Rightarrow> 'a bus \<Rightarrow> 'a bus" where
  "register_core po eb = (case RegisterNamespace po eb of Inl e \<Rightarrow> eb | Inr eb' \<Rightarrow> eb')"

definition NewInProcessEventBus :: "'a bus" where
  "NewInProcessEventBus =
     (register_core (''eventbus'', ''core'') \<circ> register_core (''health'', ''core'') \<circ>
      register_core (''execution'', ''engine'') \<circ> register_core (''runtime'', ''core''))
     \<lparr>subscribers = [], table = [], namespaces = Map.empty, queueCapacity = 1000,
      overflowPolicy = DropOldest, strictValidation = True, retryAttempts = 2\<rparr>"

definition SetQueueCapacity :: "nat \<Rightarrow> 'a bus \<Rightarrow> 'a bus" where
  "SetQueueCapacity cap eb = eb\<lparr>queueCapacity := cap\<rparr>"

definition SetOverflowPolicy :: "overflow_policy \<Rightarrow> 'a bus \<Rightarrow> 'a bus" where
  "SetOverflowPolicy policy eb = eb\<lparr>overflowPolicy := policy\<rparr>"

definition SetStrictMode :: "bool \<Rightarrow> 'a bus \<Rightarrow> 'a bus" where
  "SetStrictMode strict eb = eb\<lparr>strictValidation := strict\<rparr>"

definition validateTopic :: "string \<Rightarrow> 'a bus \<Rightarrow> go_error option" where
  "validateTopic topic eb =
     (let ns = getNamespace topic
      in if namespaces eb ns = None then Some ErrUnknownTopic
         else if strictValidation eb \<and>
                 (ns = ''runtime'' \<or> ns = ''execution'' \<or> ns = ''health'' \<or> ns = ''eventbus'') \<and>
                 topic \<notin> set canonicalTopics
         then Some ErrUnknownTopic
         else None)"

section \<open>Subscribing\<close>

definition subs_of :: "'a bus \<Rightarrow> string \<Rightarrow> nat list" where
  "subs_of eb pattern = (case map_of (subscribers eb) pattern of None \<Rightarrow> [] | Some is \<Rightarrow> is)"

text \<open>Returns the number of the new subscription, which stands for the unsubscribe handle.\<close>

definition SubscribeFiltered ::
  "string \<Rightarrow> ('a event \<Rightarrow> bool) option \<Rightarrow> 'a bus \<Rightarrow> nat \<times> 'a bus" where
  "SubscribeFiltered pattern predicate eb =
     (let i = length (table eb);
          sub = \<lparr>sub_pattern = pattern, sub_predicate = predicate, sub_queue = [],
                 sub_cap = queueCapacity eb, sub_policy = overflowPolicy eb, sub_closed = False\<rparr>
      in (i, eb\<lparr>table := table eb @ [sub],
                subscribers := AList.update pattern (subs_of eb pattern @ [i]) (subscribers eb)\<rparr>))"

definition Subscribe :: "string \<Rightarrow> 'a bus \<Rightarrow> nat \<times> 'a bus" where
  "Subscribe pattern eb = SubscribeFiltered pattern None eb"

text \<open>\<open>unsubOnce\<close>: a second call finds the channel closed and does nothing.\<close>

definition unsubscribe :: "nat \<Rightarrow> 'a bus \<Rightarrow> 'a bus" where
  "unsubscribe i eb =
     (if i < length (table eb) \<and> \<not> sub_closed (table eb ! i)
      then (let sub = table eb ! i; pattern = sub_pattern sub
            in eb\<lparr>table := (table eb)[i := sub\<lparr>sub_closed := True\<rparr>],
                  subscribers := AList.update pattern (remove_first (\<lambda>j. j = i) (subs_of eb pattern))
                                   (subscribers eb)\<rparr>)
      else eb)"

section \<open>Publishing\<close>

definition getMatchingSubscribers :: "(string list \<Rightarrow> string list) \<Rightarrow> 'a event \<Rightarrow> 'a bus \<Rightarrow> nat list" where
  "getMatchingSubscribers rng ev eb =
     concat (map (\<lambda>pattern.
         if \<not> matchTopic pattern (Topic ev) then []
         else filter (\<lambda>i. case sub_predicate (table eb ! i) of None \<Rightarrow> True | Some f \<Rightarrow> f ev) (subs_of eb pattern))
       (rng (map fst (subscribers eb))))"

definition set_sub_queue :: "nat \<Rightarrow> 'a event list \<Rightarrow> 'a bus \<Rightarrow> 'a bus" where
  "set_sub_queue i q eb = eb\<lparr>table := (table eb)[i := (table eb ! i)\<lparr>sub_queue := q\<rparr>]\<rparr>"

text \<open>
  A run of the bus returns nothing when the fuel is out, else a panic or a value; a send on a
  closed channel panics, also inside a \<open>select\<close>.
\<close>

type_synonym 'r outcome = "(string + 'r) option"

definition ok :: "'r \<Rightarrow> 'r outcome" where "ok r = Some (Inr r)"

definition and_then :: "'r outcome \<Rightarrow> ('r \<Rightarrow> 's outcome) \<Rightarrow> 's outcome" where
  "and_then m f = (case m of None \<Rightarrow> None | Some (Inl p) \<Rightarrow> Some (Inl p) | Some (Inr r) \<Rightarrow> f r)"

definition sub_name :: "nat \<Rightarrow> string" where
  "sub_name i = ''sub-'' @ show_int (int i + 1)"

text \<open>\<open>try_send\<close> is \<open>case sub.queue <- ev\<close>; \<open>full\<close> is what the \<open>default\<close> branch does.\<close>

definition try_send :: "nat \<Rightarrow> 'a event \<Rightarrow> ('a bus \<Rightarrow> 'a bus outcome) \<Rightarrow> 'a bus \<Rightarrow> 'a bus outcome" where
  "try_send i ev full eb =
     (let sub = table eb ! i
      in if sub_closed sub then Some (Inl ''send on closed channel'')
         else if length (sub_queue sub) < sub_cap sub then ok (set_sub_queue i (sub_queue sub @ [ev]) eb)
         else full eb)"

definition enqueue ::
  "('a event \<Rightarrow> string \<Rightarrow> string \<Rightarrow> string \<Rightarrow> 'a bus \<Rightarrow> 'a bus outcome) \<Rightarrow> 'a event \<Rightarrow> nat \<Rightarrow> 'a bus \<Rightarrow> 'a bus outcome" where
  "enqueue deadLetter ev i eb =
     try_send i ev (\<lambda>eb.
       if sub_policy (table eb ! i) = DropNewest
       then deadLetter ev (sub_name i) ''queue_overflow'' ''queue is full (drop_newest)'' eb
       else and_then
              (case sub_queue (table eb ! i) of
                 oldest # rest \<Rightarrow>
                   deadLetter oldest (sub_name i) ''queue_overflow'' ''queue overflow, oldest dropped''
                     (set_sub_queue i rest eb)
               | [] \<Rightarrow> ok eb)
              (\<lambda>eb. try_send i ev
                 (deadLetter ev (sub_name i) ''queue_overflow'' ''queue is full after drop_oldest'') eb)) eb"

fun enqueue_all ::
  "('a event \<Rightarrow> string \<Rightarrow> string \<Rightarrow> string \<Rightarrow> 'a bus \<Rightarrow> 'a bus outcome) \<Rightarrow> 'a event \<Rightarrow> nat list \<Rightarrow> 'a bus \<Rightarrow> 'a bus outcome" where
  "enqueue_all deadLetter ev [] eb = ok eb"
| "enqueue_all deadLetter ev (i # is) eb =
     and_then (enqueue deadLetter ev i eb) (enqueue_all deadLetter ev is)"

definition dead_letter_event :: "instant \<Rightarrow> 'a event \<Rightarrow> string \<Rightarrow> string \<Rightarrow> string \<Rightarrow> 'a event" where
  "dead_letter_event now ev subID why errStr =
     Event TopicDeadLetter [] [] (Some now) (DeadLetterEntry ev subID why errStr now) [] []"

text \<open>\<open>tid\<close> is the trace identifier that the context of the caller carries, or empty.\<close>

fun Publish ::
  "nat \<Rightarrow> ('a event \<Rightarrow> string list \<Rightarrow> string list) \<Rightarrow> instant \<Rightarrow> string \<Rightarrow> 'a event \<Rightarrow> 'a bus
    \<Rightarrow> (go_error option \<times> 'a bus) outcome" where
  "Publish 0 rng now tid ev eb = None"
| "Publish (Suc n) rng now tid ev eb =
     (let ev = normalize now ev
      in case validateTopic (Topic ev) eb of
           Some e \<Rightarrow> ok (Some e, eb)
         | None \<Rightarrow>
             let ev = with_trace tid ev;
                 deadLetter = (\<lambda>ev subID why errStr eb.
                   if Topic ev = TopicDeadLetter then ok eb
                   else and_then (Publish n rng now [] (dead_letter_event now ev subID why errStr) eb)
                          (\<lambda>(_, eb). ok eb))
             in and_then (enqueue_all deadLetter ev (getMatchingSubscribers (rng ev) ev eb) eb)
                  (\<lambda>eb. ok (None, eb)))"

definition deadLetter ::
  "nat \<Rightarrow> ('a event \<Rightarrow> string list \<Rightarrow> string list) \<Rightarrow> instant \<Rightarrow> 'a event \<Rightarrow> string \<Rightarrow> string \<Rightarrow> string \<Rightarrow> 'a bus \<Rightarrow> 'a bus outcome" where
  "deadLetter n rng now ev subID why errStr eb =
     (if Topic ev = TopicDeadLetter then ok eb
      else and_then (Publish n rng now [] (dead_letter_event now ev subID why errStr) eb) (\<lambda>(_, eb). ok eb))"

section \<open>Consuming\<close>

datatype handler_outcome = HandlerOk | HandlerError string | HandlerPanic string

text \<open>
  \<open>handleWithRecovery\<close>: at most three calls of the handler; the first success ends it, a panic
  ends it with a dead letter, three errors end it with a dead letter for the last one.
  \<open>handler k\<close> is what call number \<open>k\<close> does.
\<close>

fun handler_attempts :: "nat \<Rightarrow> nat \<Rightarrow> string \<Rightarrow> (nat \<Rightarrow> handler_outcome) \<Rightarrow> (string \<times> string) option \<times> nat" where
  "handler_attempts 0 attempt lastErr handler = (Some (''handler_error'', lastErr), attempt)"
| "handler_attempts (Suc left) attempt lastErr handler =
     (case handler attempt of
        HandlerOk \<Rightarrow> (None, Suc attempt)
      | HandlerPanic r \<Rightarrow> (Some (''handler_panic'', ''handler panic: '' @ r), Suc attempt)
      | HandlerError e \<Rightarrow> handler_attempts left (Suc attempt) e handler)"

definition handleWithRecovery ::
  "nat \<Rightarrow> ('a event \<Rightarrow> string list \<Rightarrow> string list) \<Rightarrow> instant \<Rightarrow> (nat \<Rightarrow> handler_outcome) \<Rightarrow> nat \<Rightarrow> 'a event \<Rightarrow> 'a bus \<Rightarrow> 'a bus outcome" where
  "handleWithRecovery n rng now handler i ev eb =
     (case fst (handler_attempts 3 0 [] handler) of
        None \<Rightarrow> ok eb
      | Some (why, errStr) \<Rightarrow> deadLetter n rng now ev (sub_name i) why errStr eb)"

text \<open>One turn of the goroutine: \<open>for ev := range sub.queue\<close>; a closed queue is still drained.\<close>

definition consume ::
  "nat \<Rightarrow> ('a event \<Rightarrow> string list \<Rightarrow> string list) \<Rightarrow> instant \<Rightarrow> (nat \<Rightarrow> handler_outcome) \<Rightarrow> nat \<Rightarrow> 'a bus \<Rightarrow> 'a bus outcome" where
  "consume n rng now handler i eb =
     (case sub_queue (table eb ! i) of
        [] \<Rightarrow> ok eb
      | ev # rest \<Rightarrow> handleWithRecovery n rng now handler i ev (set_sub_queue i rest eb))"

section \<open>Reasoning about outcomes\<close>

definition gives :: "'r outcome \<Rightarrow> ('r \<Rightarrow> bool) \<Rightarrow> bool" where
  "gives m P \<longleftrightarrow> (\<exists>r. m = Some (Inr r) \<and> P r)"

lemma gives_ok [simp]: "gives (ok r) P \<longleftrightarrow> P r"
  by (simp add: gives_def ok_def)

lemma and_then_ok [simp]: "and_then (ok r) f = f r"
  by (simp add: and_then_def ok_def)

lemma gives_and_then:
  "gives m P \<Longrightarrow> (\<And>r. P r \<Longrightarrow> gives (f r) Q) \<Longrightarrow> gives (and_then m f) Q"
  by (auto simp: gives_def and_then_def)

lemma gives_mono: "gives m P \<Longrightarrow> (\<And>r. P r \<Longrightarrow> Q r) \<Longrightarrow> gives m Q"
  by (auto simp: gives_def)

section \<open>What publishing leaves alone\<close>

definition shape :: "'a bus \<Rightarrow> 'a bus" where
  "shape eb = eb\<lparr>table := map (\<lambda>sub. sub\<lparr>sub_queue := []\<rparr>) (table eb)\<rparr>"

definition ordinary :: "'a event \<Rightarrow> bool" where
  "ordinary ev \<longleftrightarrow> Topic ev \<noteq> TopicDeadLetter"

definition pending :: "'a bus \<Rightarrow> nat" where
  "pending eb = sum_list (map (\<lambda>sub. length (filter ordinary (sub_queue sub))) (table eb))"

definition bounded :: "'a bus \<Rightarrow> bool" where
  "bounded eb \<longleftrightarrow> (\<forall>sub\<in>set (table eb). length (sub_queue sub) \<le> sub_cap sub)"

definition live :: "'a bus \<Rightarrow> nat \<Rightarrow> bool" where
  "live eb i \<longleftrightarrow> i < length (table eb) \<and> \<not> sub_closed (table eb ! i)"

definition subs_live :: "'a bus \<Rightarrow> bool" where
  "subs_live eb \<longleftrightarrow> (\<forall>pattern. \<forall>i\<in>set (subs_of eb pattern). live eb i)"

lemma shape_eqD:
  assumes "shape eb = shape eb'"
  shows "subscribers eb = subscribers eb'" "namespaces eb = namespaces eb'"
    "strictValidation eb = strictValidation eb'" "length (table eb) = length (table eb')"
    "subs_of eb = subs_of eb'"
proof -
  show sub: "subscribers eb = subscribers eb'" and "namespaces eb = namespaces eb'"
    and "strictValidation eb = strictValidation eb'"
    using arg_cong [OF assms, of subscribers] arg_cong [OF assms, of namespaces]
      arg_cong [OF assms, of strictValidation] by (simp_all add: shape_def)
  show "length (table eb) = length (table eb')"
    using arg_cong [OF assms, of "\<lambda>b. length (table b)"] by (simp add: shape_def)
  show "subs_of eb = subs_of eb'" using sub by (simp add: subs_of_def fun_eq_iff)
qed

lemma shape_eq_nth:
  assumes "shape eb = shape eb'" and "i < length (table eb)"
  shows "(table eb ! i)\<lparr>sub_queue := []\<rparr> = (table eb' ! i)\<lparr>sub_queue := []\<rparr>"
proof -
  from assms(1) have "table (shape eb) = table (shape eb')" by simp
  then have "map (\<lambda>sub. sub\<lparr>sub_queue := []\<rparr>) (table eb) = map (\<lambda>sub. sub\<lparr>sub_queue := []\<rparr>) (table eb')"
    by (simp add: shape_def)
  with assms(2) show ?thesis by (metis length_map nth_map)
qed

lemma shape_eq_fields:
  assumes "shape eb = shape eb'" and "i < length (table eb)"
  shows "sub_closed (table eb ! i) = sub_closed (table eb' ! i)"
    "sub_cap (table eb ! i) = sub_cap (table eb' ! i)"
    "sub_policy (table eb ! i) = sub_policy (table eb' ! i)"
    "sub_predicate (table eb ! i) = sub_predicate (table eb' ! i)"
    "sub_pattern (table eb ! i) = sub_pattern (table eb' ! i)"
  using arg_cong [OF shape_eq_nth [OF assms], of sub_closed] arg_cong [OF shape_eq_nth [OF assms], of sub_cap]
    arg_cong [OF shape_eq_nth [OF assms], of sub_policy] arg_cong [OF shape_eq_nth [OF assms], of sub_predicate]
    arg_cong [OF shape_eq_nth [OF assms], of sub_pattern]
  by simp_all

lemma shape_live: "shape eb = shape eb' \<Longrightarrow> live eb i = live eb' i"
  using shape_eqD(4) [of eb eb'] shape_eq_fields(1) [of eb eb' i] by (auto simp: live_def)

lemma shape_subs_live: "shape eb = shape eb' \<Longrightarrow> subs_live eb = subs_live eb'"
  by (simp add: subs_live_def shape_live [of eb eb'] shape_eqD(5) [of eb eb'])

lemma shape_set_sub_queue [simp]: "shape (set_sub_queue i q eb) = shape eb"
proof (cases "i < length (table eb)")
  case True
  have "map (\<lambda>sub. sub\<lparr>sub_queue := []\<rparr>) ((table eb)[i := (table eb ! i)\<lparr>sub_queue := q\<rparr>])
      = (map (\<lambda>sub. sub\<lparr>sub_queue := []\<rparr>) (table eb))[i := (table eb ! i)\<lparr>sub_queue := []\<rparr>]"
    by (simp add: map_update)
  also have "\<dots> = map (\<lambda>sub. sub\<lparr>sub_queue := []\<rparr>) (table eb)"
    using True by (metis length_map list_update_id nth_map)
  finally show ?thesis by (simp add: shape_def set_sub_queue_def)
next
  case False
  then show ?thesis by (simp add: shape_def set_sub_queue_def list_update_beyond)
qed

lemma set_sub_queue_nth:
  "i < length (table eb) \<Longrightarrow>
   table (set_sub_queue i q eb) ! j = (if j = i then (table eb ! i)\<lparr>sub_queue := q\<rparr> else table eb ! j)"
  by (simp add: set_sub_queue_def)

lemma set_sub_queue_length [simp]: "length (table (set_sub_queue i q eb)) = length (table eb)"
  by (simp add: set_sub_queue_def)

lemma bounded_set_sub_queue:
  "bounded eb \<Longrightarrow> i < length (table eb) \<Longrightarrow> length q \<le> sub_cap (table eb ! i) \<Longrightarrow> bounded (set_sub_queue i q eb)"
  by (auto simp: bounded_def set_sub_queue_def dest!: set_update_subset_insert [THEN subsetD])

lemma boundedD: "bounded eb \<Longrightarrow> i < length (table eb) \<Longrightarrow> length (sub_queue (table eb ! i)) \<le> sub_cap (table eb ! i)"
  by (simp add: bounded_def)

lemma sum_list_update_nat:
  "i < length xs \<Longrightarrow> sum_list (xs[i := (x :: nat)]) + xs ! i = sum_list xs + x"
proof (induction xs arbitrary: i)
  case (Cons y xs)
  then show ?case by (cases i) auto
qed simp

lemma pending_set_sub_queue:
  "i < length (table eb) \<Longrightarrow>
   pending (set_sub_queue i q eb) + length (filter ordinary (sub_queue (table eb ! i)))
     = pending eb + length (filter ordinary q)"
  using sum_list_update_nat [of i "map (\<lambda>sub. length (filter ordinary (sub_queue sub))) (table eb)"
      "length (filter ordinary q)"]
  by (simp add: pending_def set_sub_queue_def map_update)

section \<open>Enough fuel\<close>

text \<open>
  \<open>step_to eb eb'\<close>: only queues changed and they stay within their capacity.  A dead-letter
  callback is good with budget \<open>k\<close> when it returns for every event, ordinary ones being allowed
  while fewer than \<open>k\<close> ordinary events are pending, and does not add ordinary events.
\<close>

definition step_to :: "'a bus \<Rightarrow> 'a bus \<Rightarrow> bool" where
  "step_to eb eb' \<longleftrightarrow> shape eb' = shape eb \<and> bounded eb'"

definition dl_good ::
  "nat \<Rightarrow> ('a event \<Rightarrow> string \<Rightarrow> string \<Rightarrow> string \<Rightarrow> 'a bus \<Rightarrow> 'a bus outcome) \<Rightarrow> bool" where
  "dl_good k dl \<longleftrightarrow> (\<forall>ev s w e eb.
     bounded eb \<longrightarrow> subs_live eb \<longrightarrow> (ordinary ev \<longrightarrow> pending eb < k) \<longrightarrow>
     gives (dl ev s w e eb) (\<lambda>eb'. step_to eb eb' \<and> pending eb' \<le> pending eb))"

lemma dl_goodD:
  "dl_good k dl \<Longrightarrow> bounded eb \<Longrightarrow> subs_live eb \<Longrightarrow> (ordinary ev \<Longrightarrow> pending eb < k) \<Longrightarrow>
   gives (dl ev s w e eb) (\<lambda>eb'. step_to eb eb' \<and> pending eb' \<le> pending eb)"
  by (simp add: dl_good_def)

lemma step_to_refl: "bounded eb \<Longrightarrow> step_to eb eb"
  by (simp add: step_to_def)

lemma step_to_trans: "step_to a b \<Longrightarrow> step_to b c \<Longrightarrow> step_to a c"
  by (simp add: step_to_def)

lemma step_to_keeps:
  assumes "step_to eb eb'"
  shows "bounded eb'" "subs_live eb' = subs_live eb" "live eb' i = live eb i" "subs_of eb' = subs_of eb"
    "length (table eb') = length (table eb)"
  using assms shape_subs_live [of eb' eb] shape_live [of eb' eb i] shape_eqD(4,5) [of eb' eb]
  by (simp_all add: step_to_def)

text \<open>A send with a full branch: what pushing the event costs.\<close>

lemma try_send_gives:
  assumes "bounded eb" and "live eb i"
    and full: "gives (full eb) (\<lambda>eb'. step_to eb eb' \<and> pending eb' \<le> pending eb + c)"
    and c: "ordinary ev \<Longrightarrow> 1 \<le> c"
  shows "gives (try_send i ev full eb) (\<lambda>eb'. step_to eb eb' \<and> pending eb' \<le> pending eb + c)"
proof -
  let ?q = "sub_queue (table eb ! i) @ [ev]"
  have i: "i < length (table eb)" "\<not> sub_closed (table eb ! i)" using assms(2) by (auto simp: live_def)
  show ?thesis
  proof (cases "length (sub_queue (table eb ! i)) < sub_cap (table eb ! i)")
    case True
    then have "step_to eb (set_sub_queue i ?q eb)"
      using bounded_set_sub_queue [OF assms(1) i(1), of ?q] by (simp add: step_to_def)
    moreover have "pending (set_sub_queue i ?q eb) \<le> pending eb + c"
      using pending_set_sub_queue [OF i(1), of ?q] c by (auto split: if_splits)
    ultimately show ?thesis using True i by (simp add: try_send_def Let_def)
  next
    case False
    with full i show ?thesis by (simp add: try_send_def Let_def)
  qed
qed

text \<open>\<open>c\<close> is 1 for an ordinary event and 0 for a dead letter.\<close>

lemma enqueue_gives:
  assumes b: "bounded eb" and l: "live eb i" and sl: "subs_live eb" and dl: "dl_good k dl"
    and budget: "pending eb + (if ordinary ev then 1 else 0) \<le> k"
  defines "c \<equiv> (if ordinary ev then 1 else 0)"
  shows "gives (enqueue dl ev i eb) (\<lambda>eb'. step_to eb eb' \<and> pending eb' \<le> pending eb + c)"
  unfolding enqueue_def
proof (rule try_send_gives [OF b l])
  show "ordinary ev \<Longrightarrow> 1 \<le> c" by (simp add: c_def)
  have i: "i < length (table eb)" using l by (simp add: live_def)
  have drop_new: "gives (dl ev s w e eb') (\<lambda>eb''. step_to eb eb'' \<and> pending eb'' \<le> pending eb + c)"
    if "step_to eb eb'" "pending eb' \<le> pending eb" for eb' s w e
    using dl_goodD [OF dl step_to_keeps(1) [OF that(1)], of ev s w e] step_to_keeps(2) [OF that(1)] sl that budget
    by (auto elim!: gives_mono split: if_splits dest: step_to_trans)
  let ?popped = "case sub_queue (table eb ! i) of
       oldest # rest \<Rightarrow>
         dl oldest (sub_name i) ''queue_overflow'' ''queue overflow, oldest dropped'' (set_sub_queue i rest eb)
     | [] \<Rightarrow> ok eb"
  have pop: "gives ?popped (\<lambda>eb'. step_to eb eb' \<and> pending eb' \<le> pending eb)"
  proof (cases "sub_queue (table eb ! i)")
    case Nil
    then show ?thesis by (simp add: step_to_refl [OF b])
  next
    case (Cons oldest rest)
    let ?eb = "set_sub_queue i rest eb"
    have bb: "bounded ?eb" using bounded_set_sub_queue [OF b i, of rest] boundedD [OF b i] Cons by simp
    have p: "pending ?eb + (if ordinary oldest then 1 else 0) = pending eb"
      using pending_set_sub_queue [OF i, of rest] Cons by (auto split: if_splits)
    have "subs_live ?eb" using sl shape_subs_live [of ?eb eb] by simp
    then have "gives (dl oldest (sub_name i) ''queue_overflow'' ''queue overflow, oldest dropped'' ?eb)
        (\<lambda>eb'. step_to ?eb eb' \<and> pending eb' \<le> pending ?eb)"
      using p budget by (intro dl_goodD [OF dl bb]) (auto split: if_splits)
    then show ?thesis using Cons p by (auto elim!: gives_mono simp: step_to_def)
  qed
  have "gives (and_then ?popped
          (\<lambda>eb. try_send i ev (dl ev (sub_name i) ''queue_overflow'' ''queue is full after drop_oldest'') eb))
      (\<lambda>eb'. step_to eb eb' \<and> pending eb' \<le> pending eb + c)"
  proof (rule gives_and_then [OF pop])
    fix eb1 assume eb1: "step_to eb eb1 \<and> pending eb1 \<le> pending eb"
    have "gives (try_send i ev (dl ev (sub_name i) ''queue_overflow'' ''queue is full after drop_oldest'') eb1)
        (\<lambda>eb'. step_to eb1 eb' \<and> pending eb' \<le> pending eb1 + c)"
    proof (rule try_send_gives)
      show "bounded eb1" "live eb1 i" using eb1 l step_to_keeps(1,3) [of eb eb1] by auto
      show "gives (dl ev (sub_name i) ''queue_overflow'' ''queue is full after drop_oldest'' eb1)
          (\<lambda>eb'. step_to eb1 eb' \<and> pending eb' \<le> pending eb1 + c)"
        by (rule gives_mono [OF dl_goodD [OF dl]])
          (use eb1 step_to_keeps(1,2) [of eb eb1] sl budget in \<open>auto split: if_splits\<close>)
    qed (simp add: c_def)
    then show "gives (try_send i ev (dl ev (sub_name i) ''queue_overflow'' ''queue is full after drop_oldest'') eb1)
        (\<lambda>eb'. step_to eb eb' \<and> pending eb' \<le> pending eb + c)"
      by (rule gives_mono) (use eb1 step_to_trans in auto)
  qed
  with drop_new [OF step_to_refl [OF b]]
  show "gives (if sub_policy (table eb ! i) = DropNewest
       then dl ev (sub_name i) ''queue_overflow'' ''queue is full (drop_newest)'' eb
       else and_then ?popped
          (\<lambda>eb. try_send i ev (dl ev (sub_name i) ''queue_overflow'' ''queue is full after drop_oldest'') eb))
      (\<lambda>eb'. step_to eb eb' \<and> pending eb' \<le> pending eb + c)"
    by simp
qed

lemma enqueue_all_gives:
  assumes "bounded eb" and "\<forall>i\<in>set is. live eb i" and "subs_live eb" and "dl_good k dl"
    and "pending eb + (if ordinary ev then length is else 0) \<le> k"
  shows "gives (enqueue_all dl ev is eb)
    (\<lambda>eb'. step_to eb eb' \<and> pending eb' \<le> pending eb + (if ordinary ev then length is else 0))"
  using assms
proof (induction "is" arbitrary: eb)
  case Nil
  then show ?case by (simp add: step_to_refl)
next
  case (Cons i "is")
  have "gives (enqueue dl ev i eb)
      (\<lambda>eb'. step_to eb eb' \<and> pending eb' \<le> pending eb + (if ordinary ev then 1 else 0))"
    using Cons.prems by (intro enqueue_gives) (auto split: if_splits)
  then have "gives (and_then (enqueue dl ev i eb) (enqueue_all dl ev is))
      (\<lambda>eb'. step_to eb eb' \<and> pending eb' \<le> pending eb + (if ordinary ev then length (i # is) else 0))"
  proof (rule gives_and_then)
    fix eb1 assume eb1: "step_to eb eb1 \<and> pending eb1 \<le> pending eb + (if ordinary ev then 1 else 0)"
    then have "gives (enqueue_all dl ev is eb1)
        (\<lambda>eb'. step_to eb1 eb' \<and> pending eb' \<le> pending eb1 + (if ordinary ev then length is else 0))"
      using Cons.prems step_to_keeps(1,2,3) [of eb eb1] by (intro Cons.IH) (auto split: if_splits)
    then show "gives (enqueue_all dl ev is eb1)
        (\<lambda>eb'. step_to eb eb' \<and> pending eb' \<le> pending eb + (if ordinary ev then length (i # is) else 0))"
      by (rule gives_mono) (use eb1 in \<open>auto dest: step_to_trans split: if_splits\<close>)
  qed
  then show ?case by simp
qed

lemma matching_live:
  "subs_live eb \<Longrightarrow> \<forall>i\<in>set (getMatchingSubscribers r ev eb). live eb i"
  by (auto simp: getMatchingSubscribers_def subs_live_def split: if_splits)

lemma Topic_simps [simp]:
  "Topic (with_trace tid ev) = Topic ev" "Topic (dead_letter_event now ev s w e) = TopicDeadLetter"
  "Topic (normalize now ev) = (if Topic ev = [] then Type ev else Topic ev)"
  by (simp_all add: with_trace_def dead_letter_event_def normalize_def)

lemma TopicDeadLetter_not_Nil [simp]: "TopicDeadLetter \<noteq> []"
  by (simp add: TopicDeadLetter_def)

lemma Publish_Suc:
  "Publish (Suc n) rng now tid ev eb =
     (case validateTopic (Topic (normalize now ev)) eb of
        Some e \<Rightarrow> ok (Some e, eb)
      | None \<Rightarrow>
          (let ev = with_trace tid (normalize now ev)
           in and_then (enqueue_all (deadLetter n rng now) ev (getMatchingSubscribers (rng ev) ev eb) eb)
                (\<lambda>eb. ok (None, eb))))"
proof -
  have eq: "deadLetter n rng now = (\<lambda>ev subID why errStr eb. if Topic ev = TopicDeadLetter then ok eb
      else and_then (Publish n rng now [] (dead_letter_event now ev subID why errStr) eb) (\<lambda>(_, eb). ok eb))"
    by (simp add: deadLetter_def fun_eq_iff)
  show ?thesis unfolding eq Publish.simps Let_def ..
qed

declare Publish.simps(2) [simp del]

lemma Publish_gives:
  fixes eb :: "'a bus"
  assumes "bounded eb" and "subs_live eb"
    and "dl_good n (deadLetter n rng now :: 'a event \<Rightarrow> string \<Rightarrow> string \<Rightarrow> string \<Rightarrow> 'a bus \<Rightarrow> 'a bus outcome)"
    and "pending eb + (if Topic (normalize now ev) = TopicDeadLetter then 0
       else length (getMatchingSubscribers (rng (with_trace tid (normalize now ev))) (with_trace tid (normalize now ev)) eb)) \<le> n"
  shows "gives (Publish (Suc n) rng now tid ev eb) (\<lambda>(e, eb'). step_to eb eb' \<and>
     (Topic (normalize now ev) = TopicDeadLetter \<longrightarrow> pending eb' \<le> pending eb))"
proof (cases "validateTopic (Topic (normalize now ev)) eb")
  case (Some e)
  then show ?thesis by (simp add: Publish_Suc step_to_refl [OF assms(1)])
next
  case None
  let ?ev = "with_trace tid (normalize now ev)"
  let ?is = "getMatchingSubscribers (rng ?ev) ?ev eb"
  have "ordinary ?ev \<longleftrightarrow> Topic (normalize now ev) \<noteq> TopicDeadLetter" by (simp add: ordinary_def)
  with assms(4) have "gives (enqueue_all (deadLetter n rng now) ?ev ?is eb)
      (\<lambda>eb'. step_to eb eb' \<and> pending eb' \<le> pending eb + (if ordinary ?ev then length ?is else 0))"
    using matching_live [OF assms(2)] by (intro enqueue_all_gives [OF assms(1) _ assms(2,3)]) auto
  then have "gives (and_then (enqueue_all (deadLetter n rng now) ?ev ?is eb) (\<lambda>eb. ok (None, eb)))
      (\<lambda>(e, eb'). step_to eb eb' \<and> (Topic (normalize now ev) = TopicDeadLetter \<longrightarrow> pending eb' \<le> pending eb))"
    by (rule gives_and_then) (auto simp: ordinary_def split: if_splits)
  then show ?thesis using None by (simp only: Publish_Suc Let_def option.case)
qed

lemma deadLetter_good:
  "dl_good n (deadLetter n rng now :: 'a event \<Rightarrow> string \<Rightarrow> string \<Rightarrow> string \<Rightarrow> 'a bus \<Rightarrow> 'a bus outcome)"
proof (induction n)
  case 0
  show ?case by (auto simp: dl_good_def deadLetter_def ordinary_def step_to_refl)
next
  case (Suc n)
  show ?case unfolding dl_good_def
  proof (intro allI impI)
    fix ev :: "'a event" and s w e and eb :: "'a bus"
    assume eb: "bounded eb" "subs_live eb" and budget: "ordinary ev \<longrightarrow> pending eb < Suc n"
    show "gives (deadLetter (Suc n) rng now ev s w e eb) (\<lambda>eb'. step_to eb eb' \<and> pending eb' \<le> pending eb)"
    proof (cases "Topic ev = TopicDeadLetter")
      case True
      with eb show ?thesis by (simp add: deadLetter_def step_to_refl)
    next
      case False
      then have "pending eb \<le> n" using budget by (simp add: ordinary_def)
      then have "gives (Publish (Suc n) rng now [] (dead_letter_event now ev s w e) eb)
          (\<lambda>(e, eb'). step_to eb eb' \<and> pending eb' \<le> pending eb)"
        using Publish_gives [OF eb Suc, of "dead_letter_event now ev s w e" "[]"] by (auto elim!: gives_mono)
      then have "gives (and_then (Publish (Suc n) rng now [] (dead_letter_event now ev s w e) eb) (\<lambda>(_, eb). ok eb))
          (\<lambda>eb'. step_to eb eb' \<and> pending eb' \<le> pending eb)"
        by (rule gives_and_then) auto
      with False show ?thesis by (simp add: deadLetter_def)
    qed
  qed
qed

lemma Publish_step_to:
  assumes "bounded eb" and "subs_live eb"
    and "pending eb + length (getMatchingSubscribers (rng (with_trace tid (normalize now ev))) (with_trace tid (normalize now ev)) eb) \<le> n"
  shows "gives (Publish (Suc n) rng now tid ev eb) (\<lambda>(e, eb'). step_to eb eb')"
proof -
  have "gives (Publish (Suc n) rng now tid ev eb) (\<lambda>(e, eb'). step_to eb eb' \<and>
     (Topic (normalize now ev) = TopicDeadLetter \<longrightarrow> pending eb' \<le> pending eb))"
    by (rule Publish_gives [OF assms(1,2) deadLetter_good]) (use assms(3) in auto)
  then show ?thesis by (rule gives_mono) auto
qed

end
