(* ===== verification/Event_Bus_Laws.thy ===== *)
theory Event_Bus_Laws
  imports Event_Bus
begin

text \<open>
  What the event bus of \<open>Event_Bus\<close> guarantees: the invariant of its tables, that publishing
  returns, who receives what and in which order, namespaces, retries of handlers, and the cases
  in which an event is lost or a publisher panics.
\<close>

section \<open>The invariant\<close>

definition bus_inv :: "'a bus \<Rightarrow> bool" where
  "bus_inv eb \<longleftrightarrow> bounded eb \<and> subs_live eb \<and> distinct (map fst (subscribers eb)) \<and>
     (\<forall>pattern. distinct (subs_of eb pattern) \<and>
        (\<forall>i\<in>set (subs_of eb pattern). sub_pattern (table eb ! i) = pattern))"

lemma bus_invD:
  assumes "bus_inv eb"
  shows "bounded eb" "subs_live eb" "distinct (subs_of eb pattern)"
    "i \<in> set (subs_of eb pattern) \<Longrightarrow> sub_pattern (table eb ! i) = pattern"
    "distinct (map fst (subscribers eb))"
  using assms by (auto simp: bus_inv_def)

lemma subs_of_AList_update:
  "subs_of (eb\<lparr>table := t, subscribers := AList.update p is (subscribers eb)\<rparr>) = (subs_of eb)(p := is)"
  by (simp add: subs_of_def fun_eq_iff update_conv)

lemma register_core_simps [simp]:
  "table (register_core po eb) = table eb" "subscribers (register_core po eb) = subscribers eb"
  "strictValidation (register_core po eb) = strictValidation eb"
  "queueCapacity (register_core po eb) = queueCapacity eb" "overflowPolicy (register_core po eb) = overflowPolicy eb"
  by (simp_all add: register_core_def RegisterNamespace_def Let_def split: prod.split)

lemma NewInProcessEventBus_simps [simp]:
  "table NewInProcessEventBus = []" "subscribers NewInProcessEventBus = []" "strictValidation NewInProcessEventBus"
  "queueCapacity NewInProcessEventBus = 1000" "overflowPolicy NewInProcessEventBus = DropOldest"
  by (simp_all add: NewInProcessEventBus_def)

lemma bus_inv_New: "bus_inv NewInProcessEventBus"
  by (simp add: bus_inv_def bounded_def subs_live_def subs_of_def)

lemma bus_inv_SubscribeFiltered:
  assumes "bus_inv eb"
  shows "bus_inv (snd (SubscribeFiltered pattern predicate eb))"
proof -
  let ?eb = "snd (SubscribeFiltered pattern predicate eb)"
  have tab: "table ?eb = table eb @ [\<lparr>sub_pattern = pattern, sub_predicate = predicate, sub_queue = [],
                 sub_cap = queueCapacity eb, sub_policy = overflowPolicy eb, sub_closed = False\<rparr>]"
    and sub: "subs_of ?eb = (subs_of eb)(pattern := subs_of eb pattern @ [length (table eb)])"
    by (simp_all add: SubscribeFiltered_def Let_def subs_of_AList_update)
  have keys: "distinct (map fst (subscribers ?eb))"
    using bus_invD(5) [OF assms] by (simp add: SubscribeFiltered_def Let_def distinct_update)
  have old: "i < length (table eb)" "\<not> sub_closed (table eb ! i)" if "i \<in> set (subs_of eb p)" for i p
    using bus_invD(2) [OF assms] that by (auto simp: subs_live_def live_def)
  show ?thesis
    using assms old keys
    by (fastforce simp: bus_inv_def bounded_def subs_live_def live_def tab sub nth_append)
qed

lemma unsubscribe_tables:
  assumes "i < length (table eb)" and "\<not> sub_closed (table eb ! i)"
  shows "table (unsubscribe i eb) = (table eb)[i := (table eb ! i)\<lparr>sub_closed := True\<rparr>]"
    "subs_of (unsubscribe i eb) =
       (let p = sub_pattern (table eb ! i) in (subs_of eb)(p := remove_first (\<lambda>j. j = i) (subs_of eb p)))"
  using assms by (simp_all add: unsubscribe_def Let_def subs_of_AList_update)

lemma bus_inv_unsubscribe:
  assumes "bus_inv eb"
  shows "bus_inv (unsubscribe i eb)"
proof (cases "i < length (table eb) \<and> \<not> sub_closed (table eb ! i)")
  case False
  then show ?thesis using assms by (auto simp: unsubscribe_def)
next
  case True
  note tabs = unsubscribe_tables [of i eb, OF conjunct1 [OF True] conjunct2 [OF True]]
  let ?p = "sub_pattern (table eb ! i)"
  have own: "j \<in> set (subs_of eb p) \<Longrightarrow> sub_pattern (table eb ! j) = p" for j p
    using bus_invD(4) [OF assms] .
  have sub: "set (subs_of (unsubscribe i eb) p) = set (subs_of eb p) - {i}" for p
    using own [of i p] bus_invD(3) [OF assms] by (auto simp: tabs Let_def set_remove_first_distinct)
  have "bounded (unsubscribe i eb)"
    using bus_invD(1) [OF assms] True
    by (auto simp: bounded_def tabs(1) dest!: set_update_subset_insert [THEN subsetD])
  moreover have "subs_live (unsubscribe i eb)"
    using bus_invD(2) [OF assms] by (auto simp: subs_live_def sub live_def tabs(1) nth_list_update)
  moreover have "distinct (subs_of (unsubscribe i eb) p)" for p
    using bus_invD(3) [OF assms] by (simp add: tabs Let_def distinct_remove_first)
  moreover have "sub_pattern (table (unsubscribe i eb) ! j) = p" if "j \<in> set (subs_of (unsubscribe i eb) p)" for j p
    using that own [of j p] by (auto simp: sub tabs(1) nth_list_update)
  moreover have "distinct (map fst (subscribers (unsubscribe i eb)))"
    using bus_invD(5) [OF assms] True by (simp add: unsubscribe_def Let_def distinct_update)
  ultimately show ?thesis by (simp add: bus_inv_def)
qed

lemma bus_inv_shape:
  assumes "shape eb' = shape eb" and "bounded eb'" and "bus_inv eb"
  shows "bus_inv eb'"
proof -
  have "sub_pattern (table eb' ! i) = sub_pattern (table eb ! i)" if "i \<in> set (subs_of eb p)" for i p
    using shape_eq_fields(5) [OF assms(1), of i] bus_invD(2) [OF assms(3)] that shape_eqD(4) [OF assms(1)]
    by (auto simp: subs_live_def live_def)
  with assms show ?thesis
    using shape_subs_live [OF assms(1)] shape_eqD(1,5) [OF assms(1)] by (auto simp: bus_inv_def)
qed

section \<open>Publishing and consuming return\<close>

text \<open>The subscriptions one publication goes to.\<close>

definition targets :: "('a event \<Rightarrow> string list \<Rightarrow> string list) \<Rightarrow> instant \<Rightarrow> string \<Rightarrow> 'a event \<Rightarrow> 'a bus \<Rightarrow> nat list" where
  "targets rng now tid ev eb =
     (let ev = with_trace tid (normalize now ev) in getMatchingSubscribers (rng ev) ev eb)"

text \<open>
  C19: publishing always returns, whatever overflows on the way.  A publication on an overflowing
  bus publishes dead letters, which may overflow and publish again; the nesting is bounded by the
  number of ordinary events in the queues plus the number of receivers.  With that much fuel
  \<open>Publish\<close> comes back without a panic, and the tables keep their invariant.
\<close>
theorem Publish_returns:
  assumes "bus_inv eb" and "pending eb + length (targets rng now tid ev eb) < n"
  shows "\<exists>e eb'. Publish n rng now tid ev eb = Some (Inr (e, eb')) \<and> bus_inv eb'"
proof -
  obtain m where n: "n = Suc m" using assms(2) by (cases n) auto
  have "gives (Publish n rng now tid ev eb) (\<lambda>(e, eb'). step_to eb eb')"
    using assms(2) unfolding n targets_def Let_def
    by (intro Publish_step_to [OF bus_invD(1,2) [OF assms(1)]]) simp
  then show ?thesis
    using bus_inv_shape [OF _ _ assms(1)] by (fastforce simp: gives_def step_to_def)
qed

definition one_listener :: "nat bus" where
  "one_listener = snd (Subscribe ''runtime.*'' NewInProcessEventBus)"

definition ready_event :: "nat event" where
  "ready_event = Event ''runtime.ready'' [] [] None (Plain 1) [] []"

lemma bus_inv_one_listener: "bus_inv one_listener"
  by (simp add: one_listener_def Subscribe_def bus_inv_SubscribeFiltered bus_inv_New)

lemma one_listener_simps:
  "table one_listener = [\<lparr>sub_pattern = ''runtime.*'', sub_predicate = None, sub_queue = [],
                 sub_cap = 1000, sub_policy = DropOldest, sub_closed = False\<rparr>]"
  "subscribers one_listener = [(''runtime.*'', [0])]"
  "namespaces one_listener = namespaces (NewInProcessEventBus :: nat bus)" "strictValidation one_listener = True"
  by (simp_all add: one_listener_def Subscribe_def SubscribeFiltered_def Let_def subs_of_def)

lemma Publish_returns_witness:
  "\<exists>e eb'. Publish 2 (\<lambda>_. id) 7 [] ready_event one_listener = Some (Inr (e, eb')) \<and> bus_inv eb'"
  by (rule Publish_returns [OF bus_inv_one_listener])
    (simp add: one_listener_simps pending_def targets_def getMatchingSubscribers_def subs_of_def Let_def)

section \<open>Namespaces and topics\<close>

text \<open>The namespaces are a write-once table, whose key is the prefix without a final dot.\<close>

interpretation ns: once_table RegisterNamespace namespaces "\<lambda>po. trim_suffix ''.'' (fst po)" snd "\<lambda>_. True"
  by unfold_locales (auto simp: RegisterNamespace_def Let_def)

lemma register_core_fresh:
  assumes "namespaces eb (trim_suffix ''.'' pfx) = None"
  shows "namespaces (register_core (pfx, owner) eb) = (namespaces eb)(trim_suffix ''.'' pfx \<mapsto> owner)"
  using ns.reg_fresh [of eb "(pfx, owner)"] assms by (auto simp: register_core_def)

lemma no_final_dot:
  "trim_suffix ''.'' ''runtime'' = ''runtime''" "trim_suffix ''.'' ''execution'' = ''execution''"
  "trim_suffix ''.'' ''health'' = ''health''" "trim_suffix ''.'' ''eventbus'' = ''eventbus''"
  by (code_simp, code_simp, code_simp, code_simp)

lemma namespaces_New:
  "namespaces NewInProcessEventBus =
     [''runtime'' \<mapsto> ''core'', ''execution'' \<mapsto> ''engine'', ''health'' \<mapsto> ''core'', ''eventbus'' \<mapsto> ''core'']"
  by (simp add: NewInProcessEventBus_def register_core_fresh no_final_dot)

text \<open>
  Registering a list of namespaces on a new bus succeeds exactly when, final dots aside, no two
  are equal and none is one of the four the bus reserves; the table then maps each to its owner.
\<close>
theorem namespaces_registered:
  "(let keys = map (\<lambda>po. trim_suffix ''.'' (fst po)) pos;
        free = (distinct keys \<and> set keys \<inter> {''runtime'', ''execution'', ''health'', ''eventbus''} = {})
    in case register_all RegisterNamespace pos (NewInProcessEventBus :: 'a bus) of
         Inl e \<Rightarrow> \<not> free
       | Inr eb \<Rightarrow> free \<and> namespaces eb = namespaces (NewInProcessEventBus :: 'a bus) ++
                    map_of (rev (zip keys (map snd pos))))"
proof -
  have none: "namespaces NewInProcessEventBus k = None \<longleftrightarrow> k \<notin> {''runtime'', ''execution'', ''health'', ''eventbus''}" for k
    by (simp add: namespaces_New)
  have zip: "zip (map (\<lambda>po. trim_suffix ''.'' (fst po)) pos) (map snd pos)
      = map (\<lambda>po. (trim_suffix ''.'' (fst po), snd po)) pos"
    by (simp add: zip_map_map zip_same_conv_map)
  show ?thesis
    using ns.register_all_Inr_iff [of pos "NewInProcessEventBus :: 'a bus"]
      ns.register_all_lookup [of pos "NewInProcessEventBus :: 'a bus"]
    by (auto simp: none Let_def zip disjoint_iff split: sum.splits)
qed

text \<open>
  A new bus accepts exactly the canonical topics; a bus that is not strict accepts every topic
  of a registered namespace.
\<close>
theorem validateTopic_accepts:
  "(validateTopic topic NewInProcessEventBus = None \<longleftrightarrow> topic \<in> set canonicalTopics) \<and>
   (validateTopic topic (SetStrictMode False eb) = None \<longleftrightarrow> namespaces eb (getNamespace topic) \<noteq> None)"
proof -
  have canon: "getNamespace t \<in> {''runtime'', ''execution'', ''health'', ''eventbus''}" if "t \<in> set canonicalTopics" for t
    using that by (auto simp: canonicalTopics_def TopicDeadLetter_def getNamespace_def go_string_simps)
  show ?thesis
    using canon [of topic] by (auto simp: validateTopic_def SetStrictMode_def Let_def namespaces_New)
qed

section \<open>Who receives what\<close>

definition yields :: "'r outcome \<Rightarrow> ('r \<Rightarrow> bool) \<Rightarrow> bool" where
  "yields m P \<longleftrightarrow> (\<forall>r. m = Some (Inr r) \<longrightarrow> P r)"

lemma yields_ok [simp]: "yields (ok r) P \<longleftrightarrow> P r"
  by (simp add: yields_def ok_def)

lemma yields_and_then:
  "yields m P \<Longrightarrow> (\<And>r. P r \<Longrightarrow> yields (f r) Q) \<Longrightarrow> yields (and_then m f) Q"
  by (auto simp: yields_def and_then_def split: option.splits sum.splits)

lemma yields_mono: "yields m P \<Longrightarrow> (\<And>r. P r \<Longrightarrow> Q r) \<Longrightarrow> yields m Q"
  by (auto simp: yields_def)

lemma yields_panic [simp]: "yields (Some (Inl p)) P" "yields None P"
  by (simp_all add: yields_def)

definition chan_of :: "'a bus \<Rightarrow> nat \<Rightarrow> 'a event list" where
  "chan_of eb i = sub_queue (table eb ! i)"

text \<open>\<open>silent j eb eb'\<close>: only queues changed, and the one of subscription \<open>j\<close> did not.\<close>

definition silent :: "nat \<Rightarrow> 'a bus \<Rightarrow> 'a bus \<Rightarrow> bool" where
  "silent j eb eb' \<longleftrightarrow> shape eb' = shape eb \<and> chan_of eb' j = chan_of eb j"

lemma silent_refl [simp]: "silent j eb eb"
  by (simp add: silent_def)

lemma silent_trans: "silent j a b \<Longrightarrow> silent j b c \<Longrightarrow> silent j a c"
  by (simp add: silent_def)

lemma chan_of_set_sub_queue:
  "i < length (table eb) \<Longrightarrow> chan_of (set_sub_queue i q eb) j = (if j = i then q else chan_of eb j)"
  by (simp add: chan_of_def set_sub_queue_nth)

lemma silent_set_sub_queue: "j \<noteq> i \<Longrightarrow> silent j eb (set_sub_queue i q eb)"
  by (cases "i < length (table eb)")
    (simp_all add: silent_def chan_of_set_sub_queue, simp add: set_sub_queue_def list_update_beyond)

text \<open>A dead-letter callback that leaves \<open>j\<close> alone, at every bus of the given shape.\<close>

definition dl_silent ::
  "nat \<Rightarrow> 'a bus \<Rightarrow> ('a event \<Rightarrow> string \<Rightarrow> string \<Rightarrow> string \<Rightarrow> 'a bus \<Rightarrow> 'a bus outcome) \<Rightarrow> bool" where
  "dl_silent j eb0 dl \<longleftrightarrow> (\<forall>ev s w e eb. shape eb = shape eb0 \<longrightarrow> yields (dl ev s w e eb) (silent j eb))"

lemma try_send_other:
  "j \<noteq> i \<Longrightarrow> yields (full eb) (silent j eb) \<Longrightarrow> yields (try_send i ev full eb) (silent j eb)"
  by (simp add: try_send_def Let_def silent_set_sub_queue)

lemma enqueue_other:
  assumes "j \<noteq> i" and dl: "dl_silent j eb dl"
  shows "yields (enqueue dl ev i eb) (silent j eb)"
proof -
  let ?popped = "case sub_queue (table eb ! i) of
       oldest # rest \<Rightarrow>
         dl oldest (sub_name i) ''queue_overflow'' ''queue overflow, oldest dropped'' (set_sub_queue i rest eb)
     | [] \<Rightarrow> ok eb"
  have dl': "yields (dl e s w x eb') (silent j eb')" if "shape eb' = shape eb" for e s w x eb'
    using dl that by (simp add: dl_silent_def)
  have pop: "yields ?popped (silent j eb)"
    using yields_mono [OF dl'] silent_trans [OF silent_set_sub_queue [OF assms(1), of eb]]
    by (auto split: list.split)
  have "yields (and_then ?popped (\<lambda>eb. try_send i ev
      (dl ev (sub_name i) ''queue_overflow'' ''queue is full after drop_oldest'') eb)) (silent j eb)"
  proof (rule yields_and_then [OF pop])
    fix eb1 assume eb1: "silent j eb eb1"
    then have "yields (try_send i ev (dl ev (sub_name i) ''queue_overflow'' ''queue is full after drop_oldest'') eb1)
        (silent j eb1)"
      by (intro try_send_other [OF assms(1)] dl') (simp add: silent_def)
    then show "yields (try_send i ev (dl ev (sub_name i) ''queue_overflow'' ''queue is full after drop_oldest'') eb1)
        (silent j eb)"
      by (rule yields_mono) (rule silent_trans [OF eb1])
  qed
  then show ?thesis
    unfolding enqueue_def using dl' [of eb] by (intro try_send_other [OF assms(1)]) simp
qed

definition offer :: "overflow_policy \<Rightarrow> nat \<Rightarrow> 'a event \<Rightarrow> 'a event list \<Rightarrow> 'a event list" where
  "offer policy = (case policy of DropOldest \<Rightarrow> offer_oldest | DropNewest \<Rightarrow> offer_newest)"

interpretation offer: bounded_buffer "offer policy cap" cap for policy cap
  by (cases policy) (simp_all add: offer_def oldest.bounded_buffer_axioms newest.bounded_buffer_axioms)

text \<open>The queue of the receiver itself, when dead letters do not come back to it.\<close>

definition received :: "nat \<Rightarrow> 'a event \<Rightarrow> 'a bus \<Rightarrow> 'a bus \<Rightarrow> bool" where
  "received i ev eb eb' \<longleftrightarrow> shape eb' = shape eb \<and>
     chan_of eb' i = offer (sub_policy (table eb ! i)) (sub_cap (table eb ! i)) ev (chan_of eb i)"

lemma enqueue_self:
  assumes i: "i < length (table eb)" and dl: "dl_silent i eb dl"
    and b: "length (chan_of eb i) \<le> sub_cap (table eb ! i)" and cap: "0 < sub_cap (table eb ! i)"
  shows "yields (enqueue dl ev i eb) (received i ev eb)"
proof -
  note dl' = dl [unfolded dl_silent_def, rule_format]
  let ?c = "sub_cap (table eb ! i)" and ?q = "chan_of eb i"
  show ?thesis
  proof (cases "sub_closed (table eb ! i)")
    case True
    then show ?thesis by (simp add: enqueue_def try_send_def)
  next
    case False
    show ?thesis
    proof (cases "length ?q < ?c")
      case True
      with False i show ?thesis
        by (simp add: enqueue_def try_send_def Let_def received_def chan_of_def set_sub_queue_nth
            offer_def offer_oldest_def offer_newest_def split: overflow_policy.split)
    next
      case full: False
      show ?thesis
      proof (cases "sub_policy (table eb ! i)")
        case DropNewest
        have "yields (dl ev (sub_name i) ''queue_overflow'' ''queue is full (drop_newest)'' eb) (received i ev eb)"
          by (rule yields_mono [OF dl' [OF refl]])
            (use DropNewest full in \<open>simp add: silent_def received_def offer_def offer_newest_def\<close>)
        with False full DropNewest show ?thesis
          by (simp add: enqueue_def try_send_def Let_def chan_of_def)
      next
        case DropOldest
        from full cap obtain oldest rest where q: "?q = oldest # rest" by (cases ?q) auto
        let ?eb = "set_sub_queue i rest eb"
        from b have rest: "length rest < ?c" using q by simp
        have "yields (and_then (dl oldest (sub_name i) ''queue_overflow'' ''queue overflow, oldest dropped'' ?eb)
            (\<lambda>eb. try_send i ev (dl ev (sub_name i) ''queue_overflow'' ''queue is full after drop_oldest'') eb))
            (received i ev eb)"
        proof (rule yields_and_then [OF dl'])
          fix eb1 assume eb1: "silent i ?eb eb1"
          then have sh: "shape eb1 = shape eb" and q1: "sub_queue (table eb1 ! i) = rest"
            by (simp_all add: silent_def) (simp add: chan_of_def set_sub_queue_nth [OF i])
          have i1: "i < length (table eb1)" using shape_eqD(4) [OF sh] i by simp
          note fields = shape_eq_fields [OF sh i1]
          show "yields (try_send i ev (dl ev (sub_name i) ''queue_overflow'' ''queue is full after drop_oldest'') eb1)
              (received i ev eb)"
            using False rest q full DropOldest
            by (simp add: try_send_def Let_def fields q1 received_def sh chan_of_set_sub_queue [OF i1] offer_def
                offer_oldest_def)
        qed simp
        with False full DropOldest q show ?thesis
          by (simp add: enqueue_def try_send_def [of i ev _ eb] Let_def chan_of_def)
      qed
    qed
  qed
qed

text \<open>One round over a list of receivers that holds \<open>j\<close> at most once.\<close>

lemma enqueue_all_other:
  "j \<notin> set is \<Longrightarrow> dl_silent j eb dl \<Longrightarrow> yields (enqueue_all dl ev is eb) (silent j eb)"
proof (induction "is" arbitrary: eb)
  case Nil
  then show ?case by simp
next
  case (Cons i "is")
  have "yields (and_then (enqueue dl ev i eb) (enqueue_all dl ev is)) (silent j eb)"
  proof (rule yields_and_then [OF enqueue_other])
    show "j \<noteq> i" "dl_silent j eb dl" using Cons.prems by auto
    fix eb1 assume eb1: "silent j eb eb1"
    then have "yields (enqueue_all dl ev is eb1) (silent j eb1)"
      using Cons by (intro Cons.IH) (auto simp: dl_silent_def silent_def)
    then show "yields (enqueue_all dl ev is eb1) (silent j eb)"
      by (rule yields_mono) (rule silent_trans [OF eb1])
  qed
  then show ?case by simp
qed

lemma enqueue_all_append:
  "enqueue_all dl ev (is @ js) eb = and_then (enqueue_all dl ev is eb) (enqueue_all dl ev js)"
  by (induction "is" arbitrary: eb)
    (auto simp: and_then_def ok_def split: option.splits sum.splits)

text \<open>\<open>receives\<close>: the subscription is listed, its pattern and its predicate accept the event.\<close>

definition wants :: "'a bus \<Rightarrow> nat \<Rightarrow> 'a event \<Rightarrow> bool" where
  "wants eb i ev \<longleftrightarrow> matchTopic (sub_pattern (table eb ! i)) (Topic ev) \<and>
     (case sub_predicate (table eb ! i) of None \<Rightarrow> True | Some f \<Rightarrow> f ev)"

definition listed :: "'a bus \<Rightarrow> nat \<Rightarrow> bool" where
  "listed eb i \<longleftrightarrow> i \<in> set (subs_of eb (sub_pattern (table eb ! i)))"

text \<open>A range over a Go map visits every key once, in any order.\<close>

definition ranges :: "('a event \<Rightarrow> string list \<Rightarrow> string list) \<Rightarrow> bool" where
  "ranges rng \<longleftrightarrow> (\<forall>ev ks. mset (rng ev ks) = mset ks)"

lemma ranges_id [simp]: "ranges (\<lambda>_. id)"
  by (simp add: ranges_def)

lemma subs_of_key: "i \<in> set (subs_of eb p) \<Longrightarrow> p \<in> set (map fst (subscribers eb))"
  using map_of_eq_None_iff [of "subscribers eb" p] by (auto simp: subs_of_def split: option.splits)

lemma matching_iff:
  assumes "bus_inv eb" and "ranges rng"
  shows "i \<in> set (getMatchingSubscribers (rng ev) ev eb) \<longleftrightarrow> listed eb i \<and> wants eb i ev"
proof -
  have "set (rng ev (map fst (subscribers eb))) = set (map fst (subscribers eb))"
    using assms(2) by (metis ranges_def set_mset_mset)
  then have "i \<in> set (getMatchingSubscribers (rng ev) ev eb) \<longleftrightarrow>
      (\<exists>p\<in>set (map fst (subscribers eb)). matchTopic p (Topic ev) \<and> i \<in> set (subs_of eb p) \<and>
         (case sub_predicate (table eb ! i) of None \<Rightarrow> True | Some f \<Rightarrow> f ev))"
    by (auto simp: getMatchingSubscribers_def split: if_splits)
  also have "\<dots> \<longleftrightarrow> listed eb i \<and> wants eb i ev"
    using subs_of_key [of i eb] bus_invD(4) [OF assms(1), of i] unfolding listed_def wants_def by blast
  finally show ?thesis .
qed

lemma matching_distinct:
  assumes "bus_inv eb" and "ranges rng"
  shows "distinct (getMatchingSubscribers (rng ev) ev eb)"
proof -
  let ?m = "\<lambda>p. if \<not> matchTopic p (Topic ev) then []
         else filter (\<lambda>i. case sub_predicate (table eb ! i) of None \<Rightarrow> True | Some f \<Rightarrow> f ev) (subs_of eb p)"
  have m: "distinct (?m p)" "i \<in> set (?m p) \<Longrightarrow> sub_pattern (table eb ! i) = p" for p i
    using bus_invD(3) [OF assms(1), of p] bus_invD(4) [OF assms(1), of _ p] by (auto split: if_splits)
  have "distinct (concat (map ?m ps))" if "distinct ps" for ps
    using that
  proof (induction ps)
    case Nil
    show ?case by simp
  next
    case (Cons p ps)
    have "i \<notin> set (concat (map ?m ps))" if "i \<in> set (?m p)" for i
    proof
      assume "i \<in> set (concat (map ?m ps))"
      then obtain p' where "p' \<in> set ps" "i \<in> set (?m p')" by auto
      then show False using m(2) [OF that] m(2) [of i p'] Cons.prems by auto
    qed
    then show ?case using Cons m(1) [of p] by (simp only: list.map concat.simps distinct_append) auto
  qed
  moreover have "distinct (rng ev (map fst (subscribers eb)))"
    using assms(2) bus_invD(5) [OF assms(1)] by (metis ranges_def mset_eq_imp_distinct_iff)
  ultimately show ?thesis unfolding getMatchingSubscribers_def by blast
qed

lemma shape_wants: "shape eb' = shape eb \<Longrightarrow> i < length (table eb) \<Longrightarrow> wants eb' i = wants eb i"
  using shape_eq_fields(4,5) [of eb' eb i] shape_eqD(4) [of eb' eb] by (simp add: wants_def fun_eq_iff)

lemma shape_listed: "shape eb' = shape eb \<Longrightarrow> i < length (table eb) \<Longrightarrow> listed eb' i = listed eb i"
  using shape_eq_fields(5) [of eb' eb i] shape_eqD(4,5) [of eb' eb] by (simp add: listed_def)

lemma shape_validateTopic: "shape eb' = shape eb \<Longrightarrow> validateTopic topic eb' = validateTopic topic eb"
  using shape_eqD(2,3) [of eb' eb] by (simp add: validateTopic_def Let_def)

lemma matching_shape:
  assumes "shape eb' = shape eb" and "subs_live eb"
  shows "getMatchingSubscribers r ev eb' = getMatchingSubscribers r ev eb"
proof -
  have "filter (\<lambda>i. case sub_predicate (table eb' ! i) of None \<Rightarrow> True | Some f \<Rightarrow> f ev) (subs_of eb p)
      = filter (\<lambda>i. case sub_predicate (table eb ! i) of None \<Rightarrow> True | Some f \<Rightarrow> f ev) (subs_of eb p)" for p
    using shape_eq_fields(4) [OF assms(1)] shape_eqD(4) [OF assms(1)] assms(2)
    by (intro filter_cong) (auto simp: subs_live_def live_def)
  then show ?thesis using shape_eqD(1,5) [OF assms(1)] by (simp add: getMatchingSubscribers_def cong: if_cong)
qed

text \<open>A subscription that does not want dead letters is not touched by dead letters.\<close>

definition deaf :: "nat \<Rightarrow> 'a bus \<Rightarrow> bool" where
  "deaf j eb \<longleftrightarrow> \<not> matchTopic (sub_pattern (table eb ! j)) TopicDeadLetter"

lemma deadLetter_silent:
  assumes inv: "bus_inv eb0" and j: "j < length (table eb0)" and deaf: "deaf j eb0" and rng: "ranges rng"
  shows "dl_silent j eb0 (deadLetter n rng now)"
proof (induction n)
  case 0
  show ?case by (simp add: dl_silent_def deadLetter_def and_then_def)
next
  case (Suc n)
  show ?case unfolding dl_silent_def
  proof (intro allI impI)
    fix ev :: "'a event" and s w e and eb :: "'a bus"
    assume sh: "shape eb = shape eb0"
    let ?dl = "with_trace [] (normalize now (dead_letter_event now ev s w e))"
    have "j \<notin> set (getMatchingSubscribers (rng ?dl) ?dl eb)"
      using deaf matching_iff [OF inv rng, of j ?dl] matching_shape [OF sh bus_invD(2) [OF inv], of "rng ?dl" ?dl]
      by (simp add: wants_def deaf_def)
    then have "yields (enqueue_all (deadLetter n rng now) ?dl (getMatchingSubscribers (rng ?dl) ?dl eb) eb) (silent j eb)"
      using Suc sh by (intro enqueue_all_other) (simp_all add: dl_silent_def)
    then have "yields (and_then (enqueue_all (deadLetter n rng now) ?dl (getMatchingSubscribers (rng ?dl) ?dl eb) eb)
        (\<lambda>eb. ok (None, eb))) (\<lambda>(_, eb'). silent j eb eb')"
      by (rule yields_and_then) simp
    then have "yields (Publish (Suc n) rng now [] (dead_letter_event now ev s w e) eb) (\<lambda>(_, eb'). silent j eb eb')"
      by (auto simp: Publish_Suc Let_def split: option.split)
    then have "yields (and_then (Publish (Suc n) rng now [] (dead_letter_event now ev s w e) eb) (\<lambda>(_, eb). ok eb)) (silent j eb)"
      by (rule yields_and_then) auto
    then show "yields (deadLetter (Suc n) rng now ev s w e eb) (silent j eb)"
      by (simp add: deadLetter_def)
  qed
qed

text \<open>The event as subscribers see it.\<close>

definition stamped :: "instant \<Rightarrow> string \<Rightarrow> 'a event \<Rightarrow> 'a event" where
  "stamped now tid ev = with_trace tid (normalize now ev)"

definition accepted_by :: "'a bus \<Rightarrow> nat \<Rightarrow> 'a event \<Rightarrow> bool" where
  "accepted_by eb j ev \<longleftrightarrow> validateTopic (Topic ev) eb = None \<and> wants eb j ev"

definition after_offer :: "'a bus \<Rightarrow> nat \<Rightarrow> 'a event \<Rightarrow> 'a event list" where
  "after_offer eb j ev =
     (if accepted_by eb j ev then offer (sub_policy (table eb ! j)) (sub_cap (table eb ! j)) ev (chan_of eb j)
      else chan_of eb j)"

lemma Publish_delivers:
  assumes inv: "bus_inv eb" and j: "listed eb j" and deaf: "deaf j eb" and rng: "ranges rng"
    and cap: "0 < sub_cap (table eb ! j)"
  shows "yields (Publish n rng now tid ev eb)
     (\<lambda>(e, eb'). e = validateTopic (Topic (stamped now tid ev)) eb \<and> shape eb' = shape eb \<and>
        chan_of eb' j = after_offer eb j (stamped now tid ev))"
proof (cases n)
  case 0
  then show ?thesis by simp
next
  case (Suc m)
  let ?ev = "stamped now tid ev"
  let ?is = "getMatchingSubscribers (rng ?ev) ?ev eb"
  let ?dl = "deadLetter m rng now"
  have jt: "j < length (table eb)"
    using bus_invD(2) [OF inv] j by (auto simp: listed_def subs_live_def live_def)
  have dl: "dl_silent j eb ?dl" by (rule deadLetter_silent [OF inv jt deaf rng])
  have top: "Topic ?ev = Topic (normalize now ev)" by (simp add: stamped_def)
  show ?thesis
  proof (cases "validateTopic (Topic ?ev) eb")
    case (Some e)
    then show ?thesis by (simp add: Suc Publish_Suc top after_offer_def accepted_by_def)
  next
    case None
    have "yields (enqueue_all ?dl ?ev ?is eb)
        (\<lambda>eb'. shape eb' = shape eb \<and> chan_of eb' j = after_offer eb j ?ev)"
    proof (cases "wants eb j ?ev")
      case False
      then have "j \<notin> set ?is" using matching_iff [OF inv rng, of j ?ev] by simp
      from yields_mono [OF enqueue_all_other [OF this dl]] show ?thesis
        using False by (auto simp: silent_def after_offer_def accepted_by_def)
    next
      case True
      then have "j \<in> set ?is" using matching_iff [OF inv rng, of j ?ev] j by simp
      then obtain us vs where uv: "?is = us @ j # vs" "j \<notin> set us" "j \<notin> set vs"
        using matching_distinct [OF inv rng, of ?ev] by (metis distinct.simps(2) distinct_append split_list not_distinct_conv_prefix)
      have "yields (and_then (enqueue_all ?dl ?ev us eb) (enqueue_all ?dl ?ev (j # vs))) (received j ?ev eb)"
      proof (rule yields_and_then [OF enqueue_all_other [OF uv(2) dl]])
        fix eb1 assume s1: "silent j eb eb1"
        then have sh1: "shape eb1 = shape eb" and q1: "chan_of eb1 j = chan_of eb j" by (simp_all add: silent_def)
        have j1: "j < length (table eb1)" using shape_eqD(4) [OF sh1] jt by simp
        note f1 = shape_eq_fields [OF sh1 j1]
        have dl1: "dl_silent j eb1 ?dl" using dl sh1 by (simp add: dl_silent_def)
        have "yields (and_then (enqueue ?dl ?ev j eb1) (enqueue_all ?dl ?ev vs)) (received j ?ev eb)"
        proof (rule yields_and_then [OF enqueue_self [OF j1 dl1]])
          show "length (chan_of eb1 j) \<le> sub_cap (table eb1 ! j)" "0 < sub_cap (table eb1 ! j)"
            using boundedD [OF bus_invD(1) [OF inv] jt] cap by (simp_all add: q1 [unfolded chan_of_def] chan_of_def f1)
          fix eb2 assume r2: "received j ?ev eb1 eb2"
          then have "dl_silent j eb2 ?dl" using dl1 by (simp add: dl_silent_def received_def)
          from enqueue_all_other [OF uv(3) this]
          show "yields (enqueue_all ?dl ?ev vs eb2) (received j ?ev eb)"
            by (rule yields_mono) (use r2 in \<open>simp add: received_def silent_def f1 q1 sh1\<close>)
        qed
        then show "yields (enqueue_all ?dl ?ev (j # vs) eb1) (received j ?ev eb)" by simp
      qed
      then show ?thesis unfolding uv(1) enqueue_all_append
        by (rule yields_mono) (use True None in \<open>simp add: received_def after_offer_def accepted_by_def\<close>)
    qed
    then have "yields (and_then (enqueue_all ?dl ?ev ?is eb) (\<lambda>eb. ok (None, eb)))
        (\<lambda>(e, eb'). e = None \<and> shape eb' = shape eb \<and> chan_of eb' j = after_offer eb j ?ev)"
      by (rule yields_and_then) simp
    then show ?thesis
      using None by (simp add: Suc Publish_Suc top Let_def stamped_def [symmetric])
  qed
qed

section \<open>A sequence of publications\<close>

text \<open>Each with the clock that its publisher reads.\<close>

fun publish_all ::
  "nat \<Rightarrow> ('a event \<Rightarrow> string list \<Rightarrow> string list) \<Rightarrow> string \<Rightarrow> (instant \<times> 'a event) list \<Rightarrow> 'a bus \<Rightarrow> 'a bus outcome" where
  "publish_all n rng tid [] eb = ok eb"
| "publish_all n rng tid ((now, ev) # evs) eb =
     and_then (Publish n rng now tid ev eb) (\<lambda>(_, eb). publish_all n rng tid evs eb)"

text \<open>Fuel that is enough at every moment: room for every queue to be full, plus the receivers.\<close>

definition fuel_bound :: "'a bus \<Rightarrow> nat" where
  "fuel_bound eb = sum_list (map sub_cap (table eb)) + length (table eb)"

lemma shape_fuel_bound:
  assumes "shape eb' = shape eb"
  shows "fuel_bound eb' = fuel_bound eb"
proof -
  have "map sub_cap (table eb') = map sub_cap (table eb)"
    using shape_eq_fields(2) [OF assms] shape_eqD(4) [OF assms] by (intro nth_equalityI) auto
  then show ?thesis using shape_eqD(4) [OF assms] by (simp add: fuel_bound_def)
qed

lemma fuel_bound_enough:
  assumes "bus_inv eb" and "ranges rng"
  shows "pending eb + length (targets rng now tid ev eb) \<le> fuel_bound eb"
proof -
  have "pending eb \<le> sum_list (map sub_cap (table eb))" unfolding pending_def
  proof (rule sum_list_mono)
    fix sub assume "sub \<in> set (table eb)"
    then have "length (sub_queue sub) \<le> sub_cap sub" using bus_invD(1) [OF assms(1)] by (simp add: bounded_def)
    then show "length (filter ordinary (sub_queue sub)) \<le> sub_cap sub"
      using length_filter_le order_trans by blast
  qed
  moreover have "length (targets rng now tid ev eb) \<le> length (table eb)"
  proof -
    have "distinct (targets rng now tid ev eb)" "set (targets rng now tid ev eb) \<subseteq> {..<length (table eb)}"
      using matching_distinct [OF assms] matching_live [OF bus_invD(2) [OF assms(1)]]
      by (auto simp: targets_def Let_def live_def)
    then show ?thesis using card_mono [of "{..<length (table eb)}" "set (targets rng now tid ev eb)"]
      by (simp add: distinct_card)
  qed
  ultimately show ?thesis by (simp add: fuel_bound_def)
qed

lemma Publish_one:
  assumes "bus_inv eb" and "listed eb j" and "deaf j eb" and "ranges rng" and "0 < sub_cap (table eb ! j)"
    and "fuel_bound eb < n"
  obtains e eb' where "Publish n rng now tid ev eb = Some (Inr (e, eb'))" "bus_inv eb'" "shape eb' = shape eb"
    "chan_of eb' j = after_offer eb j (stamped now tid ev)"
proof -
  obtain e eb' where p: "Publish n rng now tid ev eb = Some (Inr (e, eb'))"
    and "gives (Publish n rng now tid ev eb) (\<lambda>(e, eb'). step_to eb eb')"
  proof -
    obtain m where n: "n = Suc m" using assms(6) by (cases n) auto
    have "gives (Publish n rng now tid ev eb) (\<lambda>(e, eb'). step_to eb eb')"
      unfolding n using fuel_bound_enough [OF assms(1,4), of now tid ev] assms(6) n
      by (intro Publish_step_to [OF bus_invD(1,2) [OF assms(1)]]) (simp add: targets_def Let_def)
    then show thesis using that by (auto simp: gives_def)
  qed
  then have "shape eb' = shape eb" "bounded eb'" by (auto simp: gives_def step_to_def)
  moreover have "chan_of eb' j = after_offer eb j (stamped now tid ev)"
    using Publish_delivers [OF assms(1-5), of n now tid ev] p by (simp add: yields_def)
  ultimately show thesis using that p bus_inv_shape [OF _ _ assms(1)] by blast
qed

lemma publish_all_offers:
  assumes "bus_inv eb" and "listed eb j" and "deaf j eb" and "ranges rng" and "0 < sub_cap (table eb ! j)"
    and "fuel_bound eb < n"
  shows "\<exists>eb'. publish_all n rng tid evs eb = Some (Inr eb') \<and> bus_inv eb' \<and>
     chan_of eb' j = fold (offer (sub_policy (table eb ! j)) (sub_cap (table eb ! j)))
       (filter (accepted_by eb j) (map (\<lambda>(now, ev). stamped now tid ev) evs)) (chan_of eb j)"
  using assms
proof (induction evs arbitrary: eb)
  case Nil
  then show ?case by (simp add: ok_def)
next
  case (Cons x evs)
  obtain now ev where x: "x = (now, ev)" by (cases x)
  have jt: "j < length (table eb)"
    using bus_invD(2) [OF Cons.prems(1)] Cons.prems(2) by (auto simp: listed_def subs_live_def live_def)
  obtain e eb1 where p: "Publish n rng now tid ev eb = Some (Inr (e, eb1))" "bus_inv eb1" "shape eb1 = shape eb"
    and q: "chan_of eb1 j = after_offer eb j (stamped now tid ev)"
    using Publish_one [OF Cons.prems] by metis
  have jt1: "j < length (table eb1)" using shape_eqD(4) [OF p(3)] jt by simp
  note f = shape_eq_fields [OF p(3) jt1]
  have acc: "accepted_by eb1 j = accepted_by eb j"
    using shape_wants [OF p(3) jt] shape_validateTopic [OF p(3)] by (simp add: accepted_by_def fun_eq_iff)
  have "listed eb1 j" "deaf j eb1" "0 < sub_cap (table eb1 ! j)" "fuel_bound eb1 < n"
    using Cons.prems shape_listed [OF p(3) jt] shape_fuel_bound [OF p(3)] by (simp_all add: f deaf_def)
  from Cons.IH [OF p(2) this(1,2) Cons.prems(4) this(3,4)]
  show ?case
    by (cases "accepted_by eb j (stamped now tid ev)") (simp_all add: x and_then_def p(1) acc f q after_offer_def)
qed

text \<open>
  C18: delivery.  Let \<open>j\<close> be a subscription whose pattern does not match the dead-letter topic, and
  let events be published one after the other while its handler does not run.  Every publication
  returns, and what the handler finds is determined: of the queue and the accepted events in order,
  the first \<open>cap\<close> under DropNewest, the last \<open>cap\<close> under DropOldest.  Nothing is reordered or
  duplicated, and nothing an overflow elsewhere does reaches \<open>j\<close>.
\<close>
theorem delivery_in_order:
  assumes "bus_inv eb" and "listed eb j" and "deaf j eb" and "ranges rng" and "0 < sub_cap (table eb ! j)"
    and "fuel_bound eb < n"
  shows "\<exists>eb'. publish_all n rng tid evs eb = Some (Inr eb') \<and>
     (let accepted = filter (accepted_by eb j) (map (\<lambda>(now, ev). stamped now tid ev) evs);
          all = chan_of eb j @ accepted; cap = sub_cap (table eb ! j)
      in chan_of eb' j = (case sub_policy (table eb ! j) of
            DropNewest \<Rightarrow> take cap all
          | DropOldest \<Rightarrow> drop (length all - cap) all))"
proof -
  have "j < length (table eb)"
    using bus_invD(2) [OF assms(1)] assms(2) by (auto simp: listed_def subs_live_def live_def)
  then have "length (chan_of eb j) \<le> sub_cap (table eb ! j)"
    using boundedD [OF bus_invD(1) [OF assms(1)]] by (simp add: chan_of_def)
  then show ?thesis
    using publish_all_offers [OF assms, of tid evs] assms(5)
    by (auto simp: Let_def offer_def fold_offer_oldest fold_offer_newest split: overflow_policy.split)
qed

definition listener2 :: "nat bus" where
  "listener2 = snd (Subscribe ''runtime.*'' (SetQueueCapacity 2 NewInProcessEventBus))"

lemma listener2_simps:
  "table listener2 = [\<lparr>sub_pattern = ''runtime.*'', sub_predicate = None, sub_queue = [],
                 sub_cap = 2, sub_policy = DropOldest, sub_closed = False\<rparr>]"
  "subscribers listener2 = [(''runtime.*'', [0])]"
  by (simp_all add: listener2_def Subscribe_def SubscribeFiltered_def Let_def SetQueueCapacity_def subs_of_def)

lemma bus_inv_listener2: "bus_inv listener2"
  unfolding listener2_def Subscribe_def
  by (rule bus_inv_SubscribeFiltered)
    (simp add: bus_inv_def bounded_def subs_live_def subs_of_def SetQueueCapacity_def)

lemma delivery_in_order_witness:
  "\<exists>eb'. publish_all 4 (\<lambda>_. id) [] [(7, ready_event), (8, ready_event), (9, ready_event)] listener2 = Some (Inr eb') \<and>
     (let accepted = filter (accepted_by listener2 0)
            (map (\<lambda>(now, ev). stamped now [] ev) [(7, ready_event), (8, ready_event), (9, ready_event)]);
          all = chan_of listener2 0 @ accepted; cap = sub_cap (table listener2 ! 0)
      in chan_of eb' 0 = (case sub_policy (table listener2 ! 0) of
            DropNewest \<Rightarrow> take cap all
          | DropOldest \<Rightarrow> drop (length all - cap) all))"
proof (rule delivery_in_order [OF bus_inv_listener2])
  show "deaf 0 listener2" unfolding deaf_def listener2_simps by code_simp
qed (simp_all add: listed_def listener2_simps subs_of_def fuel_bound_def)

section \<open>Handlers\<close>


section \<open>Events that are lost, and a panic\<close>

text \<open>
  After \<open>unsubscribe\<close> no later publication reaches the subscription and the invariant stays.
  But a publication that computed its receivers before panics when it comes to this one:
  its channel is closed, and the send is not guarded.
\<close>
theorem unsubscribe_effect:
  assumes "bus_inv eb" and "live eb i" and "ranges rng"
  shows "bus_inv (unsubscribe i eb) \<and> i \<notin> set (targets rng now tid ev (unsubscribe i eb)) \<and>
     unsubscribe i (unsubscribe i eb) = unsubscribe i eb \<and>
     enqueue dl ev' i (unsubscribe i eb) = Some (Inl ''send on closed channel'')"
proof -
  have i: "i < length (table eb)" "\<not> sub_closed (table eb ! i)" using assms(2) by (simp_all add: live_def)
  have closed: "sub_closed (table (unsubscribe i eb) ! i)" by (simp add: unsubscribe_tables(1) [OF i] i)
  have inv: "bus_inv (unsubscribe i eb)" by (rule bus_inv_unsubscribe [OF assms(1)])
  moreover have "i \<notin> set (targets rng now tid ev (unsubscribe i eb))"
    using matching_live [OF bus_invD(2) [OF inv]] closed by (auto simp: targets_def Let_def live_def)
  moreover have "unsubscribe i (unsubscribe i eb) = unsubscribe i eb"
    using closed by (simp add: unsubscribe_def [of i "unsubscribe i eb"])
  moreover have "enqueue dl ev' i (unsubscribe i eb) = Some (Inl ''send on closed channel'')"
    using closed by (simp add: enqueue_def try_send_def)
  ultimately show ?thesis by blast
qed

lemma unsubscribe_effect_witness:
  "bus_inv (unsubscribe 0 listener2) \<and> 0 \<notin> set (targets (\<lambda>_. id) 7 [] ready_event (unsubscribe 0 listener2)) \<and>
     unsubscribe 0 (unsubscribe 0 listener2) = unsubscribe 0 listener2 \<and>
     enqueue (deadLetter 3 (\<lambda>_. id) 7) ready_event 0 (unsubscribe 0 listener2) = Some (Inl ''send on closed channel'')"
  by (rule unsubscribe_effect [OF bus_inv_listener2]) (simp_all add: live_def listener2_simps)

text \<open>
  A bus with one subscriber, of all topics; its channel of capacity \<open>cap\<close> holds \<open>q\<close>.  The bus
  accepts dead letters.
\<close>

definition catch_all :: "nat \<Rightarrow> 'a event list \<Rightarrow> 'a bus \<Rightarrow> bool" where
  "catch_all cap q eb \<longleftrightarrow> subscribers eb = [(''*'', [0])] \<and>
     table eb = [\<lparr>sub_pattern = ''*'', sub_predicate = None, sub_queue = q, sub_cap = cap,
                 sub_policy = DropOldest, sub_closed = False\<rparr>] \<and>
     validateTopic TopicDeadLetter eb = None"

lemma ranges_single: "ranges rng \<Longrightarrow> rng ev [k] = [k]"
  unfolding ranges_def by (metis mset_single_iff_right mset.simps(1) mset.simps(2))

lemma catch_all_matching:
  "catch_all cap q eb \<Longrightarrow> ranges rng \<Longrightarrow> getMatchingSubscribers (rng ev) ev eb = [0]"
  by (simp add: getMatchingSubscribers_def catch_all_def ranges_single subs_of_def matchTopic_def)

lemma catch_all_set: "catch_all cap q eb \<Longrightarrow> catch_all cap q' (set_sub_queue 0 q' eb)"
  using shape_validateTopic [OF shape_set_sub_queue, of TopicDeadLetter 0 q' eb]
  by (simp add: catch_all_def) (simp add: set_sub_queue_def)

lemma set_sub_queue_twice [simp]: "set_sub_queue i q' (set_sub_queue i q eb) = set_sub_queue i q' eb"
  by (cases "i < length (table eb)") (simp_all add: set_sub_queue_def list_update_beyond)

abbreviation dropped :: "instant \<Rightarrow> 'a event \<Rightarrow> 'a event" where
  "dropped now ev \<equiv> stamped now [] (dead_letter_event now ev (sub_name 0) ''queue_overflow'' ''queue overflow, oldest dropped'')"

lemma catch_all_room:
  assumes "catch_all cap q eb" and "ranges rng" and "length q < cap" and "ordinary ev"
  shows "deadLetter (Suc n) rng now ev s w e eb =
     ok (set_sub_queue 0 (q @ [stamped now [] (dead_letter_event now ev s w e)]) eb)"
  using assms(1,3,4)
  by (simp add: deadLetter_def ordinary_def Publish_Suc Let_def catch_all_matching [OF assms(1,2)] enqueue_def
      try_send_def catch_all_def stamped_def)

lemma catch_all_evict:
  assumes "catch_all cap (b # q) eb" and "ranges rng" and "length q + 1 = cap" and "ordinary b"
  shows "enqueue (deadLetter (Suc n) rng now) dl 0 eb =
     (if ordinary dl then and_then (ok (set_sub_queue 0 (q @ [dropped now b]) eb))
         (deadLetter (Suc n) rng now dl (sub_name 0) ''queue_overflow'' ''queue is full after drop_oldest'')
      else ok (set_sub_queue 0 (q @ [dropped now b]) eb))"
proof -
  let ?eb = "set_sub_queue 0 q eb" and ?eb' = "set_sub_queue 0 (q @ [dropped now b]) eb"
  have c: "catch_all cap q ?eb" "catch_all cap (q @ [dropped now b]) ?eb'"
    by (rule catch_all_set [OF assms(1)])+
  have room: "deadLetter (Suc n) rng now b (sub_name 0) ''queue_overflow'' ''queue overflow, oldest dropped'' ?eb = ok ?eb'"
    using catch_all_room [OF c(1) assms(2) _ assms(4)] assms(3) by simp
  have full: "try_send 0 ev f ?eb' = f ?eb'" for ev f
    using c(2) assms(3) by (simp add: try_send_def catch_all_def)
  have "enqueue (deadLetter (Suc n) rng now) dl 0 eb =
      deadLetter (Suc n) rng now dl (sub_name 0) ''queue_overflow'' ''queue is full after drop_oldest'' ?eb'"
    using assms(1,3) room by (simp add: enqueue_def try_send_def [of _ _ _ eb] catch_all_def full)
  then show ?thesis by (simp add: deadLetter_def [of _ _ _ dl] ordinary_def)
qed

text \<open>
  A subscriber of every topic also receives the dead letters of its own overflow.  When its
  DropOldest queue is full of ordinary events, publishing one event evicts two and queues their
  two dead letters: the event itself is not delivered, and no dead letter mentions it, although
  \<open>Publish\<close> reports success.
\<close>
theorem catch_all_loses_event:
  assumes "catch_all cap (a # b # q) eb" and "ranges rng" and "cap = length q + 2"
    and "ordinary a" and "ordinary b" and "Topic (normalize now ev) \<noteq> TopicDeadLetter"
    and "validateTopic (Topic (normalize now ev)) eb = None"
  shows "Publish (Suc (Suc (Suc n))) rng now tid ev eb =
     Some (Inr (None, set_sub_queue 0 (q @ [dropped now a, dropped now b]) eb))"
proof -
  let ?eb1 = "set_sub_queue 0 ((b # q) @ [dropped now a]) eb"
  let ?eb2 = "set_sub_queue 0 (q @ [dropped now a, dropped now b]) eb"
  let ?dl = "dead_letter_event now (stamped now tid ev) (sub_name 0) ''queue_overflow'' ''queue is full after drop_oldest''"
  have c1: "catch_all cap (b # (q @ [dropped now a])) ?eb1"
    using catch_all_set [OF assms(1), of "(b # q) @ [dropped now a]"] by simp
  have ord: "ordinary (stamped now tid ev)" "\<not> ordinary (stamped now [] ?dl)"
    using assms(6) by (simp_all add: ordinary_def stamped_def)
  have "enqueue (deadLetter (Suc n) rng now) (stamped now [] ?dl) 0 ?eb1 = ok ?eb2"
    using catch_all_evict [OF c1 assms(2) _ assms(5)] assms(3) ord(2) by simp
  then have "deadLetter (Suc (Suc n)) rng now (stamped now tid ev) (sub_name 0) ''queue_overflow''
      ''queue is full after drop_oldest'' ?eb1 = ok ?eb2"
    using c1 ord(1) catch_all_matching [OF c1 assms(2)]
    by (simp add: deadLetter_def [of "Suc (Suc n)"] ordinary_def Publish_Suc Let_def catch_all_def
        stamped_def [symmetric] cong: option.case_cong)
  then have "enqueue (deadLetter (Suc (Suc n)) rng now) (stamped now tid ev) 0 eb = ok ?eb2"
    using catch_all_evict [OF assms(1,2) _ assms(4)] assms(3) ord(1) by simp
  then show ?thesis
    using assms(7) catch_all_matching [OF assms(1,2)]
    by (simp add: Publish_Suc [of "Suc (Suc n)"] Let_def stamped_def [symmetric] ok_def and_then_def)
qed

definition full_star :: "nat bus" where
  "full_star = set_sub_queue 0 [stamped 1 [] ready_event, stamped 2 [] ready_event]
     (snd (Subscribe ''*'' (SetQueueCapacity 2 NewInProcessEventBus)))"

lemma full_star_simps:
  "table full_star = [\<lparr>sub_pattern = ''*'', sub_predicate = None,
      sub_queue = [stamped 1 [] ready_event, stamped 2 [] ready_event],
      sub_cap = 2, sub_policy = DropOldest, sub_closed = False\<rparr>]"
  "subscribers full_star = [(''*'', [0])]" "namespaces full_star = namespaces (NewInProcessEventBus :: nat bus)"
  "strictValidation full_star"
  by (simp_all add: full_star_def Subscribe_def SubscribeFiltered_def Let_def SetQueueCapacity_def subs_of_def
      set_sub_queue_def)

lemma full_star_validates: "validateTopic t full_star = validateTopic t (NewInProcessEventBus :: nat bus)"
  by (simp add: validateTopic_def full_star_simps Let_def)

lemma core_topics_validate:
  "validateTopic TopicDeadLetter NewInProcessEventBus = None"
  "validateTopic ''runtime.ready'' NewInProcessEventBus = None"
  by (auto simp: validateTopic_def Let_def namespaces_New canonicalTopics_def getNamespace_def TopicDeadLetter_def
      go_string_simps)

lemma catch_all_loses_event_witness:
  "Publish 3 (\<lambda>_. id) 7 [] ready_event full_star =
     Some (Inr (None, set_sub_queue 0 ([] @ [dropped 7 (stamped 1 [] ready_event), dropped 7 (stamped 2 [] ready_event)]) full_star))"
proof -
  have "catch_all 2 (stamped 1 [] ready_event # stamped 2 [] ready_event # []) full_star"
    by (simp add: catch_all_def full_star_simps full_star_validates core_topics_validate)
  then have "Publish (Suc (Suc (Suc 0))) (\<lambda>_. id) 7 [] ready_event full_star =
     Some (Inr (None, set_sub_queue 0 ([] @ [dropped 7 (stamped 1 [] ready_event), dropped 7 (stamped 2 [] ready_event)]) full_star))"
    by (rule catch_all_loses_event)
      (simp_all add: ordinary_def stamped_def ready_event_def TopicDeadLetter_def full_star_validates core_topics_validate)
  then show ?thesis by (simp add: numeral_3_eq_3)
qed

end
