(* ===== verification/Go_Any.thy ===== *)
theory Go_Any
  imports Go_Base
begin

text \<open>
  Values of the Go type \<open>any\<close> as far as the code looks into them, and their \<open>%v\<close> text.  A map is
  the list of its entries in key order, which is the order \<open>fmt\<close> prints; every other value is
  represented by its \<open>%v\<close> text.
\<close>

datatype any =
    ANil
  | AStr string
  | ABool bool
  | AInt int
  | AMap "(string \<times> any) list"
  | AOther string

fun show_any :: "any \<Rightarrow> string" and show_entries :: "(string \<times> any) list \<Rightarrow> string list" where
  "show_any ANil = ''<nil>''"
| "show_any (AStr s) = s"
| "show_any (ABool b) = (if b then ''true'' else ''false'')"
| "show_any (AInt i) = show_int i"
| "show_any (AMap kvs) = ''map['' @ join_with '' '' (show_entries kvs) @ '']''"
| "show_any (AOther s) = s"
| "show_entries [] = []"
| "show_entries ((k, v) # kvs) = (k @ '':'' @ show_any v) # show_entries kvs"

text \<open>A type assertion \<open>x.(string)\<close>.\<close>

definition as_string :: "any \<Rightarrow> string option" where
  "as_string v = (case v of AStr s \<Rightarrow> Some s | _ \<Rightarrow> None)"

lemma as_string_simps [simp]:
  "as_string ANil = None" "as_string (AStr s) = Some s" "as_string (ABool b) = None"
  "as_string (AInt i) = None" "as_string (AMap m) = None" "as_string (AOther t) = None"
  by (simp_all add: as_string_def)

end
