(* ===== verification/Float64.thy ===== *)
theory Float64
  imports Go_Base "HOL-Library.Log_Nat"
begin

text \<open>
  Finite \<open>float64\<close> values as the rationals they denote.  Every operation rounds its exact
  result to the nearest number with a 53-bit significand, ties to the even one.  The exponent is
  unbounded: overflow to infinity, subnormals, NaN and the sign of zero are outside the model,
  which the amounts the code computes with (money, rates, seconds) never reach.
\<close>

type_synonym float64 = rat

definition pow2 :: "int \<Rightarrow> rat" where
  "pow2 k = (if 0 \<le> k then 2 ^ nat k else 1 / 2 ^ nat (- k))"

text \<open>The exponent of the largest power of two not above a positive number.\<close>

definition ilog2 :: "rat \<Rightarrow> int" where
  "ilog2 x = (let (p, q) = quotient_of x; k = bitlen p - bitlen q
              in if pow2 k \<le> x then k else k - 1)"

definition round_even :: "rat \<Rightarrow> int" where
  "round_even x =
     (let f = \<lfloor>x\<rfloor>; d = x - of_int f
      in if d < 1 / 2 then f else if 1 / 2 < d then f + 1 else if even f then f else f + 1)"

definition fround :: "rat \<Rightarrow> float64" where
  "fround x =
     (if x = 0 then 0
      else let e = ilog2 \<bar>x\<bar> - 52; r = of_int (round_even (\<bar>x\<bar> / pow2 e)) * pow2 e
           in if x < 0 then - r else r)"

definition fadd :: "float64 \<Rightarrow> float64 \<Rightarrow> float64" where "fadd x y = fround (x + y)"
definition fsub :: "float64 \<Rightarrow> float64 \<Rightarrow> float64" where "fsub x y = fround (x - y)"
definition fmul :: "float64 \<Rightarrow> float64 \<Rightarrow> float64" where "fmul x y = fround (x * y)"
definition fdiv :: "float64 \<Rightarrow> float64 \<Rightarrow> float64" where "fdiv x y = fround (x / y)"

lemma pow2_pos [simp]: "0 < pow2 k"
  by (simp add: pow2_def)

lemma pow2_nonneg [simp]: "0 \<le> pow2 k"
  by (simp add: less_imp_le)

lemma pow2_add: "pow2 (j + k) = pow2 j * pow2 k"
proof -
  have "pow2 k = 2 powi k" for k by (simp add: pow2_def power_int_def field_simps)
  then show ?thesis by (simp add: power_int_add)
qed

lemma round_even_nonneg: "0 \<le> x \<Longrightarrow> 0 \<le> round_even x"
  by (auto simp: round_even_def Let_def)

lemma round_even_int [simp]: "round_even (of_int n) = n"
  by (simp add: round_even_def)

lemma round_even_mono: "x \<le> y \<Longrightarrow> round_even x \<le> round_even y"
proof (cases "\<lfloor>x\<rfloor> = \<lfloor>y\<rfloor>")
  case True
  assume "x \<le> y"
  with True show ?thesis by (auto simp: round_even_def Let_def)
next
  case False
  assume "x \<le> y"
  with False have "\<lfloor>x\<rfloor> + 1 \<le> \<lfloor>y\<rfloor>" using floor_mono [of x y] by linarith
  moreover have "round_even x \<le> \<lfloor>x\<rfloor> + 1" "\<lfloor>y\<rfloor> \<le> round_even y"
    by (auto simp: round_even_def Let_def)
  ultimately show ?thesis by linarith
qed

lemma fround_0 [simp]: "fround 0 = 0"
  by (simp add: fround_def)

lemma fround_minus: "fround (- x) = - fround x"
  by (simp add: fround_def Let_def)

lemma fround_nonneg: "0 \<le> x \<Longrightarrow> 0 \<le> fround x"
  by (auto simp: fround_def Let_def intro!: mult_nonneg_nonneg round_even_nonneg)

lemma pow2_powi: "pow2 k = 2 powi k"
  by (simp add: pow2_def power_int_def field_simps)

lemma pow2_mono: "j \<le> k \<Longrightarrow> pow2 j \<le> pow2 k"
  by (simp add: pow2_powi power_int_increasing)

lemma pow2_less_iff [simp]: "pow2 j < pow2 k \<longleftrightarrow> j < k"
  by (metis less_le_not_le linorder_not_less order_less_irrefl pow2_mono pow2_pos pow2_powi
      power_int_strict_increasing one_less_numeral_iff semiring_norm(76))

lemma bitlen_pow2: "0 < n \<Longrightarrow> pow2 (bitlen n - 1) \<le> of_int n \<and> of_int n < pow2 (bitlen n)"
proof -
  assume n: "0 < n"
  then have b: "0 < bitlen n" using bitlen_bounds [of n] by (cases "bitlen n \<le> 0") (auto simp: bitlen_def)
  from bitlen_bounds [OF n] have "2 ^ nat (bitlen n - 1) \<le> n" "n < 2 ^ nat (bitlen n)" by auto
  then have "(2 :: rat) ^ nat (bitlen n - 1) \<le> of_int n" "of_int n < (2 :: rat) ^ nat (bitlen n)"
    by (metis of_int_le_iff of_int_numeral of_int_power, metis of_int_less_iff of_int_numeral of_int_power)
  with b show ?thesis by (simp add: pow2_def)
qed

lemma ilog2_bounds:
  assumes "0 < x"
  shows "pow2 (ilog2 x) \<le> x" "x < pow2 (ilog2 x + 1)"
proof -
  obtain p q where pq: "quotient_of x = (p, q)" by (cases "quotient_of x")
  have q: "0 < q" using quotient_of_denom_pos [OF pq] .
  have x: "x = of_int p / of_int q" using quotient_of_div [OF pq] .
  then have p: "0 < p" using assms q by (simp add: zero_less_divide_iff)
  let ?k = "bitlen p - bitlen q"
  note bp = bitlen_pow2 [OF p] and bq = bitlen_pow2 [OF q]
  have "pow2 (?k - 1) * of_int q \<le> pow2 (?k - 1) * pow2 (bitlen q)"
    using bq by (intro mult_left_mono) auto
  also have "\<dots> = pow2 (bitlen p - 1)" by (simp add: pow2_add [symmetric])
  finally have lo: "pow2 (?k - 1) \<le> x" using bp q by (simp add: x pos_le_divide_eq)
  have "of_int p < pow2 (?k + 1) * pow2 (bitlen q - 1)" using bp by (simp add: pow2_add [symmetric])
  also have "\<dots> \<le> pow2 (?k + 1) * of_int q" using bq by (intro mult_left_mono) auto
  finally have hi: "x < pow2 (?k + 1)" using q by (simp add: x pos_divide_less_eq)
  show "pow2 (ilog2 x) \<le> x" "x < pow2 (ilog2 x + 1)"
    using lo hi by (auto simp: ilog2_def pq Let_def not_le)
qed

lemma ilog2_eqI: "pow2 k \<le> x \<Longrightarrow> x < pow2 (k + 1) \<Longrightarrow> ilog2 x = k"
proof -
  assume k: "pow2 k \<le> x" "x < pow2 (k + 1)"
  then have "0 < x" using pow2_pos [of k] by linarith
  from ilog2_bounds [OF this] k have "pow2 k < pow2 (ilog2 x + 1)" "pow2 (ilog2 x) < pow2 (k + 1)" by linarith+
  then show ?thesis by simp
qed

lemma fround_pos: "0 < x \<Longrightarrow> fround x = of_int (round_even (x / pow2 (ilog2 x - 52))) * pow2 (ilog2 x - 52)"
  by (simp add: fround_def Let_def)

lemma pow2_52: "pow2 52 = of_int (2 ^ 52)" and pow2_53: "pow2 53 = of_int (2 ^ 53)"
  by (simp_all add: pow2_def)

lemma fround_binade:
  assumes "0 < x"
  shows "pow2 (ilog2 x) \<le> fround x" "fround x \<le> pow2 (ilog2 x + 1)"
proof -
  let ?e = "ilog2 x - 52"
  have "pow2 52 \<le> x / pow2 ?e" "x / pow2 ?e \<le> pow2 53"
    using ilog2_bounds(1) [OF assms] less_imp_le [OF ilog2_bounds(2) [OF assms]]
    by (simp_all add: pos_le_divide_eq pos_divide_le_eq pow2_add [symmetric] add.commute)
  then have "2 ^ 52 \<le> round_even (x / pow2 ?e)" "round_even (x / pow2 ?e) \<le> 2 ^ 53"
    using round_even_mono [of "of_int (2 ^ 52)" "x / pow2 ?e"] round_even_mono [of "x / pow2 ?e" "of_int (2 ^ 53)"]
    unfolding pow2_52 pow2_53 round_even_int by auto
  then have "pow2 52 \<le> of_int (round_even (x / pow2 ?e))" "of_int (round_even (x / pow2 ?e)) \<le> pow2 53"
    unfolding pow2_52 pow2_53 of_int_le_iff .
  then have "pow2 52 * pow2 ?e \<le> fround x" "fround x \<le> pow2 53 * pow2 ?e"
    unfolding fround_pos [OF assms] by (intro mult_right_mono; simp)+
  then show "pow2 (ilog2 x) \<le> fround x" "fround x \<le> pow2 (ilog2 x + 1)"
    unfolding pow2_add [symmetric] by (simp_all add: add.commute)
qed

lemma fround_mono_pos:
  assumes "0 < x" and "x \<le> y"
  shows "fround x \<le> fround y"
proof (cases "ilog2 x = ilog2 y")
  case True
  have "x / pow2 (ilog2 y - 52) \<le> y / pow2 (ilog2 y - 52)" using assms by (intro divide_right_mono) auto
  then show ?thesis
    using assms True by (simp add: fround_pos mult_right_mono round_even_mono)
next
  case False
  have y: "0 < y" using assms by simp
  have "pow2 (ilog2 x) < pow2 (ilog2 y + 1)" using ilog2_bounds [OF assms(1)] ilog2_bounds [OF y] assms(2) by linarith
  with False have "ilog2 x + 1 \<le> ilog2 y" by simp
  then have "pow2 (ilog2 x + 1) \<le> pow2 (ilog2 y)" by (rule pow2_mono)
  with fround_binade(2) [OF assms(1)] fround_binade(1) [OF y] show ?thesis by linarith
qed

lemma fround_mono: "x \<le> y \<Longrightarrow> fround x \<le> fround y"
proof -
  assume xy: "x \<le> y"
  consider "0 < x" | "x \<le> 0" "0 \<le> y" | "y < 0" by linarith
  then show ?thesis
  proof cases
    case 1
    then show ?thesis using fround_mono_pos xy by blast
  next
    case 2
    then show ?thesis using fround_nonneg [of "- x"] fround_nonneg [of y] by (simp add: fround_minus)
  next
    case 3
    then show ?thesis using fround_mono_pos [of "- y" "- x"] xy by (simp add: fround_minus)
  qed
qed

text \<open>The relative error of one rounding.\<close>

definition ulp :: rat where "ulp = 1 / 2 ^ 53"

lemma round_even_error: "\<bar>of_int (round_even x) - x\<bar> \<le> 1 / 2"
  unfolding round_even_def Let_def using floor_correct [of x] by (auto simp: abs_le_iff field_simps)

lemma fround_error_pos:
  assumes "0 < x"
  shows "\<bar>fround x - x\<bar> \<le> x * ulp"
proof -
  let ?p = "pow2 (ilog2 x - 52)"
  have "fround x - x = (of_int (round_even (x / ?p)) - x / ?p) * ?p"
    using assms by (simp add: fround_pos left_diff_distrib less_imp_neq [THEN not_sym])
  then have "\<bar>fround x - x\<bar> = \<bar>of_int (round_even (x / ?p)) - x / ?p\<bar> * ?p" by (simp add: abs_mult)
  also have "\<dots> \<le> 1 / 2 * ?p" using round_even_error by (intro mult_right_mono) auto
  also have "\<dots> = pow2 (ilog2 x) * ulp"
    using pow2_add [of "ilog2 x - 52" 52] by (simp add: pow2_52 ulp_def)
  also have "\<dots> \<le> x * ulp" using ilog2_bounds(1) [OF assms] by (intro mult_right_mono) (auto simp: ulp_def)
  finally show ?thesis .
qed

lemma fround_le: "0 \<le> x \<Longrightarrow> fround x \<le> x * (1 + ulp)"
  using fround_error_pos [of x] by (cases "x = 0") (auto simp: algebra_simps)

text \<open>Numbers with at most 53 significant bits are exact.\<close>

definition is_float :: "rat \<Rightarrow> bool" where
  "is_float x \<longleftrightarrow> (\<exists>m k. \<bar>m\<bar> \<le> 2 ^ 53 \<and> x = of_int m * pow2 k)"

lemma fround_exact_pos:
  assumes "0 < m" and "m \<le> 2 ^ 53"
  shows "fround (of_int m * pow2 k) = of_int m * pow2 k"
proof -
  let ?l = "ilog2 (of_int m)"
  have m: "(0 :: rat) < of_int m" using assms by simp
  note b = ilog2_bounds [OF m]
  have l: "ilog2 (of_int m * pow2 k) = ?l + k"
  proof (rule ilog2_eqI)
    show "pow2 (?l + k) \<le> of_int m * pow2 k" using b(1) by (simp add: pow2_add mult_right_mono)
    show "of_int m * pow2 k < pow2 (?l + k + 1)" using b(2) by (simp add: pow2_add [of "?l + 1" k, symmetric] add_ac
        mult_strict_right_mono [of _ _ "pow2 k"] pow2_add [of "?l" "k + 1"] pow2_add [of k 1])
      (simp add: pow2_add mult_strict_right_mono mult_ac)
  qed
  have "\<exists>i. of_int m * pow2 (52 - ?l) = of_int i"
  proof (cases "?l \<le> 52")
    case True
    then have "of_int m * pow2 (52 - ?l) = of_int (m * 2 ^ nat (52 - ?l))" by (simp add: pow2_def)
    then show ?thesis ..
  next
    case False
    have "pow2 53 \<le> pow2 ?l" using False by (intro pow2_mono) simp
    then have "of_int (2 ^ 53) \<le> (of_int m :: rat)" using b(1) unfolding pow2_53 [symmetric] by linarith
    then have "m = 2 ^ 53" using assms(2) by linarith
    moreover have "?l = 53"
    proof (rule ilog2_eqI)
      show "pow2 53 \<le> of_int m" "of_int m < pow2 (53 + 1)"
        using \<open>m = 2 ^ 53\<close> pow2_53 pow2_less_iff [of 53 "53 + 1"] by auto
    qed
    ultimately have "of_int m * pow2 (52 - ?l) = of_int (2 ^ 52)" by (simp add: pow2_def)
    then show ?thesis ..
  qed
  then obtain i where i: "of_int m * pow2 (52 - ?l) = of_int i" ..
  have "of_int m * pow2 k / pow2 (?l + k - 52) = of_int m * pow2 (52 - ?l)"
    by (simp add: divide_eq_eq mult.assoc pow2_add [symmetric] less_imp_neq [THEN not_sym])
  then have "fround (of_int m * pow2 k) = of_int i * pow2 (?l + k - 52)"
    using m by (subst fround_pos) (simp_all add: l i)
  also have "\<dots> = of_int m * pow2 k" unfolding i [symmetric] by (simp add: mult.assoc pow2_add [symmetric])
  finally show ?thesis .
qed

lemma fround_float: "is_float x \<Longrightarrow> fround x = x"
proof -
  assume "is_float x"
  then obtain m k where mk: "\<bar>m\<bar> \<le> 2 ^ 53" "x = of_int m * pow2 k" by (auto simp: is_float_def)
  consider "m = 0" | "0 < m" | "m < 0" by linarith
  then show ?thesis
  proof cases
    case 3
    then show ?thesis using fround_exact_pos [of "- m" k] mk fround_minus [of x] by simp
  qed (use mk fround_exact_pos [of m k] in auto)
qed

lemma is_float_int: "\<bar>n\<bar> \<le> 2 ^ 53 \<Longrightarrow> is_float (of_int n)"
  unfolding is_float_def by (rule exI [of _ n], rule exI [of _ 0]) (simp add: pow2_def)

lemma is_float_fround [simp]: "is_float (fround x)"
proof -
  have pos: "is_float (fround x)" if "0 < x" for x
  proof -
    let ?e = "ilog2 x - 52"
    have "x / pow2 ?e \<le> pow2 53"
      using less_imp_le [OF ilog2_bounds(2) [OF that]] by (simp add: pos_divide_le_eq pow2_add [symmetric] add.commute)
    then have "round_even (x / pow2 ?e) \<le> 2 ^ 53"
      using round_even_mono [of "x / pow2 ?e" "of_int (2 ^ 53)"] unfolding pow2_53 round_even_int by simp
    moreover have "0 \<le> round_even (x / pow2 ?e)" using that by (intro round_even_nonneg) simp
    ultimately show ?thesis unfolding is_float_def fround_pos [OF that] by (intro exI conjI) auto
  qed
  have "is_float (- y)" if "is_float y" for y
    using that unfolding is_float_def by (metis abs_minus_cancel mult_minus_left of_int_minus)
  then show ?thesis
    using pos [of x] pos [of "- x"] fround_minus [of x] is_float_int [of 0]
    by (cases "x = 0"; cases "0 < x") (auto, metis minus_minus neg_0_less_iff_less linorder_neqE_linordered_idom)
qed

lemma fadd_ge: "is_float x \<Longrightarrow> 0 \<le> y \<Longrightarrow> x \<le> fadd x y"
  using fround_mono [of x "x + y"] by (simp add: fadd_def fround_float)

end
