(* ===== verification/Execution.thy ===== *)
theory Execution
  imports Priority_Class Retry Go_Any Float64
begin

text \<open>
  The data of \<open>core/execution/execution.go\<close> and the functions of \<open>core/execution/manager.go\<close> that
  work on one execution alone: policies, errors, results.  The shared state of the manager and
  its goroutines are in \<open>Exec_Machine\<close>.
\<close>

section \<open>Data\<close>

type_synonym execution_state = string

definition ExecStatePending :: execution_state where "ExecStatePending = ''PENDING''"
definition ExecStateQueued :: execution_state where "ExecStateQueued = ''QUEUED''"
definition ExecStateRunning :: execution_state where "ExecStateRunning = ''RUNNING''"
definition ExecStateRetrying :: execution_state where "ExecStateRetrying = ''RETRYING''"
definition ExecStateSucceeded :: execution_state where "ExecStateSucceeded = ''SUCCEEDED''"
definition ExecStateFailed :: execution_state where "ExecStateFailed = ''FAILED''"
definition ExecStateCancelled :: execution_state where "ExecStateCancelled = ''CANCELLED''"
definition ExecStateTimedOut :: execution_state where "ExecStateTimedOut = ''TIMED_OUT''"

lemmas exec_state_defs = ExecStatePending_def ExecStateQueued_def ExecStateRunning_def
  ExecStateRetrying_def ExecStateSucceeded_def ExecStateFailed_def ExecStateCancelled_def ExecStateTimedOut_def

type_synonym execution_status = string

definition StatusSucceeded :: execution_status where "StatusSucceeded = ''Succeeded''"
definition StatusFailed :: execution_status where "StatusFailed = ''Failed''"
definition StatusCancelled :: execution_status where "StatusCancelled = ''Cancelled''"
definition StatusTimedOut :: execution_status where "StatusTimedOut = ''TimedOut''"

lemmas exec_status_defs = StatusSucceeded_def StatusFailed_def StatusCancelled_def StatusTimedOut_def

record timeout_policy =
  Total :: duration
  PerAttempt :: duration

record token_usage =
  PromptTokens :: int
  CompletionTokens :: int
  TotalTokens :: int

text \<open>A nil map in \<open>Metadata\<close> is \<open>None\<close>; \<open>Payload\<close> is the Go type \<open>any\<close>.\<close>

record request =
  rq_ID :: string
  rq_ProviderRef :: string
  rq_Payload :: any
  rq_Priority :: priority_class
  rq_RetryPolicy :: "retry_policy option"
  rq_TimeoutPolicy :: "timeout_policy option"
  rq_Metadata :: "(string \<rightharpoonup> string) option"
  rq_ParentID :: "string option"
  rq_Timeout :: duration
  rq_PriorityLegacy :: int

record attempt =
  at_Number :: int
  at_StartedAt :: instant
  at_EndedAt :: "instant option"
  at_Error :: "execution_error option"
  at_ProviderRef :: string

record exec_result =
  er_ID :: string
  er_Status :: execution_status
  er_State :: execution_state
  er_Output :: any
  er_Error :: "execution_error option"
  er_TokenUsage :: "token_usage option"
  er_Cost :: "float64 option"
  er_Duration :: duration
  er_AttemptCount :: int
  er_RetryCount :: int
  er_Attempts :: "attempt list"

text \<open>
  \<open>CancelFunc\<close> is either nil or the cancel function of the run's context, which \<open>Exec_Machine\<close>
  keeps, so a truth value is enough.
\<close>

record execution =
  ex_ID :: string
  ex_Request :: request
  ex_State :: execution_state
  ex_Priority :: priority_class
  ex_CreatedAt :: instant
  ex_StartedAt :: "instant option"
  ex_CompletedAt :: "instant option"
  ex_Attempts :: "attempt list"
  ex_Result :: "exec_result option"
  ex_ParentID :: "string option"
  ex_CancelFunc :: bool

text \<open>A composite literal \<open>&ExecutionResult{ID, Status, State, Error}\<close>; other fields are zero.\<close>

definition bare_result :: "string \<Rightarrow> execution_status \<Rightarrow> execution_state \<Rightarrow> execution_error option \<Rightarrow> exec_result" where
  "bare_result i st s e =
     \<lparr>er_ID = i, er_Status = st, er_State = s, er_Output = ANil, er_Error = e, er_TokenUsage = None,
      er_Cost = None, er_Duration = 0, er_AttemptCount = 0, er_RetryCount = 0, er_Attempts = []\<rparr>"

section \<open>Functions on one execution\<close>

definition isTerminalState :: "execution_state \<Rightarrow> bool" where
  "isTerminalState state \<longleftrightarrow>
     state = ExecStateSucceeded \<or> state = ExecStateFailed \<or> state = ExecStateCancelled \<or> state = ExecStateTimedOut"

lemma isTerminalState_simps [simp]:
  "\<not> isTerminalState ExecStatePending" "\<not> isTerminalState ExecStateQueued" "\<not> isTerminalState ExecStateRunning"
  "\<not> isTerminalState ExecStateRetrying" "isTerminalState ExecStateSucceeded" "isTerminalState ExecStateFailed"
  "isTerminalState ExecStateCancelled" "isTerminalState ExecStateTimedOut" "\<not> isTerminalState []"
  by (simp_all add: isTerminalState_def exec_state_defs)

definition extractPrompt :: "any \<Rightarrow> string" where
  "extractPrompt payload =
     (case payload of
        ANil \<Rightarrow> []
      | AStr str \<Rightarrow> str
      | AMap m \<Rightarrow>
          (case map_of m ''prompt'' of
             Some v \<Rightarrow> (case as_string v of Some str \<Rightarrow> str | None \<Rightarrow> show_any payload)
           | None \<Rightarrow> show_any payload)
      | _ \<Rightarrow> show_any payload)"

text \<open>\<open>telemetry.EstimateStreamingTokenUsage\<close>: a quarter of the bytes, at least one.\<close>

definition estimate_tokens :: "string \<Rightarrow> int" where
  "estimate_tokens txt =
     (let n = int (length txt) div 4 in if n = 0 \<and> length txt > 0 then 1 else n)"

definition EstimateStreamingTokenUsage :: "string \<Rightarrow> string \<Rightarrow> token_usage" where
  "EstimateStreamingTokenUsage promptText completionText =
     (let p = estimate_tokens promptText; c = estimate_tokens completionText
      in \<lparr>PromptTokens = p, CompletionTokens = c, TotalTokens = p + c\<rparr>)"

definition estimated_cost :: "token_usage \<Rightarrow> float64" where
  "estimated_cost u = fmul (fround (of_int (TotalTokens u))) (fround (15 / 10 ^ 7))"

definition default_retry :: retry_policy where
  "default_retry = \<lparr>MaxAttempts = 3, BackoffStrategy = BackoffExponential, BaseDelay = 200 * Millisecond,
                    MaxDelay = 30 * Second, Jitter = True, RetryableCheck = None\<rparr>"

definition resolvePolicies :: "request \<Rightarrow> retry_policy \<times> timeout_policy" where
  "resolvePolicies rq =
     (case rq_RetryPolicy rq of Some p \<Rightarrow> p | None \<Rightarrow> default_retry,
      case rq_TimeoutPolicy rq of
        Some p \<Rightarrow> p
      | None \<Rightarrow> (let tot = (if rq_Timeout rq > 0 then rq_Timeout rq else 60 * Second)
                in \<lparr>Total = tot, PerAttempt = 0\<rparr>))"

definition isRetryable :: "go_error option \<Rightarrow> retry_policy \<Rightarrow> bool" where
  "isRetryable err policy =
     (case err of
        None \<Rightarrow> False
      | Some err \<Rightarrow>
          (case RetryableCheck policy of
             Some check \<Rightarrow> check err
           | None \<Rightarrow> (case err of PlatformError _ _ retryable _ \<Rightarrow> retryable | GoError _ \<Rightarrow> True)))"

text \<open>
  \<open>translateError\<close> reads \<open>lastErr.Error()\<close> of an error that is not a \<open>PlatformError\<close>: on a nil
  error that is a nil dereference, here \<open>None\<close>.
\<close>

definition translateError :: "go_error option \<Rightarrow> (execution_state \<times> execution_status \<times> execution_error) option" where
  "translateError lastErr =
     (case lastErr of
        Some (PlatformError category message retryable cause) \<Rightarrow>
          (let execErr = \<lparr>ee_Category = category, ee_Message = message, ee_Retryable = retryable\<rparr>
           in Some (if category = ErrCategoryTimeout then (ExecStateTimedOut, StatusTimedOut, execErr)
                    else if category = ErrCategoryCancelled then (ExecStateCancelled, StatusCancelled, execErr)
                    else (ExecStateFailed, StatusFailed, execErr)))
      | Some (GoError s) \<Rightarrow>
          Some (ExecStateFailed, StatusFailed,
                \<lparr>ee_Category = ErrCategoryInternal, ee_Message = Error (GoError s), ee_Retryable = False\<rparr>)
      | None \<Rightarrow> None)"

text \<open>
  \<open>handleResult\<close>: \<open>None\<close> is the panic of \<open>translateError\<close>; \<open>CompletedAt\<close> is set before it.
  \<open>elapsed\<close> is \<open>time.Since(startTime)\<close>.
\<close>

definition handleResult ::
  "instant \<Rightarrow> duration \<Rightarrow> go_error option \<Rightarrow> exec_result option \<Rightarrow> execution \<Rightarrow> execution option" where
  "handleResult now elapsed lastErr executionResult exec =
     (let exec = exec\<lparr>ex_CompletedAt := Some now\<rparr>
      in case (lastErr, executionResult) of
           (None, Some r) \<Rightarrow>
             if er_Error r \<noteq> None \<or> (er_Status r \<noteq> [] \<and> er_Status r \<noteq> StatusSucceeded) then
               Some (if er_State r = []
                     then exec\<lparr>ex_State := ExecStateFailed,
                               ex_Result := Some (r\<lparr>er_State := ExecStateFailed, er_Duration := elapsed\<rparr>)\<rparr>
                     else exec\<lparr>ex_State := er_State r, ex_Result := Some (r\<lparr>er_Duration := elapsed\<rparr>)\<rparr>)
             else
               Some (exec\<lparr>ex_State := ExecStateSucceeded,
                          ex_Result := Some (r\<lparr>er_State := ExecStateSucceeded, er_Status := StatusSucceeded,
                            er_AttemptCount := int (length (ex_Attempts exec)),
                            er_RetryCount := int (length (ex_Attempts exec)) - 1,
                            er_Attempts := ex_Attempts exec, er_Duration := elapsed\<rparr>)\<rparr>)
         | _ \<Rightarrow>
             (case translateError lastErr of
                None \<Rightarrow> None
              | Some (finalState, overallStatus, execErr) \<Rightarrow>
                  Some (exec\<lparr>ex_State := finalState,
                     ex_Result := Some ((bare_result (ex_ID exec) overallStatus finalState (Some execErr))
                       \<lparr>er_Duration := elapsed, er_AttemptCount := int (length (ex_Attempts exec)),
                        er_RetryCount := int (length (ex_Attempts exec)) - 1, er_Attempts := ex_Attempts exec\<rparr>)\<rparr>)))"

text \<open>The record of one attempt, and the error of an attempt whose context ended first.\<close>

definition timeout_error :: "go_error option \<Rightarrow> go_error option \<Rightarrow> go_error" where
  "timeout_error total_err attempt_err =
     (if total_err \<noteq> None
      then NewError ErrCategoryTimeout ''execution exceeded configured deadline'' False total_err
      else NewError ErrCategoryTimeout ''per-attempt timeout exceeded'' True attempt_err)"

text \<open>The state that a call of the pipeline leads to.\<close>

definition failed_result :: "exec_result \<Rightarrow> bool" where
  "failed_result r \<longleftrightarrow> er_Error r \<noteq> None \<or> (er_Status r \<noteq> [] \<and> er_Status r \<noteq> StatusSucceeded)"

definition outcome_state :: "go_error option \<Rightarrow> exec_result option \<Rightarrow> execution_state" where
  "outcome_state lastErr res =
     (case (lastErr, res) of
        (None, Some r) \<Rightarrow> if \<not> failed_result r then ExecStateSucceeded
                         else if er_State r = [] then ExecStateFailed else er_State r
      | (Some (PlatformError c _ _ _), _) \<Rightarrow>
          if c = ErrCategoryTimeout then ExecStateTimedOut
          else if c = ErrCategoryCancelled then ExecStateCancelled else ExecStateFailed
      | _ \<Rightarrow> ExecStateFailed)"

text \<open>
  C15: \<open>handleResult\<close> ends an execution in every case but one.  It panics exactly when the pipeline
  returned neither a result nor an error.  Otherwise the execution is complete, its result
  carries the same state, and an error kept beside a result always wins over the result.
\<close>
theorem handleResult_outcome:
  "(case handleResult now elapsed lastErr res exec of
      None \<Rightarrow> lastErr = None \<and> res = None
    | Some exec' \<Rightarrow> (lastErr, res) \<noteq> (None, None) \<and>
        ex_State exec' = outcome_state lastErr res \<and> ex_CompletedAt exec' = Some now \<and>
        (\<exists>r. ex_Result exec' = Some r \<and> er_State r = ex_State exec' \<and> er_Duration r = elapsed \<and>
           er_Error r = (if lastErr = None then (case res of Some r \<Rightarrow> er_Error r | None \<Rightarrow> None)
                         else ToExecutionError lastErr)))"
  by (cases lastErr; cases res)
    (auto simp: handleResult_def translateError_def outcome_state_def failed_result_def ToExecutionError_def
      bare_result_def Let_def split: go_error.splits)

text \<open>
  With no recorded attempt, as after a hit of the middleware's cache, the retry count of a success is -1.
\<close>

lemma handleResult_retry_count:
  "ex_Attempts exec = [] \<Longrightarrow> \<not> failed_result r \<Longrightarrow>
   map_option (map_option er_RetryCount \<circ> ex_Result) (handleResult now elapsed None (Some r) exec) = Some (Some (- 1))"
  by (auto simp: handleResult_def failed_result_def Let_def)

end
