(* ===== verification/Exec_Attempts.thy ===== *)
theory Exec_Attempts
  imports Execution
begin

text \<open>
  The attempts of one execution: \<open>runSingleAttempt\<close>, \<open>waitBackoff\<close> and the loop
  \<open>executeAttempts\<close> of \<open>core/execution/manager.go\<close>.  Calls of the event bus and of telemetry are
  recorded as effects in order.  What the provider and the clock do is an argument; the pieces
  are the steps of the machine in \<open>Exec_Machine\<close>, the loop is their uninterrupted composition.
\<close>

section \<open>Effects\<close>

datatype effect =
    Published string any
  | TokensRecorded token_usage string
  | CostRecorded float64 string
  | CounterInc string string string

section \<open>One attempt\<close>

text \<open>
  The two branches of the \<open>select\<close>: the provider's goroutine has delivered its pair, or the
  context of the attempt is done, with the error \<open>attempt_err\<close>; \<open>total_err\<close> is the error of
  the context of the whole execution.
\<close>

datatype attempt_outcome =
    Returned "exec_result option" "go_error option"
  | AttemptDone go_error

definition appended :: "attempt \<Rightarrow> execution \<Rightarrow> execution" where
  "appended a exec = exec\<lparr>ex_Attempts := ex_Attempts exec @ [a]\<rparr>"

definition usage_effects :: "string \<Rightarrow> exec_result option \<Rightarrow> effect list" where
  "usage_effects pname res =
     (case res of
        None \<Rightarrow> []
      | Some r \<Rightarrow>
          (case er_TokenUsage r of None \<Rightarrow> [] | Some u \<Rightarrow> [TokensRecorded u pname]) @
          (case er_Cost r of None \<Rightarrow> [] | Some c \<Rightarrow> if c \<noteq> 0 then [CostRecorded c pname] else []))"

definition fallback_effects :: "string \<Rightarrow> execution \<Rightarrow> effect list" where
  "fallback_effects pname exec =
     (let estUsage = EstimateStreamingTokenUsage (extractPrompt (rq_Payload (ex_Request exec))) []
      in [TokensRecorded estUsage pname, CostRecorded (estimated_cost estUsage) pname])"

definition runSingleAttempt ::
  "string \<Rightarrow> int \<Rightarrow> instant \<Rightarrow> instant \<Rightarrow> go_error option \<Rightarrow> attempt_outcome \<Rightarrow> execution
    \<Rightarrow> (exec_result option \<times> go_error option) \<times> execution \<times> effect list" where
  "runSingleAttempt pname attempt startedAt endedAt total_err outcome exec =
     (let currAttempt = \<lparr>at_Number = attempt, at_StartedAt = startedAt, at_EndedAt = Some endedAt,
                         at_Error = None, at_ProviderRef = pname\<rparr>
      in case outcome of
           Returned res None \<Rightarrow> ((res, None), appended currAttempt exec, usage_effects pname res)
         | Returned res (Some err) \<Rightarrow>
             ((None, Some err), appended (currAttempt\<lparr>at_Error := ToExecutionError (Some err)\<rparr>) exec,
              fallback_effects pname exec)
         | AttemptDone attempt_err \<Rightarrow>
             (let lastErr = timeout_error total_err (Some attempt_err)
              in ((None, Some lastErr), appended (currAttempt\<lparr>at_Error := ToExecutionError (Some lastErr)\<rparr>) exec,
                  fallback_effects pname exec)))"

text \<open>The timeout that \<open>context.WithTimeout\<close> gets for an attempt.\<close>

definition attempt_timeout :: "timeout_policy \<Rightarrow> duration" where
  "attempt_timeout tp = (if PerAttempt tp \<le> 0 then Total tp else PerAttempt tp)"

section \<open>Back-off\<close>

text \<open>\<open>waitBackoff\<close> before its \<open>select\<close>; it reads \<open>lastErr.Error()\<close>, and \<open>lastErr\<close> is never nil here.\<close>

definition begin_backoff :: "(int \<Rightarrow> int) \<Rightarrow> retry_policy \<Rightarrow> int \<Rightarrow> go_error \<Rightarrow> execution \<Rightarrow> execution \<times> effect list" where
  "begin_backoff Intn retryPolicy attempt lastErr exec =
     (let delay = CalculateBackoff Intn (Some retryPolicy) (attempt - 1)
      in (exec\<lparr>ex_State := ExecStateRetrying\<rparr>,
          [Published ''execution.retrying''
             (AMap [(''attempt_number'', AInt attempt), (''backoff_ms'', AInt (Milliseconds delay)),
                    (''execution_id'', AStr (ex_ID exec)), (''reason'', AStr (Error lastErr))])]))"

text \<open>The \<open>select\<close>: the delay has passed, or the context is done.\<close>

definition end_backoff :: "go_error option \<Rightarrow> execution \<Rightarrow> go_error option \<times> execution" where
  "end_backoff ctx_err exec =
     (case ctx_err of
        None \<Rightarrow> (None, exec\<lparr>ex_State := ExecStateRunning\<rparr>)
      | Some err \<Rightarrow> (Some err, exec))"

section \<open>The loop\<close>

text \<open>
  The environment of a run: for attempt number \<open>k\<close> its clock readings, what it came to and the
  error of the context at its end; for the back-off before attempt \<open>k\<close>, whether the context cut it.
\<close>

record attempt_env =
  env_start :: "int \<Rightarrow> instant"
  env_end :: "int \<Rightarrow> instant"
  env_outcome :: "int \<Rightarrow> attempt_outcome"
  env_total_err :: "int \<Rightarrow> go_error option"
  env_cut :: "int \<Rightarrow> go_error option"
  env_draw :: "int \<Rightarrow> int \<Rightarrow> int"

function attempt_loop ::
  "attempt_env \<Rightarrow> string \<Rightarrow> retry_policy \<Rightarrow> int \<Rightarrow> exec_result option \<Rightarrow> go_error option \<Rightarrow> execution \<Rightarrow> effect list
    \<Rightarrow> (exec_result option \<times> go_error option) \<times> execution \<times> effect list" where
  "attempt_loop env pname policy attempt res lastErr exec eff =
     (if attempt \<le> MaxAttempts policy then
        (let (cut, exec, eff) =
               (if attempt > 1 then
                  (case lastErr of
                     None \<Rightarrow> (None, exec, eff)
                   | Some e \<Rightarrow>
                       let (exec, eff') = begin_backoff (env_draw env attempt) policy attempt e exec;
                           (cut, exec) = end_backoff (env_cut env attempt) exec
                       in (cut, exec, eff @ eff'))
                else (None, exec, eff))
         in case cut of
              Some err \<Rightarrow> ((res, Some err), exec, eff)
            | None \<Rightarrow>
                let ((res, lastErr), exec, eff') =
                      runSingleAttempt pname attempt (env_start env attempt) (env_end env attempt)
                        (env_total_err env attempt) (env_outcome env attempt) exec;
                    eff = eff @ eff'
                in if lastErr = None then ((res, lastErr), exec, eff)
                   else if \<not> isRetryable lastErr policy then ((res, lastErr), exec, eff)
                   else attempt_loop env pname policy (attempt + 1) res lastErr exec eff)
      else ((res, lastErr), exec, eff))"
  by pat_completeness auto
termination
  by (relation "measure (\<lambda>(env, pname, policy, attempt, _). nat (MaxAttempts policy + 1 - attempt))") auto

declare attempt_loop.simps [simp del]

definition executeAttempts ::
  "attempt_env \<Rightarrow> string \<Rightarrow> retry_policy \<Rightarrow> execution \<Rightarrow> (exec_result option \<times> go_error option) \<times> execution \<times> effect list" where
  "executeAttempts env pname policy exec = attempt_loop env pname policy 1 None None exec []"

section \<open>What the loop does\<close>

definition attempt_error :: "attempt_env \<Rightarrow> int \<Rightarrow> go_error option" where
  "attempt_error env k =
     (case env_outcome env k of
        Returned res err \<Rightarrow> err
      | AttemptDone e \<Rightarrow> Some (timeout_error (env_total_err env k) (Some e)))"

definition attempt_result :: "attempt_env \<Rightarrow> int \<Rightarrow> exec_result option" where
  "attempt_result env k = (case env_outcome env k of Returned res None \<Rightarrow> res | _ \<Rightarrow> None)"

definition attempt_record :: "attempt_env \<Rightarrow> string \<Rightarrow> int \<Rightarrow> attempt" where
  "attempt_record env pname k =
     \<lparr>at_Number = k, at_StartedAt = env_start env k, at_EndedAt = Some (env_end env k),
      at_Error = ToExecutionError (attempt_error env k), at_ProviderRef = pname\<rparr>"

text \<open>\<open>retries\<close>: attempt \<open>k\<close> failed and another one is due; \<open>goes_on\<close>: and the context does not cut the wait.\<close>

definition retries :: "attempt_env \<Rightarrow> retry_policy \<Rightarrow> int \<Rightarrow> bool" where
  "retries env policy k \<longleftrightarrow> isRetryable (attempt_error env k) policy \<and> k < MaxAttempts policy"

definition goes_on :: "attempt_env \<Rightarrow> retry_policy \<Rightarrow> int \<Rightarrow> bool" where
  "goes_on env policy k \<longleftrightarrow> retries env policy k \<and> env_cut env (k + 1) = None"

lemma runSingleAttempt_spec:
  "fst (runSingleAttempt pname k (env_start env k) (env_end env k) (env_total_err env k) (env_outcome env k) exec)
     = (attempt_result env k, attempt_error env k)"
  "fst (snd (runSingleAttempt pname k (env_start env k) (env_end env k) (env_total_err env k) (env_outcome env k) exec))
     = appended (attempt_record env pname k) exec"
  by (auto simp: runSingleAttempt_def Let_def attempt_result_def attempt_error_def attempt_record_def
      ToExecutionError_def split: attempt_outcome.split option.split)

lemma isRetryable_Some: "isRetryable err policy \<Longrightarrow> err \<noteq> None"
  by (auto simp: isRetryable_def split: option.splits)

lemma not_isRetryable_None [simp]: "\<not> isRetryable None policy"
  by (simp add: isRetryable_def)

lemma backoff_attempts [simp]:
  "ex_Attempts (fst (begin_backoff f policy k e exec)) = ex_Attempts exec"
  "ex_Attempts (snd (end_backoff c exec)) = ex_Attempts exec"
  "fst (end_backoff c exec) = c"
  by (simp_all add: begin_backoff_def end_backoff_def Let_def split: option.split)

text \<open>The state of the loop before attempt \<open>a\<close>, as a function of the one before it.\<close>

lemma attempt_loop_step:
  assumes "1 \<le> a" and "a \<le> MaxAttempts policy" and "1 < a \<Longrightarrow> lastErr \<noteq> None"
  shows "\<exists>exec1 eff1. ex_Attempts exec1 = ex_Attempts exec \<and>
     attempt_loop env pname policy a res lastErr exec eff =
       (if 1 < a \<and> env_cut env a \<noteq> None then ((res, env_cut env a), exec1, eff1)
        else let exec2 = appended (attempt_record env pname a) exec1
             in if isRetryable (attempt_error env a) policy
                then attempt_loop env pname policy (a + 1) (attempt_result env a) (attempt_error env a) exec2 eff1
                else ((attempt_result env a, attempt_error env a), exec2, eff1))"
proof -
  let ?run = "\<lambda>exec. runSingleAttempt pname a (env_start env a) (env_end env a) (env_total_err env a) (env_outcome env a) exec"
  have run: "?run x = ((attempt_result env a, attempt_error env a), appended (attempt_record env pname a) x, snd (snd (?run x)))" for x
    using runSingleAttempt_spec [of pname a env x] by (metis prod.collapse)
  have retry: "(if attempt_error env a = None then A else if \<not> isRetryable (attempt_error env a) policy then A else B)
      = (if isRetryable (attempt_error env a) policy then B else A)" for A B :: 'c
    by auto
  show ?thesis
  proof (cases "1 < a")
    case False
    then show ?thesis
      using assms(2)
      by (intro exI [of _ exec] exI [of _ "eff @ snd (snd (?run exec))"] conjI refl)
        (subst attempt_loop.simps, subst run, simp add: Let_def retry)
  next
    case True
    then obtain e where e: "lastErr = Some e" using assms(3) by auto
    obtain x1 f1 where b: "begin_backoff (env_draw env a) policy a e exec = (x1, f1)" by fastforce
    obtain x2 where x2: "end_backoff (env_cut env a) x1 = (env_cut env a, x2)"
      by (metis backoff_attempts(3) prod.collapse)
    obtain f2 where r: "?run x2 = ((attempt_result env a, attempt_error env a), appended (attempt_record env pname a) x2, f2)"
      using run by blast
    have "ex_Attempts x2 = ex_Attempts exec"
      using backoff_attempts(1) [of "env_draw env a" policy a e exec] backoff_attempts(2) [of "env_cut env a" x1]
      by (simp add: b x2)
    moreover have "attempt_loop env pname policy a res lastErr exec eff =
        (if env_cut env a \<noteq> None then ((res, env_cut env a), x2, eff @ f1)
         else if isRetryable (attempt_error env a) policy
              then attempt_loop env pname policy (a + 1) (attempt_result env a) (attempt_error env a)
                     (appended (attempt_record env pname a) x2) ((eff @ f1) @ f2)
              else ((attempt_result env a, attempt_error env a), appended (attempt_record env pname a) x2, (eff @ f1) @ f2))"
      using assms(2) True x2
      by (subst attempt_loop.simps, cases "env_cut env a") (simp_all add: e b r Let_def retry)
    ultimately show ?thesis
      using True by (cases "env_cut env a") (auto simp: Let_def)
  qed
qed

lemma attempt_loop_go:
  assumes "1 \<le> a" and "a \<le> MaxAttempts policy" and "1 < a \<Longrightarrow> lastErr \<noteq> None \<and> env_cut env a = None"
  obtains exec1 eff1 where "ex_Attempts exec1 = ex_Attempts exec"
    and "attempt_loop env pname policy a res lastErr exec eff =
       (let exec2 = appended (attempt_record env pname a) exec1
             in if isRetryable (attempt_error env a) policy
                then attempt_loop env pname policy (a + 1) (attempt_result env a) (attempt_error env a) exec2 eff1
                else ((attempt_result env a, attempt_error env a), exec2, eff1))"
proof -
  have "\<not> (1 < a \<and> env_cut env a \<noteq> None)" using assms(3) by auto
  with attempt_loop_step [OF assms(1,2), of lastErr exec env pname res eff] assms(3) that show thesis
    by (simp only: if_False) blast
qed

lemma attempt_loop_spec:
  assumes "1 \<le> a" and "a \<le> MaxAttempts policy" and "1 < a \<Longrightarrow> lastErr \<noteq> None \<and> env_cut env a = None"
  shows "\<exists>n. a \<le> n \<and> n \<le> MaxAttempts policy \<and> (\<forall>k. a \<le> k \<and> k < n \<longrightarrow> goes_on env policy k) \<and> \<not> goes_on env policy n \<and>
     ex_Attempts (fst (snd (attempt_loop env pname policy a res lastErr exec eff))) =
       ex_Attempts exec @ map (attempt_record env pname) [a..n] \<and>
     fst (attempt_loop env pname policy a res lastErr exec eff) =
       (if retries env policy n then (None, env_cut env (n + 1)) else (attempt_result env n, attempt_error env n))"
  using assms
proof (induction "nat (MaxAttempts policy - a)" arbitrary: a res lastErr exec eff)
  case 0
  then have a: "a = MaxAttempts policy" by simp
  obtain exec1 eff1 where "ex_Attempts exec1 = ex_Attempts exec"
    and l: "attempt_loop env pname policy a res lastErr exec eff =
       (let exec2 = appended (attempt_record env pname a) exec1
             in if isRetryable (attempt_error env a) policy
                then attempt_loop env pname policy (a + 1) (attempt_result env a) (attempt_error env a) exec2 eff1
                else ((attempt_result env a, attempt_error env a), exec2, eff1))"
    by (rule attempt_loop_go [OF "0.prems", of exec pname res eff]) blast
  moreover have "attempt_loop env pname policy (a + 1) r e x f = ((r, e), x, f)" for r e x f
    by (subst attempt_loop.simps) (simp add: a)
  ultimately show ?case
    by (intro exI [of _ a]) (auto simp: a Let_def goes_on_def retries_def appended_def)
next
  case (Suc d)
  then have a: "a + 1 \<le> MaxAttempts policy" "d = nat (MaxAttempts policy - (a + 1))" by auto
  obtain exec1 eff1 where e1: "ex_Attempts exec1 = ex_Attempts exec"
    and l: "attempt_loop env pname policy a res lastErr exec eff =
       (let exec2 = appended (attempt_record env pname a) exec1
             in if isRetryable (attempt_error env a) policy
                then attempt_loop env pname policy (a + 1) (attempt_result env a) (attempt_error env a) exec2 eff1
                else ((attempt_result env a, attempt_error env a), exec2, eff1))"
    by (rule attempt_loop_go [OF Suc.prems, of exec pname res eff]) blast
  let ?x = "appended (attempt_record env pname a) exec1"
  have x: "ex_Attempts ?x = ex_Attempts exec @ map (attempt_record env pname) [a..a]"
    using e1 by (simp add: appended_def)
  consider (no) "\<not> isRetryable (attempt_error env a) policy"
    | (cut) "isRetryable (attempt_error env a) policy" "env_cut env (a + 1) \<noteq> None"
    | (on) "isRetryable (attempt_error env a) policy" "env_cut env (a + 1) = None" by blast
  then show ?case
  proof cases
    case no
    then show ?thesis
      using Suc.prems l x by (intro exI [of _ a]) (auto simp: Let_def goes_on_def retries_def)
  next
    case cut
    obtain exec2 eff2 where "ex_Attempts exec2 = ex_Attempts ?x"
      "attempt_loop env pname policy (a + 1) (attempt_result env a) (attempt_error env a) ?x eff1 =
         ((attempt_result env a, env_cut env (a + 1)), exec2, eff2)"
      using attempt_loop_step [of "a + 1" policy "attempt_error env a" ?x env pname "attempt_result env a" eff1]
        Suc.prems(1) a(1) cut isRetryable_Some [OF cut(1)] by auto
    moreover have "attempt_result env a = None"
      using isRetryable_Some [OF cut(1)]
      by (auto simp: attempt_result_def attempt_error_def split: attempt_outcome.splits option.splits)
    ultimately show ?thesis
      using Suc.prems l x cut a(1) by (intro exI [of _ a]) (auto simp: Let_def goes_on_def retries_def)
  next
    case on
    have go: "goes_on env policy a" using on a(1) by (simp add: goes_on_def retries_def)
    obtain n where n: "a + 1 \<le> n" "n \<le> MaxAttempts policy" "\<forall>k. a + 1 \<le> k \<and> k < n \<longrightarrow> goes_on env policy k"
      "\<not> goes_on env policy n"
      and r: "ex_Attempts (fst (snd (attempt_loop env pname policy (a + 1) (attempt_result env a) (attempt_error env a) ?x eff1))) =
         ex_Attempts ?x @ map (attempt_record env pname) [a + 1..n]"
        "fst (attempt_loop env pname policy (a + 1) (attempt_result env a) (attempt_error env a) ?x eff1) =
         (if retries env policy n then (None, env_cut env (n + 1)) else (attempt_result env n, attempt_error env n))"
      using Suc.hyps(1) [of "a + 1" "attempt_error env a" "attempt_result env a" ?x eff1] a Suc.prems(1) on isRetryable_Some [OF on(1)]
      by auto
    have "goes_on env policy k" if "a \<le> k" "k < n" for k
      using n(3) go that by (cases "k = a") auto
    moreover have "[a..n] = a # [a + 1..n]" using n(1) by (subst upto.simps) simp
    ultimately show ?thesis
      using n r l on x by (intro exI [of _ n]) (simp add: Let_def)
  qed
qed

text \<open>
  C14: the attempts of an execution.  There is a number \<open>n\<close> of attempts, between one and
  \<open>MaxAttempts\<close>, such that attempts 1 to \<open>n\<close> are recorded, in order and after what was recorded
  before; every one but the last failed with an error that may be retried.  The loop returns the
  last attempt's result or error, or the error of the context when it ended a back-off.  With
  \<open>MaxAttempts\<close> below one the provider is not called and neither a result nor an error comes back.
\<close>
theorem executeAttempts_spec:
  "(MaxAttempts policy < 1 \<longrightarrow> executeAttempts env pname policy exec = ((None, None), exec, [])) \<and>
   (1 \<le> MaxAttempts policy \<longrightarrow> (\<exists>n. 1 \<le> n \<and> n \<le> MaxAttempts policy \<and>
      (\<forall>k. 1 \<le> k \<and> k < n \<longrightarrow> goes_on env policy k) \<and> \<not> goes_on env policy n \<and>
      ex_Attempts (fst (snd (executeAttempts env pname policy exec))) =
        ex_Attempts exec @ map (attempt_record env pname) [1..n] \<and>
      fst (executeAttempts env pname policy exec) =
        (if retries env policy n then (None, env_cut env (n + 1)) else (attempt_result env n, attempt_error env n))))"
proof (intro conjI impI)
  assume "MaxAttempts policy < 1"
  then show "executeAttempts env pname policy exec = ((None, None), exec, [])"
    unfolding executeAttempts_def by (subst attempt_loop.simps) simp
next
  assume "1 \<le> MaxAttempts policy"
  then show "\<exists>n. 1 \<le> n \<and> n \<le> MaxAttempts policy \<and>
      (\<forall>k. 1 \<le> k \<and> k < n \<longrightarrow> goes_on env policy k) \<and> \<not> goes_on env policy n \<and>
      ex_Attempts (fst (snd (executeAttempts env pname policy exec))) =
        ex_Attempts exec @ map (attempt_record env pname) [1..n] \<and>
      fst (executeAttempts env pname policy exec) =
        (if retries env policy n then (None, env_cut env (n + 1)) else (attempt_result env n, attempt_error env n))"
    unfolding executeAttempts_def by (intro attempt_loop_spec) auto
qed

definition flaky_env :: attempt_env where
  "flaky_env = \<lparr>env_start = (\<lambda>k. k), env_end = (\<lambda>k. k + 1),
     env_outcome = (\<lambda>k. if k < 3 then Returned None (Some (GoError ''503'')) else Returned (Some (bare_result ''e'' [] [] None)) None),
     env_total_err = (\<lambda>_. None), env_cut = (\<lambda>_. None), env_draw = (\<lambda>_ d. d - 1)\<rparr>"

definition sample_request :: "string \<Rightarrow> request" where
  "sample_request i = \<lparr>rq_ID = i, rq_ProviderRef = ''openai-primary'', rq_Payload = AStr ''hello'', rq_Priority = [],
     rq_RetryPolicy = None, rq_TimeoutPolicy = None, rq_Metadata = None, rq_ParentID = None, rq_Timeout = 0,
     rq_PriorityLegacy = 1\<rparr>"

definition sample_execution :: execution where
  "sample_execution = \<lparr>ex_ID = ''e'', ex_Request = sample_request ''e'', ex_State = ExecStateRunning,
     ex_Priority = PriorityClassNormal, ex_CreatedAt = 0, ex_StartedAt = Some 0, ex_CompletedAt = None,
     ex_Attempts = [], ex_Result = None, ex_ParentID = None, ex_CancelFunc = True\<rparr>"

theorem executeAttempts_spec_witness:
  "\<exists>n. 1 \<le> n \<and> n \<le> 3 \<and>
      ex_Attempts (fst (snd (executeAttempts flaky_env ''p'' default_retry sample_execution))) =
        map (attempt_record flaky_env ''p'') [1..n] \<and>
      fst (executeAttempts flaky_env ''p'' default_retry sample_execution) = (Some (bare_result ''e'' [] [] None), None)"
proof -
  have m: "MaxAttempts default_retry = 3" "ex_Attempts sample_execution = []"
    by (simp_all add: default_retry_def sample_execution_def)
  obtain n where n: "1 \<le> n" "n \<le> 3" "\<not> goes_on flaky_env default_retry n"
    "ex_Attempts (fst (snd (executeAttempts flaky_env ''p'' default_retry sample_execution))) =
        map (attempt_record flaky_env ''p'') [1..n]"
    "fst (executeAttempts flaky_env ''p'' default_retry sample_execution) =
        (if retries flaky_env default_retry n then (None, env_cut flaky_env (n + 1))
         else (attempt_result flaky_env n, attempt_error flaky_env n))"
    using executeAttempts_spec [of default_retry flaky_env "''p''" sample_execution] by (auto simp: m)
  have "goes_on flaky_env default_retry n" if "n < 3"
    using that by (simp add: goes_on_def retries_def flaky_env_def attempt_error_def isRetryable_def default_retry_def)
  with n(2,3) have "n = 3" by linarith
  with n show ?thesis
    by (intro exI [of _ n])
      (auto simp: retries_def m attempt_result_def attempt_error_def flaky_env_def)
qed

end
