(* ===== verification/Exec_Machine.thy ===== *)
theory Exec_Machine
  imports Exec_Attempts Scheduler Registry Lifecycle
begin

text \<open>
  The shared state of \<open>core/execution/manager.go\<close> and its goroutines.  An \<open>*Execution\<close> is a
  number: its index in \<open>heap\<close>.  A piece of code between two synchronisation points is one function
  of the state; \<open>em_op\<close> names the pieces and \<open>em_step\<close> runs one, \<open>None\<close> when its goroutine is not
  there.  Every interleaving of the real goroutines is a sequence of such pieces.

  \<open>submits\<close> and \<open>runs\<close> say how far \<open>Submit\<close> and \<open>runExecution\<close> have come with an execution.
  \<open>ctx_err\<close> is the error of its total context, nil while that is not done.  Events, counters, tokens and
  costs are appended to \<open>effects\<close>.  The registry holds providers as their names.
\<close>

section \<open>State\<close>

datatype submit_pc = SubNone | SubRegistered | SubQueued | SubEnqueued | SubDone

text \<open>An outgoing stream carries chunks; what a stream run does after a send.\<close>

datatype stream_chunk = Chunk (chunk_id: string) (chunk_content: string) (chunk_usage: "token_usage option") (chunk_error: "go_error option")

datatype stream_next = NextLoop | NextAbort go_error | NextFail go_error

datatype run_pc =
    RunNone
  | RunDispatched                                   (* go em.runExecution(exec) *)
  | RunBegun                                        (* state RUNNING, CancelFunc not set *)
  | RunArmed
  | RunCall string                                  (* provider resolved, before the pipeline *)
  | RunAttempt string int instant                   (* the provider works on an attempt *)
  | RunDecide string int "exec_result option" "go_error option"
  | RunBackoff string int "exec_result option" go_error
  | RunAttempted "exec_result option" "go_error option"
  | RunHandle "exec_result option" "go_error option"
  | RunPublish
  | RunStreamOpen nat
  | RunStream nat                                   (* reads the provider's channel *)
  | RunStreamSend nat stream_chunk stream_next      (* blocked in outCh <- chunk *)
  | RunRelease "nat option"
  | RunNotify "nat option"
  | RunStreamClose nat                              (* deferred: delete and close *)
  | RunPanic string
  | RunPanicRelease
  | RunPanicNotify
  | RunFatal
  | RunDone

text \<open>An outgoing stream: a channel of capacity 16 and what its reader has taken.\<close>

record out_stream =
  os_buffer :: "stream_chunk list"
  os_closed :: bool
  os_read :: "stream_chunk list"

record em =
  heap :: "execution list"
  executions :: "string \<rightharpoonup> nat"
  sched :: "nat priority_scheduler"
  sem :: nat
  sem_cap :: nat
  queue_cap :: nat
  providerActive :: "string \<Rightarrow> int"
  providerLimits :: "string \<rightharpoonup> int"
  waiters :: "string \<Rightarrow> nat list"
  next_waiter :: nat
  closed_waiters :: "nat list"
  pending_waits :: "string list"
  streamChans :: "string \<rightharpoonup> nat"
  streams :: "out_stream list"
  stream_waiting :: "nat list"
  signals :: nat
  scheduling :: bool
  stopped :: bool
  loop_done :: bool
  lc :: lifecycle_manager
  em_registry :: "string registry"
  has_pipeline :: bool
  has_logger :: bool
  submits :: "nat \<Rightarrow> submit_pc"
  runs :: "nat \<Rightarrow> run_pc"
  ctx_err :: "nat \<Rightarrow> go_error option"
  effects :: "effect list"
  exited :: bool

definition NewExecutionManager :: "int \<Rightarrow> int \<Rightarrow> lifecycle_manager \<Rightarrow> string registry \<Rightarrow> bool \<Rightarrow> bool \<Rightarrow> em" where
  "NewExecutionManager GlobalLimit QueueSize lifecycle reg pipeline logger =
     (let globalLimit = (if GlobalLimit \<le> 0 then 1000 else GlobalLimit);
          queueSize = (if QueueSize < 0 then 0 else QueueSize)
      in \<lparr>heap = [], executions = Map.empty, sched = NewPriorityScheduler, sem = 0,
          sem_cap = nat globalLimit, queue_cap = nat queueSize,
          providerActive = (\<lambda>_. 0),
          providerLimits = [''openai-primary'' \<mapsto> 500, ''anthropic-primary'' \<mapsto> 500],
          waiters = (\<lambda>_. []), next_waiter = 0, closed_waiters = [], pending_waits = [],
          streamChans = Map.empty, streams = [], stream_waiting = [], signals = 0, scheduling = False, stopped = False, loop_done = False,
          lc = lifecycle, em_registry = reg, has_pipeline = pipeline, has_logger = logger,
          submits = (\<lambda>_. SubNone), runs = (\<lambda>_. RunNone), ctx_err = (\<lambda>_. None), effects = [], exited = False\<rparr>)"

definition upd :: "nat \<Rightarrow> (execution \<Rightarrow> execution) \<Rightarrow> em \<Rightarrow> em" where
  "upd r f em = em\<lparr>heap := (heap em)[r := f (heap em ! r)]\<rparr>"

definition set_run :: "nat \<Rightarrow> run_pc \<Rightarrow> em \<Rightarrow> em" where
  "set_run r pc em = em\<lparr>runs := (runs em)(r := pc)\<rparr>"

definition set_submit :: "nat \<Rightarrow> submit_pc \<Rightarrow> em \<Rightarrow> em" where
  "set_submit r pc em = em\<lparr>submits := (submits em)(r := pc)\<rparr>"

definition emit :: "effect list \<Rightarrow> em \<Rightarrow> em" where
  "emit es em = em\<lparr>effects := effects em @ es\<rparr>"

definition prio :: "em \<Rightarrow> nat \<Rightarrow> priority_class" where
  "prio em r = ex_Priority (heap em ! r)"

definition id_of :: "em \<Rightarrow> nat \<Rightarrow> string" where
  "id_of em r = ex_ID (heap em ! r)"

definition ref_of :: "em \<Rightarrow> nat \<Rightarrow> string" where
  "ref_of em r = rq_ProviderRef (ex_Request (heap em ! r))"

text \<open>\<open>select { case em.scheduleSignal <- struct{}{}: default: }\<close>, capacity 1000.\<close>

definition signal :: "em \<Rightarrow> em" where
  "signal em = (if signals em < 1000 then em\<lparr>signals := signals em + 1\<rparr> else em)"

section \<open>Submitting\<close>

definition not_ready_error :: "string \<Rightarrow> em \<Rightarrow> go_error" where
  "not_ready_error what em =
     NewError ErrCategoryInternal
       (''cannot accept '' @ what @ '' request: runtime is not ready (current state: '' @ state_name (stateVal (lc em)) @ '')'')
       False None"

text \<open>The identifier of a request, generated as \<open>fresh_id\<close> when it is empty, and its execution.\<close>

definition with_id :: "string \<Rightarrow> request \<Rightarrow> request" where
  "with_id fresh_id req = (if rq_ID req = [] then req\<lparr>rq_ID := fresh_id\<rparr> else req)"

definition new_execution :: "instant \<Rightarrow> request \<Rightarrow> execution" where
  "new_execution now req =
     \<lparr>ex_ID = rq_ID req, ex_Request = req, ex_State = ExecStatePending,
      ex_Priority = (if rq_Priority req = [] then PriorityClassNormal else rq_Priority req),
      ex_CreatedAt = now, ex_StartedAt = None, ex_CompletedAt = None, ex_Attempts = [],
      ex_Result = None, ex_ParentID = rq_ParentID req, ex_CancelFunc = False\<rparr>"

text \<open>Up to the release of \<open>execMu\<close>.\<close>

definition submit_check :: "instant \<Rightarrow> string \<Rightarrow> request \<Rightarrow> em \<Rightarrow> (go_error + nat) \<times> em" where
  "submit_check now fresh_id req em =
     (if \<not> IsReady (lc em) then (Inl (not_ready_error ''execution'' em), em)
      else if rq_ProviderRef req = [] then
        (Inl (NewError ErrCategoryValidation ''provider_ref cannot be empty'' False None), em)
      else
        let exec = new_execution now (with_id fresh_id req)
        in if Size (sched em) \<ge> queue_cap em then
             (Inl (NewError ErrCategorySaturation ''execution queue is full'' False None),
              emit [CounterInc ''runtime_executions_total'' ''status'' ''saturated''] em)
           else
             let r = length (heap em)
             in (Inr r, set_submit r SubRegistered
                   (em\<lparr>heap := heap em @ [exec], executions := (executions em)(ex_ID exec \<mapsto> r)\<rparr>)))"

definition submit_mark :: "nat \<Rightarrow> em \<Rightarrow> em" where
  "submit_mark r em = set_submit r SubQueued (upd r (\<lambda>e. e\<lparr>ex_State := ExecStateQueued\<rparr>) em)"

definition submit_enqueue :: "nat \<Rightarrow> em \<Rightarrow> em" where
  "submit_enqueue r em = set_submit r SubEnqueued (em\<lparr>sched := Enqueue (prio em) r (sched em)\<rparr>)"

definition submit_finish :: "instant \<Rightarrow> nat \<Rightarrow> em \<Rightarrow> em" where
  "submit_finish now r em =
     (let em = emit [Published ''execution.queued''
                (AMap [(''execution_id'', AStr (id_of em r)), (''priority'', AStr (prio em r)),
                       (''queue_depth_at_enqueue'', AInt (int (Size (sched em))))])] em;
          em = signal em;
          em = (if stateVal (lc em) = StateReady
                then (case Transition now StateRunning (lc em) of Inl _ \<Rightarrow> em | Inr lc' \<Rightarrow> em\<lparr>lc := lc'\<rparr>)
                else em)
      in set_submit r SubDone em)"

text \<open>An uninterrupted \<open>Submit\<close>, and the batch that stops at the first error.\<close>

definition Submit :: "instant \<Rightarrow> string \<Rightarrow> request \<Rightarrow> em \<Rightarrow> (go_error + nat) \<times> em" where
  "Submit now fresh_id req em =
     (case submit_check now fresh_id req em of
        (Inl e, em) \<Rightarrow> (Inl e, em)
      | (Inr r, em) \<Rightarrow> (Inr r, submit_finish now r (submit_enqueue r (submit_mark r em))))"

fun submit_batch :: "instant \<Rightarrow> string \<Rightarrow> (string \<times> request) list \<Rightarrow> nat list \<Rightarrow> em \<Rightarrow> (go_error + nat list) \<times> em" where
  "submit_batch now batchID [] execs em = (Inr execs, em)"
| "submit_batch now batchID ((fresh_id, req) # reqs) execs em =
     (let meta = (case rq_Metadata req of None \<Rightarrow> Map.empty | Some m \<Rightarrow> m);
          req = req\<lparr>rq_Metadata := Some (meta(''batch_id'' \<mapsto> batchID))\<rparr>
      in case Submit now fresh_id req em of
           (Inl e, em) \<Rightarrow> (Inl e, em)
         | (Inr r, em) \<Rightarrow> submit_batch now batchID reqs (execs @ [r]) em)"

definition SubmitBatch ::
  "instant \<Rightarrow> (string \<times> request) list \<Rightarrow> em \<Rightarrow> (go_error + string \<times> nat list) \<times> em" where
  "SubmitBatch now reqs em =
     (let batchID = ''batch-'' @ hex_pad 16 (nat now)
      in case submit_batch now batchID reqs [] em of
           (Inl e, em) \<Rightarrow> (Inl e, em)
         | (Inr rs, em) \<Rightarrow> (Inr (batchID, rs), em))"

text \<open>\<open>Stream\<close> submits first and registers its channel afterwards.\<close>

definition stream_register :: "nat \<Rightarrow> em \<Rightarrow> nat \<times> em" where
  "stream_register r em =
     (let c = length (streams em)
      in (c, em\<lparr>streams := streams em @ [\<lparr>os_buffer = [], os_closed = False, os_read = []\<rparr>],
                streamChans := (streamChans em)(id_of em r \<mapsto> c)\<rparr>))"

definition Stream :: "instant \<Rightarrow> string \<Rightarrow> request \<Rightarrow> em \<Rightarrow> (go_error + nat) \<times> em" where
  "Stream now fresh_id req em =
     (if \<not> IsReady (lc em) then (Inl (not_ready_error ''stream'' em), em)
      else case Submit now fresh_id req em of
             (Inl e, em) \<Rightarrow> (Inl e, em)
           | (Inr r, em) \<Rightarrow> (case stream_register r em of (c, em) \<Rightarrow> (Inr c, em)))"

section \<open>Looking up, cancelling, waiting\<close>

definition not_found :: go_error where
  "not_found = NewError ErrCategoryValidation ''execution not found'' False None"

definition Get :: "string \<Rightarrow> em \<Rightarrow> go_error + nat" where
  "Get executionID em = (case executions em executionID of None \<Rightarrow> Inl not_found | Some r \<Rightarrow> Inr r)"

definition notifyWaiters :: "string \<Rightarrow> em \<Rightarrow> em" where
  "notifyWaiters executionID em =
     em\<lparr>closed_waiters := closed_waiters em @ waiters em executionID,
        waiters := (waiters em)(executionID := [])\<rparr>"

definition caller_cancelled :: "string \<Rightarrow> exec_result" where
  "caller_cancelled executionID =
     bare_result executionID StatusCancelled ExecStateCancelled
       (Some \<lparr>ee_Category = ErrCategoryCancelled, ee_Message = ''execution cancelled by caller before running'',
              ee_Retryable = False\<rparr>)"

text \<open>\<open>ord\<close> is the order in which \<open>scheduler.Remove\<close> visits the classes.\<close>

definition Cancel :: "instant \<Rightarrow> priority_class list \<Rightarrow> string \<Rightarrow> em \<Rightarrow> go_error option \<times> em" where
  "Cancel now ord executionID em =
     (case executions em executionID of
        None \<Rightarrow> (Some not_found, em)
      | Some r \<Rightarrow>
          let state = ex_State (heap em ! r)
          in if isTerminalState state then (None, em)
             else if state = ExecStatePending \<or> state = ExecStateQueued \<or> state = ExecStateRetrying then
               (let em = em\<lparr>sched := snd (Remove ord (id_of em) executionID (sched em))\<rparr>;
                    em = upd r (\<lambda>e. e\<lparr>ex_State := ExecStateCancelled, ex_CompletedAt := Some now,
                                      ex_Result := Some (caller_cancelled executionID)\<rparr>) em;
                    em = emit [Published ''execution.cancelled''
                           (AMap [(''execution_id'', AStr executionID), (''reason'', AStr ''caller_requested'')])] em
                in (None, notifyWaiters executionID em))
             else if state = ExecStateRunning \<and> ex_CancelFunc (heap em ! r) then
               (None, em\<lparr>ctx_err := (ctx_err em)(r := (case ctx_err em r of
                            None \<Rightarrow> Some (GoError ''context canceled'') | Some e \<Rightarrow> Some e))\<rparr>)
             else (None, em))"

text \<open>
  \<open>Wait\<close>: a look at the state, then the registration of a channel; what it returns once the channel
  is closed.
\<close>

definition wait_check :: "string \<Rightarrow> em \<Rightarrow> (go_error + exec_result option option) \<times> em" where
  "wait_check executionID em =
     (case executions em executionID of
        None \<Rightarrow> (Inl not_found, em)
      | Some r \<Rightarrow>
          if isTerminalState (ex_State (heap em ! r)) then (Inr (Some (ex_Result (heap em ! r))), em)
          else (Inr None, em\<lparr>pending_waits := pending_waits em @ [executionID]\<rparr>))"

definition wait_register :: "string \<Rightarrow> em \<Rightarrow> nat \<times> em" where
  "wait_register executionID em =
     (let ch = next_waiter em
      in (ch, em\<lparr>next_waiter := ch + 1, pending_waits := remove_first (\<lambda>i. i = executionID) (pending_waits em),
                 waiters := (waiters em)(executionID := waiters em executionID @ [ch])\<rparr>))"

definition wait_result :: "string \<Rightarrow> em \<Rightarrow> exec_result option" where
  "wait_result executionID em =
     (case executions em executionID of None \<Rightarrow> None | Some r \<Rightarrow> ex_Result (heap em ! r))"

section \<open>Scheduling\<close>

definition can_schedule :: "em \<Rightarrow> nat \<Rightarrow> bool" where
  "can_schedule em r =
     (let pName = ref_of em r
      in if pName = [] then True
         else (case providerLimits em pName of
                 None \<Rightarrow> True
               | Some limit \<Rightarrow> \<not> providerActive em pName \<ge> limit))"

text \<open>One turn of the loop of \<open>scheduleNext\<close>.\<close>

definition schedule_iter :: "em \<Rightarrow> em" where
  "schedule_iter em =
     (if sem em \<ge> sem_cap em then em\<lparr>scheduling := False\<rparr>
      else case Dequeue (Some (can_schedule em)) (sched em) of
             (None, ps) \<Rightarrow> em\<lparr>sched := ps, scheduling := False\<rparr>
           | (Some r, ps) \<Rightarrow>
               let pName = ref_of em r;
                   em = em\<lparr>sched := ps, sem := sem em + 1\<rparr>;
                   em = (if pName = [] then em
                         else em\<lparr>providerActive := (providerActive em)(pName := providerActive em pName + 1)\<rparr>)
               in set_run r RunDispatched em)"

definition releaseSlots :: "nat \<Rightarrow> em \<Rightarrow> em" where
  "releaseSlots r em =
     (let pName = ref_of em r;
          em = em\<lparr>sem := sem em - 1\<rparr>;
          em = (if pName = [] then em
                else em\<lparr>providerActive := (providerActive em)(pName := providerActive em pName - 1)\<rparr>)
      in signal em)"

definition ActiveCount :: "em \<Rightarrow> nat" where
  "ActiveCount em = sem em"

definition Shutdown :: "em \<Rightarrow> string + em" where
  "Shutdown em = (if stopped em then Inl ''close of closed channel'' else Inr (em\<lparr>stopped := True\<rparr>))"

section \<open>Running one execution\<close>

definition complete :: "instant \<Rightarrow> execution_state \<Rightarrow> exec_result \<Rightarrow> execution \<Rightarrow> execution" where
  "complete now s res e = e\<lparr>ex_State := s, ex_CompletedAt := Some now, ex_Result := Some res\<rparr>"

definition run_begin :: "instant \<Rightarrow> nat \<Rightarrow> em \<Rightarrow> em" where
  "run_begin now r em =
     (let em = upd r (\<lambda>e. e\<lparr>ex_State := ExecStateRunning, ex_StartedAt := Some now\<rparr>) em
      in set_run r RunBegun (emit [Published ''execution.started''
           (AMap [(''attempt_number'', AInt 1), (''execution_id'', AStr (id_of em r)),
                  (''provider_ref'', AStr (ref_of em r))])] em))"

text \<open>\<open>context.WithTimeout\<close> with a timeout that is not positive gives a context that is done.\<close>

definition deadline_exceeded :: go_error where
  "deadline_exceeded = GoError ''context deadline exceeded''"

definition policies :: "em \<Rightarrow> nat \<Rightarrow> retry_policy \<times> timeout_policy" where
  "policies em r = resolvePolicies (ex_Request (heap em ! r))"

definition run_arm :: "nat \<Rightarrow> em \<Rightarrow> em" where
  "run_arm r em =
     set_run r RunArmed (upd r (\<lambda>e. e\<lparr>ex_CancelFunc := True\<rparr>)
       (em\<lparr>ctx_err := (ctx_err em)(r := (if Total (snd (policies em r)) \<le> 0 then Some deadline_exceeded else None))\<rparr>))"

definition run_resolve :: "instant \<Rightarrow> string list \<Rightarrow> nat \<Rightarrow> em \<Rightarrow> em" where
  "run_resolve now ord r em =
     (case Resolve ord (ref_of em r) (em_registry em) of
        Inl err \<Rightarrow>
          let em = upd r (complete now ExecStateFailed (bare_result (id_of em r) StatusFailed ExecStateFailed
                     (Some \<lparr>ee_Category = ErrCategoryInternal,
                            ee_Message = ''failed to resolve provider: '' @ Error err, ee_Retryable = False\<rparr>))) em
          in set_run r (RunRelease None) (emit [Published ''execution.failed''
               (AMap [(''attempt_count'', AInt 0), (''error_category'', AStr ErrCategoryInternal),
                      (''execution_id'', AStr (id_of em r))])] em)
      | Inr pname \<Rightarrow>
          (case streamChans em (id_of em r) of
             Some c \<Rightarrow> set_run r (RunStreamOpen c) em
           | None \<Rightarrow> set_run r (RunCall pname) em))"

text \<open>The head of the attempt loop.\<close>

definition next_attempt :: "instant \<Rightarrow> string \<Rightarrow> int \<Rightarrow> nat \<Rightarrow> em \<Rightarrow> em" where
  "next_attempt now pname k r em =
     set_run r (if k \<le> MaxAttempts (fst (policies em r)) then RunAttempt pname k now else RunAttempted None None) em"

definition attempt_end :: "instant \<Rightarrow> attempt_outcome \<Rightarrow> string \<Rightarrow> int \<Rightarrow> instant \<Rightarrow> nat \<Rightarrow> em \<Rightarrow> em" where
  "attempt_end now outcome pname k started r em =
     (case runSingleAttempt pname k started now (ctx_err em r) outcome (heap em ! r) of
        ((res, err), exec, es) \<Rightarrow> set_run r (RunDecide pname k res err) (emit es (upd r (\<lambda>_. exec) em)))"

definition decide :: "(int \<Rightarrow> int) \<Rightarrow> string \<Rightarrow> int \<Rightarrow> exec_result option \<Rightarrow> go_error option \<Rightarrow> nat \<Rightarrow> em \<Rightarrow> em" where
  "decide Intn pname k res err r em =
     (let retryPolicy = fst (policies em r)
      in case err of
           None \<Rightarrow> set_run r (RunAttempted res None) em
         | Some e \<Rightarrow>
             if \<not> isRetryable (Some e) retryPolicy \<or> \<not> k + 1 \<le> MaxAttempts retryPolicy
             then set_run r (RunAttempted res (Some e)) em
             else (case begin_backoff Intn retryPolicy (k + 1) e (heap em ! r) of
                     (exec, es) \<Rightarrow> set_run r (RunBackoff pname (k + 1) res e) (emit es (upd r (\<lambda>_. exec) em))))"

definition backoff_over :: "instant \<Rightarrow> string \<Rightarrow> int \<Rightarrow> nat \<Rightarrow> em \<Rightarrow> em" where
  "backoff_over now pname k r em = set_run r (RunAttempt pname k now) (upd r (\<lambda>e. snd (end_backoff None e)) em)"

definition run_handle :: "instant \<Rightarrow> duration \<Rightarrow> exec_result option \<Rightarrow> go_error option \<Rightarrow> nat \<Rightarrow> em \<Rightarrow> em" where
  "run_handle now elapsed res err r em =
     (case handleResult now elapsed err res (heap em ! r) of
        None \<Rightarrow> set_run r (RunPanic ''invalid memory address or nil pointer dereference'')
                  (upd r (\<lambda>e. e\<lparr>ex_CompletedAt := Some now\<rparr>) em)
      | Some exec \<Rightarrow> set_run r RunPublish (upd r (\<lambda>_. exec) em))"

definition zero_usage :: token_usage where
  "zero_usage = \<lparr>PromptTokens = 0, CompletionTokens = 0, TotalTokens = 0\<rparr>"

definition show_usage :: "token_usage \<Rightarrow> any" where
  "show_usage u = AOther (''{'' @ show_int (PromptTokens u) @ '' '' @ show_int (CompletionTokens u) @ '' '' @ show_int (TotalTokens u) @ ''}'')"

text \<open>\<open>publishOutcomeEvents\<close>; a nil \<open>exec.Result.Error\<close> in the default branch panics, here \<open>None\<close>.\<close>

definition publishOutcomeEvents :: "execution \<Rightarrow> execution_state \<Rightarrow> duration \<Rightarrow> effect list option" where
  "publishOutcomeEvents exec finalState timeout =
     (let counted = (\<lambda>status. CounterInc ''runtime_executions_total'' ''status'' status);
          execution_id = (''execution_id'', AStr (ex_ID exec))
      in case ex_Result exec of
           None \<Rightarrow> None
         | Some res \<Rightarrow>
             if finalState = ExecStateSucceeded then
               (let tok = (case er_TokenUsage res of Some u \<Rightarrow> u | None \<Rightarrow> zero_usage)
                in Some [Published ''execution.succeeded''
                           (AMap [(''duration_ms'', AInt (Milliseconds (er_Duration res))), execution_id,
                                  (''token_usage'', show_usage tok)]),
                         counted ''succeeded''])
             else if finalState = ExecStateTimedOut then
               Some [Published ''execution.timed_out''
                       (AMap [(''configured_timeout_ms'', AInt (Milliseconds timeout)),
                              (''elapsed_ms'', AInt (Milliseconds (er_Duration res))), execution_id]),
                     counted ''timed_out'']
             else if finalState = ExecStateCancelled then
               Some [Published ''execution.cancelled'' (AMap [execution_id, (''reason'', AStr ''caller_requested'')]),
                     counted ''cancelled'']
             else (case er_Error res of
                     None \<Rightarrow> None
                   | Some e \<Rightarrow>
                       Some [Published ''execution.failed''
                               (AMap [(''attempt_count'', AInt (int (length (ex_Attempts exec)))),
                                      (''error_category'', AStr (ee_Category e)), execution_id]),
                             counted ''failed'']))"

definition run_publish :: "nat \<Rightarrow> em \<Rightarrow> em" where
  "run_publish r em =
     (case publishOutcomeEvents (heap em ! r) (ex_State (heap em ! r)) (Total (snd (policies em r))) of
        None \<Rightarrow> set_run r (RunPanic ''invalid memory address or nil pointer dereference'') em
      | Some es \<Rightarrow> set_run r (RunRelease None) (emit es em))"

text \<open>The deferred function: what \<open>recover\<close> does with a panic.\<close>

definition run_recover :: "instant \<Rightarrow> string \<Rightarrow> nat \<Rightarrow> em \<Rightarrow> em" where
  "run_recover now msg r em =
     set_run r RunPanicRelease (upd r (complete now ExecStateFailed
       (bare_result (id_of em r) StatusFailed ExecStateFailed
          (Some \<lparr>ee_Category = ErrCategoryInternal, ee_Message = ''internal panic: '' @ msg, ee_Retryable = False\<rparr>))) em)"

section \<open>Running a stream\<close>

definition set_stream :: "nat \<Rightarrow> (out_stream \<Rightarrow> out_stream) \<Rightarrow> em \<Rightarrow> em" where
  "set_stream c f em = em\<lparr>streams := (streams em)[c := f (streams em ! c)]\<rparr>"

text \<open>\<open>p.Stream\<close> has returned.\<close>

definition stream_opened :: "go_error option \<Rightarrow> nat \<Rightarrow> nat \<Rightarrow> em \<Rightarrow> em" where
  "stream_opened err c r em =
     (case err of
        Some e \<Rightarrow> set_run r (RunStreamSend c (Chunk (id_of em r) [] None (Some e)) (NextFail e)) em
      | None \<Rightarrow> set_run r (RunStream c) em)"

definition stream_failed :: "instant \<Rightarrow> go_error \<Rightarrow> nat \<Rightarrow> nat \<Rightarrow> em \<Rightarrow> em" where
  "stream_failed now e c r em =
     (let em = upd r (complete now ExecStateFailed
                 (bare_result (id_of em r) StatusFailed ExecStateFailed (ToExecutionError (Some e)))) em
      in set_run r (RunRelease (Some c)) (emit [Published ''execution.failed''
           (AMap [(''error_category'', AStr ErrCategoryProvider), (''execution_id'', AStr (id_of em r))])] em))"

definition stream_ended :: "instant \<Rightarrow> nat \<Rightarrow> nat \<Rightarrow> em \<Rightarrow> em" where
  "stream_ended now c r em =
     (let em = upd r (complete now ExecStateSucceeded (bare_result (id_of em r) StatusSucceeded ExecStateSucceeded None)) em
      in set_run r (RunRelease (Some c)) (emit [Published ''execution.succeeded''
           (AMap [(''execution_id'', AStr (id_of em r))])] em))"

definition stream_aborted :: "instant \<Rightarrow> go_error \<Rightarrow> nat \<Rightarrow> nat \<Rightarrow> em \<Rightarrow> em" where
  "stream_aborted now e c r em =
     (let em = upd r (complete now ExecStateTimedOut
                 (bare_result (id_of em r) StatusTimedOut ExecStateTimedOut (ToExecutionError (Some e)))) em
      in set_run r (RunRelease (Some c)) (emit [Published ''execution.timed_out''
           (AMap [(''execution_id'', AStr (id_of em r))])] em))"

text \<open>The deferred function of a stream run: the second close of one channel panics.\<close>

definition stream_close :: "nat \<Rightarrow> nat \<Rightarrow> em \<Rightarrow> em" where
  "stream_close c r em =
     (let em = em\<lparr>streamChans := (streamChans em)(id_of em r := None)\<rparr>
      in if os_closed (streams em ! c) then set_run r (RunPanic ''close of closed channel'') em
         else set_run r RunDone (set_stream c (\<lambda>s. s\<lparr>os_closed := True\<rparr>) em))"

text \<open>
  The send of a chunk waits while the channel is full.  On a closed channel, which another
  execution with the same identifier may have closed, it panics; the deferred function runs and
  panics again.
\<close>

definition stream_send :: "instant \<Rightarrow> nat \<Rightarrow> stream_chunk \<Rightarrow> stream_next \<Rightarrow> nat \<Rightarrow> em \<Rightarrow> em option" where
  "stream_send now c chunk next r em =
     (if os_closed (streams em ! c) then Some (stream_close c r em)
      else if length (os_buffer (streams em ! c)) \<ge> 16 then None
      else (let em = set_stream c (\<lambda>s. s\<lparr>os_buffer := os_buffer s @ [chunk]\<rparr>) em
            in Some (case next of
                       NextLoop \<Rightarrow> set_run r (RunStream c) em
                     | NextAbort e \<Rightarrow> stream_aborted now e c r em
                     | NextFail e \<Rightarrow> stream_failed now e c r em)))"

section \<open>The machine\<close>

datatype em_op =
    SubmitCheck instant string request bool           (* the flag: called by Stream *)
  | SubmitMark nat
  | SubmitEnqueue nat
  | SubmitFinish instant nat
  | StreamRegister nat
  | CancelCall instant "priority_class list" string
  | WaitCheck string
  | WaitRegister string
  | LoopWake
  | LoopTurn
  | LoopExit
  | ShutdownCall
  | RunBegin instant nat
  | RunArm nat
  | RunResolve instant "string list" nat
  | PipelineShort "exec_result option" "go_error option" nat
  | PipelineCall instant nat
  | AttemptReturns instant "exec_result option" "go_error option" nat
  | AttemptTimesOut instant nat
  | AttemptDecide int nat                             (* the int: the jitter that is drawn *)
  | BackoffOver instant nat
  | BackoffCut nat
  | PipelineReturn "exec_result option" "go_error option" nat
  | HandleResult instant duration nat
  | PublishOutcome nat
  | ReleaseSlots nat
  | NotifyWaiters nat
  | Recover instant nat
  | FatalLog nat
  | DeadlinePasses nat
  | StreamOpens "go_error option" nat
  | StreamReceives stream_chunk nat
  | StreamEnds instant nat
  | StreamAborts nat
  | StreamSends instant nat
  | StreamCloses nat
  | StreamReads nat

text \<open>
  \<open>Resolve\<close> sees the registered names in the order of a range.  The test only asks what it needs:
  the names are registered, and the list is not empty when the wanted name is.
\<close>

definition listing :: "string list \<Rightarrow> string \<Rightarrow> string registry \<Rightarrow> bool" where
  "listing ord name reg \<longleftrightarrow>
     list_all (\<lambda>n. providers reg n \<noteq> None) ord \<and> (providers reg name \<noteq> None \<longrightarrow> ord \<noteq> [])"

lemma listing_range: "range_of (providers reg) ord \<Longrightarrow> listing ord name reg"
  by (auto simp: range_of_def listing_def list_all_iff)

definition guarded :: "bool \<Rightarrow> em \<Rightarrow> em option" where
  "guarded b em = (if b then Some em else None)"

lemma guarded_Some [simp]: "guarded b x = Some y \<longleftrightarrow> b \<and> x = y"
  by (simp add: guarded_def)

fun em_piece :: "em_op \<Rightarrow> em \<Rightarrow> em option" where
  "em_piece (SubmitCheck now fresh_id req is_stream) em =
     (case submit_check now fresh_id req em of
        (Inl e, em) \<Rightarrow> Some em
      | (Inr r, em) \<Rightarrow> Some (if is_stream then em\<lparr>stream_waiting := r # stream_waiting em\<rparr> else em))"
| "em_piece (SubmitMark r) em = guarded (submits em r = SubRegistered) (submit_mark r em)"
| "em_piece (SubmitEnqueue r) em = guarded (submits em r = SubQueued) (submit_enqueue r em)"
| "em_piece (SubmitFinish now r) em = guarded (submits em r = SubEnqueued) (submit_finish now r em)"
| "em_piece (StreamRegister r) em =
     guarded (submits em r = SubDone \<and> r \<in> set (stream_waiting em))
       (snd (stream_register r (em\<lparr>stream_waiting := remove_first (\<lambda>i. i = r) (stream_waiting em)\<rparr>)))"
| "em_piece (CancelCall now ord i) em =
     guarded (set (map fst (queues (sched em))) \<subseteq> set ord) (snd (Cancel now ord i em))"
| "em_piece (WaitCheck i) em = Some (snd (wait_check i em))"
| "em_piece (WaitRegister i) em = guarded (i \<in> set (pending_waits em)) (snd (wait_register i em))"
| "em_piece LoopWake em =
     guarded (0 < signals em \<and> \<not> scheduling em \<and> \<not> loop_done em) (em\<lparr>signals := signals em - 1, scheduling := True\<rparr>)"
| "em_piece LoopTurn em = guarded (scheduling em) (schedule_iter em)"
| "em_piece LoopExit em = guarded (stopped em \<and> \<not> scheduling em) (em\<lparr>loop_done := True\<rparr>)"
| "em_piece ShutdownCall em = (case Shutdown em of Inl _ \<Rightarrow> Some (em\<lparr>exited := True\<rparr>) | Inr em' \<Rightarrow> Some em')"
| "em_piece (RunBegin now r) em = guarded (runs em r = RunDispatched) (run_begin now r em)"
| "em_piece (RunArm r) em = guarded (runs em r = RunBegun) (run_arm r em)"
| "em_piece (RunResolve now ord r) em =
     guarded (runs em r = RunArmed \<and> listing ord (ref_of em r) (em_registry em)) (run_resolve now ord r em)"
| "em_piece (PipelineShort res err r) em =
     (case runs em r of RunCall p \<Rightarrow> guarded (has_pipeline em) (set_run r (RunHandle res err) em) | _ \<Rightarrow> None)"
| "em_piece (PipelineCall now r) em =
     (case runs em r of RunCall p \<Rightarrow> Some (next_attempt now p 1 r em) | _ \<Rightarrow> None)"
| "em_piece (AttemptReturns now res err r) em =
     (case runs em r of RunAttempt p k started \<Rightarrow> Some (attempt_end now (Returned res err) p k started r em) | _ \<Rightarrow> None)"
| "em_piece (AttemptTimesOut now r) em =
     (case runs em r of
        RunAttempt p k started \<Rightarrow>
          Some (attempt_end now (AttemptDone (case ctx_err em r of Some e \<Rightarrow> e | None \<Rightarrow> deadline_exceeded)) p k started r em)
      | _ \<Rightarrow> None)"
| "em_piece (AttemptDecide draw r) em =
     (case runs em r of RunDecide p k res err \<Rightarrow> Some (decide (\<lambda>_. draw) p k res err r em) | _ \<Rightarrow> None)"
| "em_piece (BackoffOver now r) em =
     (case runs em r of RunBackoff p k res e \<Rightarrow> Some (backoff_over now p k r em) | _ \<Rightarrow> None)"
| "em_piece (BackoffCut r) em =
     (case (runs em r, ctx_err em r) of
        (RunBackoff p k res e, Some err) \<Rightarrow> Some (set_run r (RunAttempted res (Some err)) em)
      | _ \<Rightarrow> None)"
| "em_piece (PipelineReturn res err r) em =
     (case runs em r of
        RunAttempted res0 err0 \<Rightarrow> guarded (has_pipeline em \<or> (res, err) = (res0, err0)) (set_run r (RunHandle res err) em)
      | _ \<Rightarrow> None)"
| "em_piece (HandleResult now elapsed r) em =
     (case runs em r of RunHandle res err \<Rightarrow> Some (run_handle now elapsed res err r em) | _ \<Rightarrow> None)"
| "em_piece (PublishOutcome r) em = guarded (runs em r = RunPublish) (run_publish r em)"
| "em_piece (ReleaseSlots r) em =
     (case runs em r of
        RunRelease c \<Rightarrow> guarded (0 < sem em) (set_run r (RunNotify c) (releaseSlots r em))
      | RunPanicRelease \<Rightarrow> guarded (0 < sem em) (set_run r RunPanicNotify (releaseSlots r em))
      | _ \<Rightarrow> None)"
| "em_piece (NotifyWaiters r) em =
     (case runs em r of
        RunNotify None \<Rightarrow> Some (set_run r RunDone (notifyWaiters (id_of em r) em))
      | RunNotify (Some c) \<Rightarrow> Some (set_run r (RunStreamClose c) (notifyWaiters (id_of em r) em))
      | RunPanicNotify \<Rightarrow>
          Some (set_run r (if has_logger em then RunFatal else RunDone) (notifyWaiters (id_of em r) em))
      | _ \<Rightarrow> None)"
| "em_piece (Recover now r) em =
     (case runs em r of RunPanic msg \<Rightarrow> Some (run_recover now msg r em) | _ \<Rightarrow> None)"
| "em_piece (FatalLog r) em = guarded (runs em r = RunFatal) ((set_run r RunDone em)\<lparr>exited := True\<rparr>)"
| "em_piece (DeadlinePasses r) em =
     guarded (ex_CancelFunc (heap em ! r) \<and> ctx_err em r = None) (em\<lparr>ctx_err := (ctx_err em)(r := Some deadline_exceeded)\<rparr>)"
| "em_piece (StreamOpens err r) em =
     (case runs em r of RunStreamOpen c \<Rightarrow> Some (stream_opened err c r em) | _ \<Rightarrow> None)"
| "em_piece (StreamReceives chunk r) em =
     (case runs em r of RunStream c \<Rightarrow> Some (set_run r (RunStreamSend c chunk NextLoop) em) | _ \<Rightarrow> None)"
| "em_piece (StreamEnds now r) em =
     (case runs em r of RunStream c \<Rightarrow> Some (stream_ended now c r em) | _ \<Rightarrow> None)"
| "em_piece (StreamAborts r) em =
     (case (runs em r, ctx_err em r) of
        (RunStream c, Some e) \<Rightarrow> Some (set_run r (RunStreamSend c (Chunk (id_of em r) [] None (Some e)) (NextAbort e)) em)
      | _ \<Rightarrow> None)"
| "em_piece (StreamSends now r) em =
     (case runs em r of RunStreamSend c chunk next \<Rightarrow> stream_send now c chunk next r em | _ \<Rightarrow> None)"
| "em_piece (StreamCloses r) em =
     (case runs em r of RunStreamClose c \<Rightarrow> Some (stream_close c r em) | _ \<Rightarrow> None)"
| "em_piece (StreamReads c) em =
     (if c < length (streams em) then
        (case os_buffer (streams em ! c) of
           [] \<Rightarrow> None
         | x # xs \<Rightarrow> Some (set_stream c (\<lambda>s. s\<lparr>os_buffer := xs, os_read := os_read s @ [x]\<rparr>) em))
      else None)"

text \<open>After the process has exited nothing runs.\<close>

definition em_step :: "em \<Rightarrow> em_op \<Rightarrow> em \<Rightarrow> bool" where
  "em_step em op em' \<longleftrightarrow> \<not> exited em \<and> em_piece op em = Some em'"

fun em_run :: "em_op list \<Rightarrow> em \<Rightarrow> em option" where
  "em_run [] em = Some em"
| "em_run (op # ops) em =
     (if exited em then None else (case em_piece op em of None \<Rightarrow> None | Some em' \<Rightarrow> em_run ops em'))"

lemma em_run_iff: "em_run ops em = Some em' \<longleftrightarrow> run em_step em ops em'"
  by (induction ops arbitrary: em) (auto simp: em_step_def split: option.splits)

end
