(* ===== verification/Slot_Machine.thy ===== *)
theory Slot_Machine
  imports Exec_Machine
begin

text \<open>
  What the execution manager promises about its slots, as an abstract machine: executions are
  registered, queued, dispatched into a slot while there is one, and released; the scheduler
  loop sleeps only when there is nothing to do or a signal is on its way.  \<open>Exec_Laws\<close> shows that every
  piece of the concrete machine is a step of this one.
\<close>

datatype phase = Waiting | Holding | Released

record slots =
  s_count :: nat
  s_queued :: "nat multiset"
  s_submit :: "nat \<Rightarrow> submit_pc"
  s_phase :: "nat \<Rightarrow> phase"
  s_ref :: "nat \<Rightarrow> string"
  s_class :: "nat \<Rightarrow> priority_class"
  s_sem :: nat
  s_cap :: nat
  s_active :: "string \<Rightarrow> int"
  s_limits :: "string \<rightharpoonup> int"
  s_signals :: nat
  s_looping :: bool

definition s_fits :: "slots \<Rightarrow> nat \<Rightarrow> bool" where
  "s_fits v r \<longleftrightarrow> s_ref v r = [] \<or> (case s_limits v (s_ref v r) of None \<Rightarrow> True | Some l \<Rightarrow> s_active v (s_ref v r) < l)"

definition s_known :: "slots \<Rightarrow> nat \<Rightarrow> bool" where
  "s_known v r \<longleftrightarrow> s_class v r \<in> set priorityOrder"

text \<open>An execution the loop would dispatch.\<close>

definition s_ready :: "slots \<Rightarrow> nat \<Rightarrow> bool" where
  "s_ready v r \<longleftrightarrow> r \<in># s_queued v \<and> s_known v r \<and> s_fits v r"

definition bump :: "nat \<Rightarrow> nat" where "bump n = (if n < 1000 then n + 1 else n)"

definition s_claim :: "int \<Rightarrow> nat \<Rightarrow> slots \<Rightarrow> string \<Rightarrow> int" where
  "s_claim d r v = (if s_ref v r = [] then s_active v else (s_active v)(s_ref v r := s_active v (s_ref v r) + d))"

inductive slot_step :: "slots \<Rightarrow> unit \<Rightarrow> slots \<Rightarrow> bool" where
  stutter: "slot_step v () v"
| register: "slot_step v () (v\<lparr>s_count := s_count v + 1, s_submit := (s_submit v)(s_count v := SubRegistered),
     s_ref := (s_ref v)(s_count v := p), s_class := (s_class v)(s_count v := c)\<rparr>)"
| mark: "s_submit v r = SubRegistered \<Longrightarrow> slot_step v () (v\<lparr>s_submit := (s_submit v)(r := SubQueued)\<rparr>)"
| enqueue: "s_submit v r = SubQueued \<Longrightarrow>
     slot_step v () (v\<lparr>s_submit := (s_submit v)(r := SubEnqueued), s_queued := add_mset r (s_queued v)\<rparr>)"
| finish: "s_submit v r = SubEnqueued \<Longrightarrow>
     slot_step v () (v\<lparr>s_submit := (s_submit v)(r := SubDone), s_signals := bump (s_signals v)\<rparr>)"
| withdraw: "r \<in># s_queued v \<Longrightarrow> slot_step v () (v\<lparr>s_queued := s_queued v - {#r#}\<rparr>)"
| wake: "0 < s_signals v \<Longrightarrow> slot_step v () (v\<lparr>s_signals := s_signals v - 1, s_looping := True\<rparr>)"
| rest: "s_cap v \<le> s_sem v \<or> (\<forall>r. \<not> s_ready v r) \<Longrightarrow> slot_step v () (v\<lparr>s_looping := False\<rparr>)"
| halt: "slot_step v () (v\<lparr>s_looping := True\<rparr>)"
| dispatch: "s_sem v < s_cap v \<Longrightarrow> s_ready v r \<Longrightarrow>
     slot_step v () (v\<lparr>s_queued := s_queued v - {#r#}, s_sem := s_sem v + 1, s_active := s_claim 1 r v,
                       s_phase := (s_phase v)(r := Holding)\<rparr>)"
| release: "s_phase v r = Holding \<Longrightarrow> 0 < s_sem v \<Longrightarrow>
     slot_step v () (v\<lparr>s_sem := s_sem v - 1, s_active := s_claim (- 1) r v, s_phase := (s_phase v)(r := Released),
                       s_signals := bump (s_signals v)\<rparr>)"

section \<open>The invariant\<close>

definition s_holders :: "slots \<Rightarrow> nat list" where
  "s_holders v = filter (\<lambda>r. s_phase v r = Holding) [0..<s_count v]"

text \<open>
  Ownership: an execution is queued at most once, and only after it was enqueued and before it is
  dispatched.  Accounting: the semaphore and the provider counters count the executions
  that hold a slot, and stay within their limits.  No stall: when a slot is free and an
  execution is ready, the loop is running or has a signal, or a submitter is about to signal.
\<close>

definition owned_at :: "slots \<Rightarrow> nat \<Rightarrow> bool" where
  "owned_at v r \<longleftrightarrow> (s_count v \<le> r \<longrightarrow> s_submit v r = SubNone) \<and>
     (s_submit v r \<in> {SubNone, SubRegistered, SubQueued} \<longrightarrow> s_phase v r = Waiting \<and> count (s_queued v) r = 0) \<and>
     (0 < count (s_queued v) r \<longrightarrow> s_phase v r = Waiting) \<and> count (s_queued v) r \<le> 1"

definition owned :: "slots \<Rightarrow> bool" where
  "owned v \<longleftrightarrow> (\<forall>r. owned_at v r)"

definition accounted :: "slots \<Rightarrow> bool" where
  "accounted v \<longleftrightarrow> s_sem v = length (s_holders v) \<and> s_sem v \<le> s_cap v \<and>
     (\<forall>p. p \<noteq> [] \<longrightarrow> s_active v p = int (length (filter (\<lambda>r. s_ref v r = p) (s_holders v)))) \<and>
     (\<forall>p l. s_limits v p = Some l \<longrightarrow> p \<noteq> [] \<longrightarrow> s_active v p \<le> l)"

definition no_stall :: "slots \<Rightarrow> bool" where
  "no_stall v \<longleftrightarrow> s_cap v \<le> s_sem v \<or> (\<forall>r. \<not> s_ready v r) \<or> s_looping v \<or> 0 < s_signals v \<or>
     (\<exists>r. s_submit v r = SubEnqueued)"

lemma bump_pos [simp]: "0 < bump n"
  by (simp add: bump_def)

lemma owned_atD:
  assumes "owned_at v r"
  shows "s_count v \<le> r \<Longrightarrow> s_submit v r = SubNone"
    "s_submit v r = SubNone \<Longrightarrow> s_phase v r = Waiting" "s_submit v r = SubNone \<Longrightarrow> count (s_queued v) r = 0"
    "s_submit v r = SubRegistered \<Longrightarrow> s_phase v r = Waiting" "s_submit v r = SubRegistered \<Longrightarrow> count (s_queued v) r = 0"
    "s_submit v r = SubQueued \<Longrightarrow> s_phase v r = Waiting" "s_submit v r = SubQueued \<Longrightarrow> count (s_queued v) r = 0"
    "0 < count (s_queued v) r \<Longrightarrow> s_phase v r = Waiting" "count (s_queued v) r \<le> 1"
  using assms by (auto simp: owned_at_def)

lemma owned_atI:
  assumes "s_count v \<le> r \<Longrightarrow> s_submit v r = SubNone"
    "s_submit v r \<in> {SubNone, SubRegistered, SubQueued} \<Longrightarrow> s_phase v r = Waiting \<and> count (s_queued v) r = 0"
    "0 < count (s_queued v) r \<Longrightarrow> s_phase v r = Waiting" "count (s_queued v) r \<le> 1"
  shows "owned_at v r"
  using assms by (auto simp: owned_at_def)

lemma ready_queued: "s_ready v r \<Longrightarrow> 0 < count (s_queued v) r"
  by (simp add: s_ready_def)

lemma owned_at_step: "slot_step v op w \<Longrightarrow> \<forall>r. owned_at v r \<Longrightarrow> owned_at w q"
proof (induction rule: slot_step.induct)
  case (stutter v)
  then show ?case by simp
next
  case (register v c p)
  then have q: "owned_at v q" and n: "owned_at v (s_count v)" by simp_all
  from n have "s_submit v (s_count v) = SubNone" by (rule owned_atD) simp
  with q owned_atD(2,3) [OF n] show ?case by (cases "q = s_count v") (auto simp: owned_at_def)
next
  case (mark v r)
  then have q: "owned_at v q" by simp
  show ?case using q mark(1) by (cases "q = r") (auto simp: owned_at_def)
next
  case (enqueue v r)
  then have q: "owned_at v q" by simp
  show ?case using q enqueue(1) by (cases "q = r") (auto simp: owned_at_def)
next
  case (finish v r)
  then have q: "owned_at v q" by simp
  show ?case using q finish(1) by (cases "q = r") (auto simp: owned_at_def)
next
  case (withdraw r v)
  then have q: "owned_at v q" by simp
  then show ?case by (cases "q = r") (auto simp: owned_at_def)
next
  case (dispatch v r)
  then have q: "owned_at v q" by simp
  show ?case using q ready_queued [OF dispatch(2)] by (cases "q = r") (auto simp: owned_at_def)
next
  case (release v r)
  then have q: "owned_at v q" by simp
  show ?case using q release(1) by (cases "q = r") (auto simp: owned_at_def)
next
  case (wake v)
  then show ?case by (simp add: owned_at_def)
next
  case (rest v)
  then show ?case by (simp add: owned_at_def)
next
  case (halt v)
  then show ?case by (simp add: owned_at_def)
qed

lemma owned_step: "slot_step v op w \<Longrightarrow> owned v \<Longrightarrow> owned w"
  using owned_at_step unfolding owned_def by blast

section \<open>Accounting\<close>

text \<open>How many of the holders satisfy \<open>P\<close>, before and after \<open>r\<close> changes its phase.\<close>

definition holding :: "(nat \<Rightarrow> bool) \<Rightarrow> slots \<Rightarrow> int" where
  "holding P v = int (length (filter (\<lambda>r. s_phase v r = Holding \<and> P r) [0..<s_count v]))"

lemma holders_holding: "int (length (filter P (s_holders v))) = holding P v"
  by (simp add: s_holders_def holding_def filter_filter conj_commute)

lemma upt_split_at: "r < n \<Longrightarrow> [0..<n] = [0..<r] @ r # [Suc r..<n]"
  by (metis le_eq_less_or_eq upt_conv_Cons upt_add_eq_append zero_le less_imp_add_positive)

lemma holding_change:
  assumes "r < s_count v" and "s_count w = s_count v" and "s_phase w = (s_phase v)(r := x)"
    and "s_phase v r \<noteq> x" and "x = Holding \<or> s_phase v r = Holding"
  shows "holding P w = holding P v + (if \<not> P r then 0 else if x = Holding then 1 else - 1)"
proof -
  have "filter (\<lambda>q. s_phase w q = Holding \<and> P q) [0..<r] = filter (\<lambda>q. s_phase v q = Holding \<and> P q) [0..<r]"
    "filter (\<lambda>q. s_phase w q = Holding \<and> P q) [Suc r..<s_count v]
      = filter (\<lambda>q. s_phase v q = Holding \<and> P q) [Suc r..<s_count v]"
    using assms(3) by (auto intro!: filter_cong)
  then show ?thesis
    unfolding holding_def assms(2) upt_split_at [OF assms(1)] using assms(3-5) by auto
qed

definition accounted' :: "slots \<Rightarrow> bool" where
  "accounted' v \<longleftrightarrow> int (s_sem v) = holding (\<lambda>_. True) v \<and> s_sem v \<le> s_cap v \<and>
     (\<forall>p. p \<noteq> [] \<longrightarrow> s_active v p = holding (\<lambda>r. s_ref v r = p) v) \<and>
     (\<forall>p l. s_limits v p = Some l \<longrightarrow> p \<noteq> [] \<longrightarrow> holding (\<lambda>r. s_ref v r = p) v \<le> l)"

lemma accounted_alt: "accounted v = accounted' v"
  unfolding accounted_def accounted'_def holders_holding [symmetric]
  by auto

lemma holding_same: "s_count w = s_count v \<Longrightarrow> s_phase w = s_phase v \<Longrightarrow> holding P w = holding P v"
  by (simp add: holding_def)

lemma accounted_same:
  assumes "accounted' v" and "s_count w = s_count v" and "s_phase w = s_phase v" and "s_sem w = s_sem v"
    and "s_cap w = s_cap v" and "s_active w = s_active v" and "s_ref w = s_ref v" and "s_limits w = s_limits v"
  shows "accounted' w"
  using assms(1) unfolding accounted'_def holding_same [OF assms(2,3)] assms(4-8) .

lemma owned_count: "owned v \<Longrightarrow> s_phase v r \<noteq> Waiting \<or> 0 < count (s_queued v) r \<Longrightarrow> r < s_count v"
proof (rule ccontr)
  assume "owned v" and r: "s_phase v r \<noteq> Waiting \<or> 0 < count (s_queued v) r" and "\<not> r < s_count v"
  then have o: "owned_at v r" and "s_count v \<le> r" by (simp_all add: owned_def)
  then have "s_submit v r = SubNone" by (rule owned_atD)
  with r owned_atD(2,3) [OF o] show False by simp
qed

lemma accounted_step: "slot_step v op w \<Longrightarrow> owned v \<Longrightarrow> accounted' v \<Longrightarrow> accounted' w"
proof (induction rule: slot_step.induct)
  case (register v c p)
  have "s_phase v (s_count v) = Waiting"
    using owned_atD(1,2) [of v "s_count v"] register(1) by (auto simp: owned_def)
  then have "holding (\<lambda>r. ((s_ref v)(s_count v := p)) r = q) (v\<lparr>s_count := s_count v + 1, s_submit := (s_submit v)(s_count v := SubRegistered),
       s_ref := (s_ref v)(s_count v := p), s_class := (s_class v)(s_count v := c)\<rparr>) = holding (\<lambda>r. s_ref v r = q) v"
    "holding (\<lambda>_. True) (v\<lparr>s_count := s_count v + 1, s_submit := (s_submit v)(s_count v := SubRegistered),
       s_ref := (s_ref v)(s_count v := p), s_class := (s_class v)(s_count v := c)\<rparr>) = holding (\<lambda>_. True) v" for q
    by (auto simp: holding_def intro!: arg_cong [of _ _ length] filter_cong)
  with register(2) show ?case unfolding accounted'_def by simp
next
  case (dispatch v r)
  have r: "r < s_count v" "s_phase v r = Waiting"
    using owned_count [OF dispatch(3)] owned_atD(8) [of v r] ready_queued [OF dispatch(2)] dispatch(3)
    by (auto simp: owned_def)
  let ?w = "v\<lparr>s_queued := s_queued v - {#r#}, s_sem := s_sem v + 1, s_active := s_claim 1 r v, s_phase := (s_phase v)(r := Holding)\<rparr>"
  have h: "holding P ?w = holding P v + (if P r then 1 else 0)" for P
    using holding_change [of r v ?w Holding P] r by simp
  have fits: "s_fits v r" using dispatch(2) by (simp add: s_ready_def)
  show ?case
    using dispatch(1,4) fits h by (auto simp: accounted'_def s_claim_def s_fits_def split: option.splits)
next
  case (release v r)
  have r: "r < s_count v" using owned_count [OF release(3)] release(1) by simp
  let ?w = "v\<lparr>s_sem := s_sem v - 1, s_active := s_claim (- 1) r v, s_phase := (s_phase v)(r := Released),
                       s_signals := bump (s_signals v)\<rparr>"
  have h: "holding P ?w = holding P v + (if P r then - 1 else 0)" for P
    using holding_change [of r v ?w Released P] r release(1) by simp
  have "holding (\<lambda>q. s_ref v q = p) v - 1 \<le> l" if "s_limits v p = Some l" "p \<noteq> []" for p l
    using that release(4) by (fastforce simp: accounted'_def)
  then show ?case
    using release(2,4) h by (auto simp: accounted'_def s_claim_def of_nat_diff)
next
  case (mark v r)
  show ?case by (rule accounted_same [OF mark(3)]) simp_all
next
  case (enqueue v r)
  show ?case by (rule accounted_same [OF enqueue(3)]) simp_all
next
  case (finish v r)
  show ?case by (rule accounted_same [OF finish(3)]) simp_all
next
  case (withdraw r v)
  show ?case by (rule accounted_same [OF withdraw(3)]) simp_all
next
  case (wake v)
  show ?case by (rule accounted_same [OF wake(3)]) simp_all
next
  case (rest v)
  show ?case by (rule accounted_same [OF rest(3)]) simp_all
next
  case (halt v)
  show ?case by (rule accounted_same [OF halt(2)]) simp_all
qed simp

section \<open>No stall\<close>

lemma ready_cong:
  "s_queued w = s_queued v \<Longrightarrow> s_ref w = s_ref v \<Longrightarrow> s_class w = s_class v \<Longrightarrow> s_limits w = s_limits v \<Longrightarrow>
   s_active w = s_active v \<Longrightarrow> s_ready w r = s_ready v r"
  by (simp add: s_ready_def s_known_def s_fits_def split: option.split)

lemma no_stall_step: "slot_step v op w \<Longrightarrow> owned v \<Longrightarrow> no_stall v \<Longrightarrow> no_stall w"
proof (induction rule: slot_step.induct)
  case (register v c p)
  have q: "0 < count (s_queued v) r \<Longrightarrow> r < s_count v" for r using owned_count [OF register(1)] by blast
  have "s_submit v (s_count v) = SubNone" using owned_atD(1) [of v "s_count v"] register(1) by (auto simp: owned_def)
  moreover have "s_ready v r" if "s_ready (v\<lparr>s_count := s_count v + 1, s_submit := (s_submit v)(s_count v := SubRegistered),
     s_ref := (s_ref v)(s_count v := p), s_class := (s_class v)(s_count v := c)\<rparr>) r" for r
    using that q [of r] by (auto simp: s_ready_def s_known_def s_fits_def split: option.splits)
  moreover have "q \<noteq> s_count v" if "s_submit v q = SubEnqueued" for q
    using that \<open>s_submit v (s_count v) = SubNone\<close> by auto
  ultimately show ?case using register(2) by (fastforce simp: no_stall_def)
next
  case (mark v r)
  have "s_ready (v\<lparr>s_submit := (s_submit v)(r := SubQueued)\<rparr>) q = s_ready v q" for q
    by (rule ready_cong) simp_all
  moreover have "q \<noteq> r" if "s_submit v q = SubEnqueued" for q using that mark(1) by auto
  ultimately show ?case using mark(3) by (fastforce simp: no_stall_def)
next
  case (enqueue v r)
  then show ?case by (auto simp: no_stall_def)
next
  case (withdraw r v)
  have "s_ready v q" if "s_ready (v\<lparr>s_queued := s_queued v - {#r#}\<rparr>) q" for q
    using that by (auto simp: s_ready_def s_known_def s_fits_def dest: in_diffD split: option.splits)
  then show ?case using withdraw(3) by (auto simp: no_stall_def)
next
  case (rest v)
  have "s_ready (v\<lparr>s_looping := False\<rparr>) q = s_ready v q" for q
    by (rule ready_cong) simp_all
  then show ?case using rest(1) by (auto simp: no_stall_def)
next
  case (dispatch v r)
  then show ?case by (auto simp: no_stall_def s_ready_def)
qed (auto simp: no_stall_def)

text \<open>The three together are an invariant of the abstract machine.\<close>

definition slots_ok :: "slots \<Rightarrow> bool" where
  "slots_ok v \<longleftrightarrow> owned v \<and> accounted v \<and> no_stall v"

interpretation slots: step_invariant slot_step slots_ok
  by unfold_locales (auto simp: slots_ok_def accounted_alt intro: owned_step accounted_step no_stall_step)

end
