(* ===== verification/Exec_Races.thy ===== *)
theory Exec_Races
  imports Exec_Machine
begin

text \<open>
  Interleavings of the execution manager that lead where its contract does not allow: runs of
  the machine of \<open>Exec_Machine\<close> from a new manager, evaluated in the logic.
\<close>

section \<open>A manager and its callers\<close>

definition ready_lc :: lifecycle_manager where
  "ready_lc = (NewLifecycleManager 0)\<lparr>stateVal := StateReady\<rparr>"

definition one_provider :: "string registry" where
  "one_provider = \<lparr>providers = [''openai-primary'' \<mapsto> ''openai-primary'']\<rparr>"

text \<open>Two slots, a queue for one execution, no pipeline, a logger.\<close>

definition boot_em :: em where
  "boot_em = NewExecutionManager 2 1 ready_lc one_provider False True"

definition submitting :: "nat \<Rightarrow> string \<Rightarrow> em_op list" where
  "submitting r i = [SubmitCheck 5 [] (sample_request i) False, SubmitMark r, SubmitEnqueue r, SubmitFinish 6 r]"

definition dispatching :: "em_op list" where "dispatching = [LoopWake, LoopTurn, LoopTurn]"

definition starting :: "nat \<Rightarrow> em_op list" where
  "starting r = [RunBegin 8 r, RunArm r, RunResolve 9 [''openai-primary''] r, PipelineCall 10 r]"

definition fine :: exec_result where "fine = bare_result ''a'' [] [] None"

definition succeeding :: "nat \<Rightarrow> em_op list" where
  "succeeding r = [AttemptReturns 11 (Some fine) None r, AttemptDecide 0 r, PipelineReturn (Some fine) None r, HandleResult 12 2 r]"

definition finishing :: "nat \<Rightarrow> em_op list" where
  "finishing r = [PublishOutcome r, ReleaseSlots r, NotifyWaiters r]"

definition cancelling :: "string \<Rightarrow> em_op" where "cancelling i = CancelCall 7 priorityOrder i"

definition state_of :: "em \<Rightarrow> nat \<Rightarrow> execution_state" where "state_of em r = ex_State (heap em ! r)"

definition busy :: go_error where "busy = NewError ErrCategoryProvider ''busy'' True None"

section \<open>Cancellation\<close>

text \<open>
  A cancelled execution can still run and succeed.  When the scheduler has dequeued the
  execution but its goroutine has not started, \<open>Cancel\<close> marks it CANCELLED, publishes
  \<open>execution.cancelled\<close> and wakes the waiters; the goroutine then calls the provider and the
  execution ends SUCCEEDED.  The same happens to one that is cancelled while it waits to retry.
\<close>
theorem cancelled_execution_runs:
  "map_option (\<lambda>em. (state_of em 0, fst (wait_check ''a'' em) = Inr (Some (Some (caller_cancelled ''a'')))))
     (em_run (submitting 0 ''a'' @ dispatching @ [cancelling ''a'']) boot_em) = Some (ExecStateCancelled, True) \<and>
   map_option (\<lambda>em. state_of em 0)
     (em_run (submitting 0 ''a'' @ dispatching @ [cancelling ''a''] @ starting 0 @ succeeding 0) boot_em)
     = Some ExecStateSucceeded \<and>
   map_option (\<lambda>em. state_of em 0)
     (em_run (submitting 0 ''a'' @ dispatching @ starting 0 @
        [AttemptReturns 11 None (Some busy) 0, AttemptDecide 5 0, cancelling ''a'']) boot_em)
     = Some ExecStateCancelled \<and>
   map_option (\<lambda>em. state_of em 0)
     (em_run (submitting 0 ''a'' @ dispatching @ starting 0 @
        [AttemptReturns 11 None (Some busy) 0, AttemptDecide 5 0, cancelling ''a'', BackoffOver 12 0] @ succeeding 0) boot_em)
     = Some ExecStateSucceeded"
  by (intro conjI; code_simp)

text \<open>
  Cancelling a running execution does not end it CANCELLED: the attempt sees the context done and
  reports a timeout, so the execution ends TIMED_OUT.  Between the change to RUNNING and
  the assignment of \<open>CancelFunc\<close> a call of \<open>Cancel\<close> returns success and does nothing.
\<close>
theorem cancel_running_times_out:
  "map_option (\<lambda>em. (state_of em 0, map_option er_Error (ex_Result (heap em ! 0))))
     (em_run (submitting 0 ''a'' @ dispatching @ starting 0 @
        [cancelling ''a'', AttemptTimesOut 11 0, AttemptDecide 0 0,
         PipelineReturn None (Some (timeout_error (Some (GoError ''context canceled'')) None)) 0, HandleResult 12 2 0]) boot_em)
     = Some (ExecStateTimedOut, Some (Some \<lparr>ee_Category = ErrCategoryTimeout,
                ee_Message = ''execution exceeded configured deadline'', ee_Retryable = False\<rparr>)) \<and>
   map_option (\<lambda>em. (fst (Cancel 9 priorityOrder ''a'' em), ctx_err (snd (Cancel 9 priorityOrder ''a'' em)) 0,
                    state_of (snd (Cancel 9 priorityOrder ''a'' em)) 0))
     (em_run (submitting 0 ''a'' @ dispatching @ [RunBegin 8 0]) boot_em) = Some (None, None, ExecStateRunning)"
  by (intro conjI; code_simp)

section \<open>Waiting\<close>

text \<open>
  A lost wake-up.  \<open>Wait\<close> looks at the state and registers its channel afterwards; when the
  execution ends in between, nobody closes the channel: the execution is terminal, its goroutine
  is gone, and the channel stays registered.
\<close>
theorem wait_misses_wakeup:
  "map_option (\<lambda>em. (isTerminalState (state_of em 0), runs em 0 = RunDone, waiters em ''a'', closed_waiters em))
     (em_run (submitting 0 ''a'' @ dispatching @ starting 0 @ [WaitCheck ''a''] @ succeeding 0 @ finishing 0 @ [WaitRegister ''a'']) boot_em)
     = Some (True, True, [0], [])"
  by code_simp

section \<open>Limits\<close>

text \<open>
  The queue limit is checked before the execution is enqueued and outside the scheduler's
  lock: two concurrent submissions both pass a queue of capacity one.
\<close>
theorem queue_limit_overrun:
  "map_option (\<lambda>em. (queue_cap em, Size (sched em)))
     (em_run [SubmitCheck 5 [] (sample_request ''a'') False, SubmitCheck 5 [] (sample_request ''b'') False,
              SubmitMark 0, SubmitEnqueue 0, SubmitMark 1, SubmitEnqueue 1] boot_em) = Some (1, 2)"
  by code_simp

section \<open>Panics\<close>

text \<open>
  A provider that returns neither a result nor an error, or a retry policy without attempts,
  takes the process down: the nil error is translated, the panic is recovered, the waiters are
  notified, and the fatal log entry exits.
\<close>
theorem nil_outcome_exits:
  "map_option (\<lambda>em. (state_of em 0, exited em))
     (em_run (submitting 0 ''a'' @ dispatching @ starting 0 @
        [AttemptReturns 11 None None 0, AttemptDecide 0 0, PipelineReturn None None 0, HandleResult 12 2 0,
         Recover 13 0, ReleaseSlots 0, NotifyWaiters 0, FatalLog 0]) boot_em) = Some (ExecStateFailed, True)"
  by code_simp

section \<open>Identifiers, results and streams\<close>

text \<open>
  Identifiers are not checked for duplicates.  After two submissions of one identifier,
  \<open>Cancel\<close> takes the first execution out of the queue but marks the second one: the first stays QUEUED and
  is in no queue, the second is CANCELLED and runs next.
\<close>
theorem duplicate_ids_cancel_wrong:
  "map_option (\<lambda>em. (state_of em 0, state_of em 1, fst (Dequeue None (sched em)), Size (sched em)))
     (em_run (submitting 0 ''a'' @ submitting 1 ''a'' @ [cancelling ''a'']) (boot_em\<lparr>queue_cap := 2\<rparr>))
     = Some (ExecStateQueued, ExecStateCancelled, Some 1, 1)"
  by code_simp

text \<open>
  A result that reports a failure decides the state of its execution.  A provider that answers
  with the status Failed and the state PENDING leaves a finished execution PENDING: later waiters
  find it not terminal and register for a wake-up that nobody sends.
\<close>
theorem finished_not_terminal:
  "map_option (\<lambda>em. (state_of em 0, runs em 0 = RunDone, fst (wait_check ''a'' em) = Inr None))
     (em_run (submitting 0 ''a'' @ dispatching @ starting 0 @
        (let r = bare_result ''a'' StatusFailed ExecStatePending (Some \<lparr>ee_Category = ErrCategoryProvider, ee_Message = [], ee_Retryable = False\<rparr>)
         in [AttemptReturns 11 (Some r) None 0, AttemptDecide 0 0, PipelineReturn (Some r) None 0, HandleResult 12 2 0]) @
        finishing 0) boot_em)
     = Some (ExecStatePending, True, True)"
  by code_simp

text \<open>
  \<open>Stream\<close> submits before it registers its channel.  When the run has resolved its provider by
  then, it runs as a plain execution, and the channel handed to the caller is neither written nor closed.
\<close>
theorem stream_channel_abandoned:
  "map_option (\<lambda>em. (runs em 0 = RunDone, map (\<lambda>s. (os_buffer s, os_closed s)) (streams em)))
     (em_run ([SubmitCheck 5 [] (sample_request ''a'') True, SubmitMark 0, SubmitEnqueue 0] @ [SubmitFinish 6 0] @ dispatching @
        starting 0 @ [StreamRegister 0] @ succeeding 0 @ finishing 0) boot_em)
     = Some (True, [([], False)])"
  by code_simp

end
