(* ===== verification/Exec_Laws.thy ===== *)
theory Exec_Laws
  imports Slot_Machine Exec_Races
begin

text \<open>
  The execution manager implements the abstract machine of \<open>Slot_Machine\<close>: every piece of a
  goroutine is a step of it, as long as no identifier is submitted twice.  What the abstract
  invariant says then holds of the manager: slot accounting, provider limits, no double
  dispatch, no stalled scheduler.
\<close>

section \<open>The abstraction\<close>

definition phase_of :: "run_pc \<Rightarrow> phase" where
  "phase_of pc =
     (case pc of
        RunNone \<Rightarrow> Waiting
      | RunNotify _ \<Rightarrow> Released | RunStreamClose _ \<Rightarrow> Released | RunPanicNotify \<Rightarrow> Released
      | RunFatal \<Rightarrow> Released | RunDone \<Rightarrow> Released
      | _ \<Rightarrow> Holding)"

lemma phase_of_simps [simp]:
  "phase_of RunNone = Waiting" "phase_of RunDispatched = Holding" "phase_of RunBegun = Holding"
  "phase_of RunArmed = Holding" "phase_of (RunCall p) = Holding" "phase_of (RunAttempt p k t) = Holding"
  "phase_of (RunDecide p k res err) = Holding" "phase_of (RunBackoff p k res e) = Holding"
  "phase_of (RunAttempted res err) = Holding" "phase_of (RunHandle res err) = Holding"
  "phase_of RunPublish = Holding" "phase_of (RunStreamOpen c) = Holding" "phase_of (RunStream c) = Holding"
  "phase_of (RunStreamSend c x n) = Holding" "phase_of (RunRelease oc) = Holding" "phase_of (RunNotify oc) = Released"
  "phase_of (RunStreamClose c) = Released" "phase_of (RunPanic m) = Holding" "phase_of RunPanicRelease = Holding"
  "phase_of RunPanicNotify = Released" "phase_of RunFatal = Released" "phase_of RunDone = Released"
  by (simp_all add: phase_of_def)

lemma phase_of_Waiting [simp]: "phase_of pc = Waiting \<longleftrightarrow> pc = RunNone"
  by (cases pc) simp_all

definition view :: "em \<Rightarrow> slots" where
  "view em =
     \<lparr>s_count = length (heap em), s_queued = bag (sched em), s_submit = submits em,
      s_phase = (\<lambda>r. phase_of (runs em r)),
      s_ref = (\<lambda>r. if r < length (heap em) then ref_of em r else []),
      s_class = (\<lambda>r. if r < length (heap em) then class_of (prio em) r else []),
      s_sem = sem em, s_cap = sem_cap em, s_active = providerActive em, s_limits = providerLimits em,
      s_signals = signals em, s_looping = (scheduling em \<or> loop_done em)\<rparr>"

text \<open>An update of an execution keeps what the scheduler and the maps are keyed by.\<close>

definition keeps :: "em \<Rightarrow> nat \<Rightarrow> (execution \<Rightarrow> execution) \<Rightarrow> bool" where
  "keeps em r f \<longleftrightarrow> ex_ID (f (heap em ! r)) = id_of em r \<and> ex_Priority (f (heap em ! r)) = prio em r \<and>
     ex_Request (f (heap em ! r)) = ex_Request (heap em ! r)"

lemma nth_upd: "(xs[r := x]) ! q = (if q = r \<and> r < length xs then x else xs ! q)"
  by (cases "r < length xs") (auto simp: nth_list_update list_update_beyond)

lemma upd_keys:
  assumes "keeps em r f"
  shows "prio (upd r f em) = prio em" "id_of (upd r f em) = id_of em" "ref_of (upd r f em) = ref_of em"
  using assms by (auto simp: fun_eq_iff prio_def id_of_def ref_of_def upd_def keeps_def nth_upd)

lemma same_keys [simp]:
  "prio (set_run r pc em) = prio em" "id_of (set_run r pc em) = id_of em" "ref_of (set_run r pc em) = ref_of em"
  "prio (emit es em) = prio em" "id_of (emit es em) = id_of em" "ref_of (emit es em) = ref_of em"
  "prio (set_submit r s em) = prio em" "id_of (set_submit r s em) = id_of em" "ref_of (set_submit r s em) = ref_of em"
  by (simp_all add: fun_eq_iff prio_def id_of_def ref_of_def set_run_def emit_def set_submit_def)

lemma field_simps_em [simp]:
  "runs (upd r f em) = runs em" "runs (emit es em) = runs em" "runs (set_run r pc em) = (runs em)(r := pc)"
  "sched (upd r f em) = sched em" "sched (emit es em) = sched em" "sched (set_run r pc em) = sched em"
  "length (heap (upd r f em)) = length (heap em)" "heap (emit es em) = heap em" "heap (set_run r pc em) = heap em"
  "streamChans (upd r f em) = streamChans em" "streamChans (emit es em) = streamChans em" "streamChans (set_run r pc em) = streamChans em"
  "streams (upd r f em) = streams em" "streams (emit es em) = streams em" "streams (set_run r pc em) = streams em"
  "executions (upd r f em) = executions em" "executions (emit es em) = executions em" "executions (set_run r pc em) = executions em"
  "stream_waiting (upd r f em) = stream_waiting em" "stream_waiting (emit es em) = stream_waiting em"
  "stream_waiting (set_run r pc em) = stream_waiting em"
  by (simp_all add: upd_def emit_def set_run_def)

lemma view_upd [simp]: "keeps em r f \<Longrightarrow> view (upd r f em) = view em"
  using upd_keys [of em r f] by (simp add: view_def cong: if_cong) (simp add: upd_def)

lemma view_emit [simp]: "view (emit es em) = view em"
  by (simp add: view_def cong: if_cong) (simp add: emit_def)

lemma view_set_run: "view (set_run r pc em) = (view em)\<lparr>s_phase := (s_phase (view em))(r := phase_of pc)\<rparr>"
  by (simp add: view_def fun_eq_iff cong: if_cong) (simp add: set_run_def)

lemma view_same_phase: "phase_of pc = phase_of (runs em r) \<Longrightarrow> view (set_run r pc em) = view em"
  by (simp add: view_set_run) (simp add: view_def fun_eq_iff)

lemma view_irrelevant [simp]:
  "view (em\<lparr>ctx_err := a\<rparr>) = view em" "view (em\<lparr>waiters := b, closed_waiters := c\<rparr>) = view em"
  "view (em\<lparr>closed_waiters := c, waiters := b\<rparr>) = view em"
  "view (em\<lparr>pending_waits := d\<rparr>) = view em" "view (em\<lparr>streams := e\<rparr>) = view em" "view (em\<lparr>streamChans := g\<rparr>) = view em"
  "view (em\<lparr>stream_waiting := h\<rparr>) = view em" "view (em\<lparr>lc := l\<rparr>) = view em" "view (em\<lparr>exited := x\<rparr>) = view em"
  "view (em\<lparr>stopped := s\<rparr>) = view em"
  "view (em\<lparr>next_waiter := n, pending_waits := d, waiters := b\<rparr>) = view em"
  by (simp_all add: view_def prio_def [abs_def] ref_of_def [abs_def] class_of_def [abs_def] cong: if_cong)

section \<open>The concrete invariant\<close>

definition pc_chan :: "run_pc \<Rightarrow> nat option" where
  "pc_chan pc =
     (case pc of RunStreamOpen c \<Rightarrow> Some c | RunStream c \<Rightarrow> Some c | RunStreamSend c _ _ \<Rightarrow> Some c
      | RunRelease oc \<Rightarrow> oc | RunNotify oc \<Rightarrow> oc | RunStreamClose c \<Rightarrow> Some c | _ \<Rightarrow> None)"

lemma pc_chan_simps [simp]:
  "pc_chan RunNone = None" "pc_chan RunDispatched = None" "pc_chan RunBegun = None"
  "pc_chan RunArmed = None" "pc_chan (RunCall p) = None" "pc_chan (RunAttempt p k t) = None"
  "pc_chan (RunDecide p k res err) = None" "pc_chan (RunBackoff p k res e) = None"
  "pc_chan (RunAttempted res err) = None" "pc_chan (RunHandle res err) = None"
  "pc_chan RunPublish = None" "pc_chan (RunStreamOpen c) = Some c" "pc_chan (RunStream c) = Some c"
  "pc_chan (RunStreamSend c x n) = Some c" "pc_chan (RunRelease oc) = oc" "pc_chan (RunNotify oc) = oc"
  "pc_chan (RunStreamClose c) = Some c" "pc_chan (RunPanic m) = None" "pc_chan RunPanicRelease = None"
  "pc_chan RunPanicNotify = None" "pc_chan RunFatal = None" "pc_chan RunDone = None"
  by (simp_all add: pc_chan_def)

text \<open>
  Every execution is found under its identifier; the channel a stream run works on is the one
  registered for it, open, and registered for nobody else; a channel that is still to be
  registered belongs to an execution that has none.
\<close>

definition ids_ok :: "em \<Rightarrow> bool" where
  "ids_ok em \<longleftrightarrow> (\<forall>r<length (heap em). executions em (id_of em r) = Some r) \<and>
     (\<forall>i r. executions em i = Some r \<longrightarrow> r < length (heap em) \<and> id_of em r = i)"

lemma ids_okD:
  assumes "ids_ok em"
  shows "r < length (heap em) \<Longrightarrow> executions em (id_of em r) = Some r"
    "executions em i = Some r \<Longrightarrow> r < length (heap em)" "executions em i = Some r \<Longrightarrow> id_of em r = i"
proof -
  from assms have 1: "\<forall>r<length (heap em). executions em (id_of em r) = Some r"
    and 2: "\<forall>i r. executions em i = Some r \<longrightarrow> r < length (heap em) \<and> id_of em r = i"
    unfolding ids_ok_def by (rule conjunct1, rule conjunct2)
  show "r < length (heap em) \<Longrightarrow> executions em (id_of em r) = Some r" using 1 [rule_format, of r] .
  show "executions em i = Some r \<Longrightarrow> r < length (heap em)" "executions em i = Some r \<Longrightarrow> id_of em r = i"
    using 2 [rule_format, of i r] by blast+
qed

definition chans_ok :: "em \<Rightarrow> bool" where
  "chans_ok em \<longleftrightarrow>
     (\<forall>i c. streamChans em i = Some c \<longrightarrow> c < length (streams em) \<and> \<not> os_closed (streams em ! c) \<and>
        executions em i \<noteq> None) \<and>
     (\<forall>i j c. streamChans em i = Some c \<and> streamChans em j = Some c \<longrightarrow> i = j) \<and>
     (\<forall>r c. pc_chan (runs em r) = Some c \<longrightarrow> r < length (heap em) \<and> streamChans em (id_of em r) = Some c) \<and>
     (\<forall>r\<in>set (stream_waiting em). r < length (heap em) \<and> streamChans em (id_of em r) = None) \<and>
     distinct (stream_waiting em)"

lemma chans_okD:
  assumes "chans_ok em"
  shows "streamChans em i = Some c \<Longrightarrow> c < length (streams em)"
    "streamChans em i = Some c \<Longrightarrow> \<not> os_closed (streams em ! c)"
    "streamChans em i = Some c \<Longrightarrow> executions em i \<noteq> None"
    "streamChans em i = Some c \<Longrightarrow> streamChans em j = Some c \<Longrightarrow> i = j"
    "pc_chan (runs em r) = Some c \<Longrightarrow> r < length (heap em)"
    "pc_chan (runs em r) = Some c \<Longrightarrow> streamChans em (id_of em r) = Some c"
    "r \<in> set (stream_waiting em) \<Longrightarrow> r < length (heap em)"
    "r \<in> set (stream_waiting em) \<Longrightarrow> streamChans em (id_of em r) = None"
    "distinct (stream_waiting em)"
  using assms unfolding chans_ok_def by blast+

definition cinv :: "em \<Rightarrow> bool" where
  "cinv em \<longleftrightarrow> ps_inv (prio em) (sched em) \<and> ids_ok em \<and> chans_ok em"

lemma cinv_upd [simp]: "keeps em r f \<Longrightarrow> cinv (upd r f em) = cinv em"
  by (simp add: cinv_def ids_ok_def chans_ok_def upd_keys)

lemma cinv_emit [simp]: "cinv (emit es em) = cinv em"
  by (simp add: cinv_def ids_ok_def chans_ok_def)

lemma keepsI:
  "(\<And>e. ex_ID (f e) = ex_ID e) \<Longrightarrow> (\<And>e. ex_Priority (f e) = ex_Priority e) \<Longrightarrow> (\<And>e. ex_Request (f e) = ex_Request e) \<Longrightarrow>
   keeps em r f"
  by (simp add: keeps_def id_of_def prio_def)

lemma keeps_simps [simp]:
  "keeps em r (\<lambda>e. e\<lparr>ex_State := s\<rparr>)" "keeps em r (\<lambda>e. e\<lparr>ex_State := s, ex_StartedAt := t\<rparr>)"
  "keeps em r (\<lambda>e. e\<lparr>ex_CancelFunc := b\<rparr>)" "keeps em r (\<lambda>e. e\<lparr>ex_CompletedAt := t\<rparr>)"
  "keeps em r (\<lambda>e. e\<lparr>ex_State := s, ex_CompletedAt := t, ex_Result := x\<rparr>)"
  "keeps em r (complete now st res)" "keeps em r (\<lambda>e. snd (end_backoff c e))"
  by (auto intro!: keepsI simp: complete_def end_backoff_def split: option.split)

lemma keeps_const:
  "keeps em r (\<lambda>_. exec) \<longleftrightarrow> ex_ID exec = ex_ID (heap em ! r) \<and> ex_Priority exec = ex_Priority (heap em ! r) \<and>
     ex_Request exec = ex_Request (heap em ! r)"
  by (simp add: keeps_def id_of_def prio_def)

lemma runSingleAttempt_keeps:
  "runSingleAttempt p k s e t out (heap em ! r) = (x, exec, es) \<Longrightarrow> keeps em r (\<lambda>_. exec)"
  by (auto simp: keeps_const runSingleAttempt_def appended_def Let_def split: attempt_outcome.splits option.splits)

lemma begin_backoff_keeps: "begin_backoff f p k e (heap em ! r) = (exec, es) \<Longrightarrow> keeps em r (\<lambda>_. exec)"
  by (auto simp: keeps_const begin_backoff_def Let_def)

lemma handleResult_keeps: "handleResult now d err res (heap em ! r) = Some exec \<Longrightarrow> keeps em r (\<lambda>_. exec)"
  by (auto simp: keeps_const handleResult_def Let_def split: option.splits if_splits)

lemma keys_irrelevant [simp]:
  "prio (em\<lparr>ctx_err := a\<rparr>) = prio em" "id_of (em\<lparr>ctx_err := a\<rparr>) = id_of em" "ref_of (em\<lparr>ctx_err := a\<rparr>) = ref_of em"
  by (simp_all add: fun_eq_iff prio_def id_of_def ref_of_def)

lemma cinv_eq:
  assumes "heap em' = heap em" and "sched em' = sched em" and "executions em' = executions em"
    and "streamChans em' = streamChans em" and "streams em' = streams em" and "stream_waiting em' = stream_waiting em"
    and "runs em' = runs em"
  shows "cinv em' = cinv em"
proof -
  have "prio em' = prio em" "id_of em' = id_of em" by (simp_all add: fun_eq_iff prio_def id_of_def assms(1))
  then show ?thesis by (simp add: cinv_def ids_ok_def chans_ok_def assms)
qed

lemma cinv_irrelevant [simp]:
  "cinv (em\<lparr>ctx_err := a\<rparr>) = cinv em" "cinv (em\<lparr>waiters := b, closed_waiters := c\<rparr>) = cinv em"
  "cinv (em\<lparr>pending_waits := d\<rparr>) = cinv em" "cinv (em\<lparr>lc := l\<rparr>) = cinv em" "cinv (em\<lparr>exited := x\<rparr>) = cinv em"
  "cinv (em\<lparr>stopped := s\<rparr>) = cinv em" "cinv (em\<lparr>closed_waiters := c, waiters := b\<rparr>) = cinv em"
  "cinv (em\<lparr>next_waiter := n, pending_waits := d, waiters := b\<rparr>) = cinv em"
  "cinv (em\<lparr>scheduling := x\<rparr>) = cinv em" "cinv (em\<lparr>loop_done := x\<rparr>) = cinv em" "cinv (em\<lparr>signals := n\<rparr>) = cinv em"
  "cinv (em\<lparr>signals := n, scheduling := x\<rparr>) = cinv em" "cinv (em\<lparr>sem := n\<rparr>) = cinv em"
  "cinv (em\<lparr>providerActive := pa\<rparr>) = cinv em"
  by (rule cinv_eq; simp)+

lemma cinv_set_run:
  "cinv em \<Longrightarrow> (\<And>c. pc_chan pc = Some c \<Longrightarrow> r < length (heap em) \<and> streamChans em (id_of em r) = Some c) \<Longrightarrow>
   cinv (set_run r pc em)"
  by (simp add: cinv_def ids_ok_def chans_ok_def)

lemma cinv_chan:
  "cinv em \<Longrightarrow> pc_chan (runs em r) = Some c \<Longrightarrow> r < length (heap em) \<and> streamChans em (id_of em r) = Some c"
  by (simp add: cinv_def chans_ok_def)

text \<open>
  A piece that moves one run without touching its slot: the execution changes, effects are
  appended, the run goes on elsewhere in the code.
\<close>

definition quiet :: "em \<Rightarrow> em \<Rightarrow> bool" where
  "quiet em em' \<longleftrightarrow> view em' = view em \<and> cinv em'"

lemma quiet_refl: "cinv em \<Longrightarrow> quiet em em"
  by (simp add: quiet_def)

lemma quiet_set:
  assumes "cinv em" and "phase_of pc = phase_of (runs em r)"
    and "\<And>c. pc_chan pc = Some c \<Longrightarrow> r < length (heap em) \<and> streamChans em (id_of em r) = Some c"
  shows "quiet em (set_run r pc em)"
  using assms by (auto intro!: cinv_set_run simp: view_same_phase quiet_def)

lemma quiet_emit: "quiet em em' \<Longrightarrow> quiet em (emit es em')"
  by (simp add: quiet_def)

lemma set_run_emit: "set_run r pc (emit es em) = emit es (set_run r pc em)"
  by (simp add: set_run_def emit_def)

lemma quiet_set_emit: "quiet em (set_run r pc em') \<Longrightarrow> quiet em (set_run r pc (emit es em'))"
  by (simp add: set_run_emit quiet_emit)

lemma quiet_set_upd:
  assumes "cinv em" and "keeps em r f" and "phase_of pc = phase_of (runs em r)"
    and "\<And>c. pc_chan pc = Some c \<Longrightarrow> r < length (heap em) \<and> streamChans em (id_of em r) = Some c"
  shows "quiet em (set_run r pc (upd r f em))"
  using assms by (auto intro!: cinv_set_run simp: view_same_phase upd_keys quiet_def)

lemma quiet_begin: "cinv em \<Longrightarrow> runs em r = RunDispatched \<Longrightarrow> quiet em (run_begin now r em)"
  unfolding run_begin_def Let_def by (intro quiet_set_emit quiet_set_upd) simp_all

lemma quiet_arm: "cinv em \<Longrightarrow> runs em r = RunBegun \<Longrightarrow> quiet em (run_arm r em)"
  unfolding run_arm_def
  using quiet_set_upd [of "em\<lparr>ctx_err := (ctx_err em)(r := (if Total (snd (policies em r)) \<le> 0 then Some deadline_exceeded else None))\<rparr>"
      r "\<lambda>e. e\<lparr>ex_CancelFunc := True\<rparr>" RunArmed] by (simp add: quiet_def)

lemma quiet_resolve: "cinv em \<Longrightarrow> runs em r = RunArmed \<Longrightarrow> r < length (heap em) \<Longrightarrow> quiet em (run_resolve now ord r em)"
  unfolding run_resolve_def Let_def
  by (auto split: sum.split option.split intro!: quiet_set_emit quiet_set_upd quiet_set)

lemma quiet_next: "cinv em \<Longrightarrow> phase_of (runs em r) = Holding \<Longrightarrow> quiet em (next_attempt now p k r em)"
  unfolding next_attempt_def by (intro quiet_set) (auto split: if_splits)

lemma quiet_attempt:
  "cinv em \<Longrightarrow> runs em r = RunAttempt p k started \<Longrightarrow> quiet em (attempt_end now out p k started r em)"
  unfolding attempt_end_def
  by (cases "runSingleAttempt p k started now (ctx_err em r) out (heap em ! r)")
    (auto intro!: quiet_set_emit quiet_set_upd dest: runSingleAttempt_keeps)

lemma quiet_decide:
  "cinv em \<Longrightarrow> runs em r = RunDecide p k res err \<Longrightarrow> quiet em (decide f p k res err r em)"
  unfolding decide_def Let_def
  by (auto split: option.split prod.split intro!: quiet_set_emit quiet_set_upd quiet_set dest: begin_backoff_keeps)

lemma quiet_handle:
  "cinv em \<Longrightarrow> runs em r = RunHandle res err \<Longrightarrow> quiet em (run_handle now d res err r em)"
  unfolding run_handle_def by (auto split: option.split intro!: quiet_set_upd dest: handleResult_keeps)

lemma quiet_publish: "cinv em \<Longrightarrow> runs em r = RunPublish \<Longrightarrow> quiet em (run_publish r em)"
  unfolding run_publish_def by (auto split: option.split intro!: quiet_set_emit quiet_set)

lemma quiet_recover: "cinv em \<Longrightarrow> runs em r = RunPanic m \<Longrightarrow> quiet em (run_recover now m r em)"
  unfolding run_recover_def by (intro quiet_set_upd) simp_all

lemma quiet_backoff: "cinv em \<Longrightarrow> runs em r = RunBackoff p k res e \<Longrightarrow> quiet em (backoff_over now p k r em)"
  unfolding backoff_over_def by (intro quiet_set_upd) simp_all

section \<open>Streams\<close>

lemma quiet_opened: "cinv em \<Longrightarrow> runs em r = RunStreamOpen c \<Longrightarrow> quiet em (stream_opened err c r em)"
  unfolding stream_opened_def using cinv_chan [of em r] by (auto split: option.split intro!: quiet_set)

lemma quiet_stream_end:
  assumes "cinv em" and "phase_of (runs em r) = Holding" and "pc_chan (runs em r) = Some c"
  shows "quiet em (stream_ended now c r em)" "quiet em (stream_aborted now e c r em)" "quiet em (stream_failed now e c r em)"
  unfolding stream_ended_def stream_aborted_def stream_failed_def Let_def
  using assms cinv_chan [OF assms(1,3)] by (auto intro!: quiet_set_emit quiet_set_upd)

text \<open>Writing to or reading from an open channel changes its buffer only.\<close>

lemma cinv_set_stream:
  assumes "cinv em" and "\<And>s. os_closed (f s) = os_closed s"
  shows "cinv (set_stream c f em)"
proof -
  have same: "heap (set_stream c f em) = heap em" "sched (set_stream c f em) = sched em"
    "executions (set_stream c f em) = executions em" "streamChans (set_stream c f em) = streamChans em"
    "stream_waiting (set_stream c f em) = stream_waiting em" "runs (set_stream c f em) = runs em"
    "length (streams (set_stream c f em)) = length (streams em)"
    by (simp_all add: set_stream_def)
  have cl: "os_closed (streams (set_stream c f em) ! d) = os_closed (streams em ! d)" if "d < length (streams em)" for d
    using that assms(2) by (cases "d = c") (simp_all add: set_stream_def)
  have keys: "prio (set_stream c f em) = prio em" "id_of (set_stream c f em) = id_of em"
    by (simp_all add: fun_eq_iff prio_def id_of_def same)
  have "ps_inv (prio em) (sched em)" "ids_ok em" and chans: "chans_ok em" using assms(1) by (simp_all add: cinv_def)
  moreover have "chans_ok (set_stream c f em)"
    using chans cl unfolding chans_ok_def same keys by meson
  ultimately show ?thesis unfolding cinv_def ids_ok_def same keys by simp
qed

lemma view_set_stream [simp]: "view (set_stream c f em) = view em"
  by (simp add: set_stream_def)

lemma set_stream_simps [simp]:
  "runs (set_stream c f em) = runs em" "streamChans (set_stream c f em) = streamChans em"
  "id_of (set_stream c f em) = id_of em"
  by (simp_all add: set_stream_def id_of_def fun_eq_iff)

text \<open>With unique identifiers the channel of a stream run is open, so neither panic happens.\<close>

lemma chan_open:
  "cinv em \<Longrightarrow> pc_chan (runs em r) = Some c \<Longrightarrow> c < length (streams em) \<and> \<not> os_closed (streams em ! c)"
  by (simp add: cinv_def chans_ok_def) blast

lemma quiet_trans: "quiet a b \<Longrightarrow> quiet b c \<Longrightarrow> quiet a c"
  by (simp add: quiet_def)

lemma quiet_send:
  assumes "cinv em" and "runs em r = RunStreamSend c chunk next" and "stream_send now c chunk next r em = Some em'"
  shows "quiet em em'"
proof -
  have chan: "pc_chan (runs em r) = Some c" using assms(2) by simp
  have open': "\<not> os_closed (streams em ! c)" using chan_open [OF assms(1) chan] by simp
  let ?em = "set_stream c (\<lambda>s. s\<lparr>os_buffer := os_buffer s @ [chunk]\<rparr>) em"
  have q: "quiet em ?em" using cinv_set_stream [OF assms(1)] by (simp add: quiet_def)
  have ci: "cinv ?em" and r: "phase_of (runs ?em r) = Holding" "pc_chan (runs ?em r) = Some c"
    using q assms(2) by (simp_all add: quiet_def)
  have "quiet ?em (set_run r (RunStream c) ?em)"
    using quiet_set [OF ci, of "RunStream c" r] r cinv_chan [OF ci r(2)] by simp
  with quiet_stream_end [OF ci r] assms(3) open' show ?thesis
    by (auto simp: stream_send_def Let_def split: if_splits stream_next.splits intro: quiet_trans [OF q])
qed

lemma quiet_close:
  assumes "cinv em" and "runs em r = RunStreamClose c"
  shows "quiet em (stream_close c r em)"
proof -
  have chan: "pc_chan (runs em r) = Some c" using assms(2) by simp
  note op = chan_open [OF assms(1) chan] and reg = cinv_chan [OF assms(1) chan]
  let ?em = "em\<lparr>streamChans := (streamChans em)(id_of em r := None)\<rparr>"
  have eq: "stream_close c r em = set_run r RunDone (set_stream c (\<lambda>s. s\<lparr>os_closed := True\<rparr>) ?em)"
    using op by (simp add: stream_close_def)
  have inj: "streamChans em i = Some c \<longleftrightarrow> i = id_of em r" for i
    using chans_okD(4) [of em i c "id_of em r"] assms(1) reg unfolding cinv_def by blast
  have ids: "q = r" if "id_of em q = id_of em r" "pc_chan (runs em q) = Some d" for q d
  proof -
    have i: "ids_ok em" using assms(1) unfolding cinv_def by blast
    have "q < length (heap em)" "r < length (heap em)"
      using cinv_chan [OF assms(1) that(2)] reg by blast+
    then have "executions em (id_of em q) = Some q" "executions em (id_of em r) = Some r"
      using ids_okD(1) [OF i] by blast+
    then show ?thesis unfolding that(1) by (metis option.inject)
  qed
  have len: "d < length (streams em)" "\<not> os_closed (streams em ! d)" "executions em i \<noteq> None" if "streamChans em i = Some d" for i d
    using chans_okD(1-3) [OF _ that] assms(1) unfolding cinv_def by blast+
  let ?em' = "set_run r RunDone (set_stream c (\<lambda>s. s\<lparr>os_closed := True\<rparr>) ?em)"
  have fields: "streamChans ?em' = (streamChans em)(id_of em r := None)" "id_of ?em' = id_of em" "prio ?em' = prio em"
    "heap ?em' = heap em" "sched ?em' = sched em" "executions ?em' = executions em" "stream_waiting ?em' = stream_waiting em"
    "runs ?em' = (runs em)(r := RunDone)" "length (streams ?em') = length (streams em)"
    by (simp_all add: set_stream_def id_of_def prio_def fun_eq_iff)
  have other: "streams ?em' ! d = streams em ! d" if "d \<noteq> c" for d
    using that by (simp add: set_stream_def)
  have old: "ps_inv (prio em) (sched em)" "ids_ok em" "chans_ok em" using assms(1) by (simp_all add: cinv_def)
  have "chans_ok ?em'"
    unfolding chans_ok_def fields
  proof (intro conjI allI ballI impI)
    fix i d assume "((streamChans em)(id_of em r := None)) i = Some d"
    then have i: "streamChans em i = Some d" "i \<noteq> id_of em r" by (auto split: if_splits)
    then have "d \<noteq> c" using inj by auto
    then show "d < length (streams em)" "\<not> os_closed (streams ?em' ! d)" "executions em i \<noteq> None"
      using len [OF i(1)] other by auto
  next
    fix i j d assume "((streamChans em)(id_of em r := None)) i = Some d \<and> ((streamChans em)(id_of em r := None)) j = Some d"
    then have "streamChans em i = Some d \<and> streamChans em j = Some d" by (auto split: if_splits)
    then show "i = j" using old(3) unfolding chans_ok_def by blast
  next
    fix q d assume "pc_chan (((runs em)(r := RunDone)) q) = Some d"
    then have q: "q \<noteq> r" "pc_chan (runs em q) = Some d" by (auto split: if_splits)
    then show "q < length (heap em)" "((streamChans em)(id_of em r := None)) (id_of em q) = Some d"
      using cinv_chan [OF assms(1) q(2)] ids by auto
  next
    fix q assume "q \<in> set (stream_waiting em)"
    then show "q < length (heap em)" "((streamChans em)(id_of em r := None)) (id_of em q) = None"
      using old(3) unfolding chans_ok_def by auto
  next
    show "distinct (stream_waiting em)" using old(3) by (simp add: chans_ok_def)
  qed
  then have "cinv (stream_close c r em)"
    using old unfolding eq cinv_def ids_ok_def fields by simp
  moreover have "view (stream_close c r em) = view em"
    unfolding eq by (subst view_same_phase) (simp_all add: assms(2))
  ultimately show ?thesis by (simp add: quiet_def)
qed

section \<open>Pieces that are steps of the abstract machine\<close>

definition simulated :: "em \<Rightarrow> em \<Rightarrow> bool" where
  "simulated em em' \<longleftrightarrow> slot_step (view em) () (view em') \<and> cinv em'"

lemma simulated_quiet: "quiet em em' \<Longrightarrow> simulated em em'"
  by (simp add: simulated_def quiet_def slot_step.stutter)

lemma simulated_then: "simulated em em1 \<Longrightarrow> quiet em1 em' \<Longrightarrow> simulated em em'"
  by (simp add: simulated_def quiet_def)

lemma queued_in_heap: "owned (view em) \<Longrightarrow> r \<in># bag (sched em) \<Longrightarrow> r < length (heap em)"
  using owned_count [of "view em" r] by (simp add: view_def)

lemma running_in_heap: "owned (view em) \<Longrightarrow> runs em r \<noteq> RunNone \<Longrightarrow> r < length (heap em)"
  using owned_count [of "view em" r] by (simp add: view_def)

lemma ps_inv_cong:
  assumes "\<And>e. e \<in># bag ps \<Longrightarrow> class_of P e = class_of Q e" and "ps_inv P ps"
  shows "ps_inv Q ps"
proof -
  have "distinct (map fst (queues ps))" using assms(2) by (simp add: ps_inv_def)
  then have "class_of Q e = class_of P e" if "e \<in> set (queue_of ps p)" for e p
    using that assms(1) bag_iff [of ps e] by auto
  with assms(2) show ?thesis by (simp add: ps_inv_def)
qed

lemma cinv_sched: "cinv em \<Longrightarrow> ps_inv (prio em) ps \<Longrightarrow> cinv (em\<lparr>sched := ps\<rparr>)"
proof -
  assume "cinv em" "ps_inv (prio em) ps"
  moreover have "prio (em\<lparr>sched := ps\<rparr>) = prio em" "id_of (em\<lparr>sched := ps\<rparr>) = id_of em"
    by (simp_all add: fun_eq_iff prio_def id_of_def)
  ultimately show ?thesis by (simp add: cinv_def ids_ok_def chans_ok_def)
qed

lemma cinv_set_submit [simp]: "cinv (set_submit r s em) = cinv em"
  by (rule cinv_eq) (simp_all add: set_submit_def)

lemma view_set_submit: "view (set_submit r s em) = (view em)\<lparr>s_submit := (s_submit (view em))(r := s)\<rparr>"
  by (simp add: view_def cong: if_cong) (simp add: set_submit_def)

lemma view_submits: "s_submit (view em) = submits em" "s_phase (view em) r = phase_of (runs em r)"
  "s_queued (view em) = bag (sched em)" "s_signals (view em) = signals em" "s_sem (view em) = sem em"
  "s_cap (view em) = sem_cap em" "s_count (view em) = length (heap em)"
  by (simp_all add: view_def)

lemma sim_mark:
  assumes "cinv em" and "submits em r = SubRegistered"
  shows "simulated em (submit_mark r em)"
  using slot_step.mark [of "view em" r] assms by (simp add: simulated_def submit_mark_def view_set_submit view_submits)

lemma view_sched: "view (em\<lparr>sched := ps\<rparr>) = (view em)\<lparr>s_queued := bag ps\<rparr>"
  by (simp add: view_def prio_def [abs_def] ref_of_def [abs_def] cong: if_cong)

lemma sim_enqueue:
  assumes "cinv em" and "submits em r = SubQueued"
  shows "simulated em (submit_enqueue r em)"
proof -
  have "ps_inv (prio em) (sched em)" using assms(1) by (simp add: cinv_def)
  then have "bag (Enqueue (prio em) r (sched em)) = add_mset r (bag (sched em))"
    "cinv (em\<lparr>sched := Enqueue (prio em) r (sched em)\<rparr>)"
    using assms(1) by (simp_all add: bag_Enqueue cinv_sched ps_inv_Enqueue)
  then have "view (submit_enqueue r em) =
      (view em)\<lparr>s_submit := (s_submit (view em))(r := SubEnqueued), s_queued := add_mset r (s_queued (view em))\<rparr>"
    "cinv (submit_enqueue r em)"
    by (simp_all add: submit_enqueue_def view_set_submit view_sched view_submits)
  then show ?thesis
    using slot_step.enqueue [of "view em" r] assms(2) by (simp only: simulated_def view_submits simp_thms)
qed

lemma view_signal: "view (signal em) = (view em)\<lparr>s_signals := bump (s_signals (view em))\<rparr>"
  by (simp add: view_def signal_def bump_def prio_def [abs_def] ref_of_def [abs_def] cong: if_cong)

lemma cinv_signal [simp]: "cinv (signal em) = cinv em"
  by (simp add: signal_def)

lemma sim_finish:
  assumes "cinv em" and "submits em r = SubEnqueued"
  shows "simulated em (submit_finish now r em)"
proof -
  let ?em = "\<lambda>es l. set_submit r SubDone ((signal (emit es em))\<lparr>lc := l\<rparr>)"
  have "\<exists>es l. submit_finish now r em = ?em es l"
  proof -
    define es where "es = [Published ''execution.queued''
                (AMap [(''execution_id'', AStr (id_of em r)), (''priority'', AStr (prio em r)),
                       (''queue_depth_at_enqueue'', AInt (int (Size (sched em))))])]"
    let ?e = "signal (emit es em)"
    have "submit_finish now r em = ?em es (if stateVal (lc ?e) = StateReady
        then (case Transition now StateRunning (lc ?e) of Inl _ \<Rightarrow> lc ?e | Inr l \<Rightarrow> l) else lc ?e)"
      unfolding submit_finish_def Let_def es_def [symmetric] by (simp split: sum.split)
    then show ?thesis by blast
  qed
  then obtain es l where f: "submit_finish now r em = ?em es l" by blast
  have "view (?em es l) = (view em)\<lparr>s_submit := (s_submit (view em))(r := SubDone), s_signals := bump (s_signals (view em))\<rparr>"
    "cinv (?em es l)"
    using assms(1) by (simp_all add: view_set_submit view_signal view_submits)
  then show ?thesis
    using slot_step.finish [of "view em" r] assms(2) by (simp only: f simulated_def view_submits simp_thms)
qed

text \<open>A new execution: \<open>fresh_op\<close> demands an identifier that is not in use.\<close>

definition fresh_op :: "em \<Rightarrow> em_op \<Rightarrow> bool" where
  "fresh_op em op \<longleftrightarrow>
     (case op of
        SubmitCheck now fresh_id req _ \<Rightarrow> executions em (rq_ID (with_id fresh_id req)) = None
      | _ \<Rightarrow> True)"

lemma register_cinv:
  assumes c: "cinv em" and o: "owned (view em)" and fresh: "executions em (ex_ID exec) = None"
    and w: "w = stream_waiting em \<or> w = length (heap em) # stream_waiting em"
  shows "cinv (em\<lparr>heap := heap em @ [exec], executions := (executions em)(ex_ID exec \<mapsto> length (heap em)), stream_waiting := w\<rparr>)"
    (is "cinv ?em")
proof -
  have fields: "heap ?em = heap em @ [exec]" "executions ?em = (executions em)(ex_ID exec \<mapsto> length (heap em))"
    "sched ?em = sched em" "streamChans ?em = streamChans em" "streams ?em = streams em" "runs ?em = runs em"
    "stream_waiting ?em = w" by simp_all
  have keys: "id_of ?em r = id_of em r" "prio ?em r = prio em r" if "r < length (heap em)" for r
    using that by (simp_all add: id_of_def prio_def nth_append)
  have new: "id_of ?em (length (heap em)) = ex_ID exec" by (simp add: id_of_def)
  have old: "ps_inv (prio em) (sched em)" "ids_ok em" "chans_ok em" using c unfolding cinv_def by blast+
  note ids = ids_okD [OF old(2)] and ch = chans_okD [OF old(3)]
  have "ps_inv (prio ?em) (sched em)"
  proof (rule ps_inv_cong [OF _ old(1)])
    fix e assume "e \<in># bag (sched em)"
    then have "prio ?em e = prio em e" by (intro keys queued_in_heap [OF o])
    then show "class_of (prio em) e = class_of (prio ?em) e" by (simp add: class_of_def)
  qed
  moreover have "ids_ok ?em" unfolding ids_ok_def fields
  proof (intro conjI allI impI)
    fix r assume "r < length (heap em @ [exec])"
    then consider "r < length (heap em)" | "r = length (heap em)" by fastforce
    then show "((executions em)(ex_ID exec \<mapsto> length (heap em))) (id_of ?em r) = Some r"
    proof cases
      case 1
      then have "executions em (id_of em r) = Some r" by (rule ids)
      with fresh 1 show ?thesis by (auto simp: keys)
    next
      case 2
      then show ?thesis by (simp only: new fun_upd_same)
    qed
  next
    fix i r assume i: "((executions em)(ex_ID exec \<mapsto> length (heap em))) i = Some r"
    consider "i = ex_ID exec" "r = length (heap em)" | "executions em i = Some r"
      using i by (cases "i = ex_ID exec") simp_all
    then have "r < length (heap em @ [exec]) \<and> id_of ?em r = i"
    proof cases
      case 1
      then show ?thesis by (simp only: new length_append_singleton lessI simp_thms)
    next
      case 2
      have "r < length (heap em)" "id_of em r = i" using ids(2,3) [OF 2] .
      then show ?thesis by (simp add: keys)
    qed
    then show "r < length (heap em @ [exec])" "id_of ?em r = i" by blast+
  qed
  moreover have "chans_ok ?em" unfolding chans_ok_def fields
  proof (intro conjI allI ballI impI)
    fix i d assume d: "streamChans em i = Some d"
    show "d < length (streams em)" "\<not> os_closed (streams em ! d)" using ch(1,2) [OF d] .
    show "((executions em)(ex_ID exec \<mapsto> length (heap em))) i \<noteq> None" using ch(3) [OF d] by auto
  next
    fix i j d assume "streamChans em i = Some d \<and> streamChans em j = Some d"
    then show "i = j" using ch(4) by blast
  next
    fix r d assume "pc_chan (runs em r) = Some d"
    from ch(5,6) [OF this] show "r < length (heap em @ [exec])" "streamChans em (id_of ?em r) = Some d"
      by (simp_all add: keys)
  next
    fix r assume r: "r \<in> set w"
    show "r < length (heap em @ [exec])" using w r ch(7) [of r] by auto
    show "streamChans em (id_of ?em r) = None"
    proof (cases "r = length (heap em)")
      case True
      have "streamChans em (ex_ID exec) = None" using ch(3) [of "ex_ID exec"] fresh by (cases "streamChans em (ex_ID exec)") auto
      with True show ?thesis by (simp only: new)
    next
      case False
      then have "r \<in> set (stream_waiting em)" using w r by auto
      from ch(7,8) [OF this] show ?thesis by (simp add: keys)
    qed
  next
    show "distinct w" using w ch(7) [of "length (heap em)"] ch(9) by auto
  qed
  ultimately show ?thesis by (simp add: cinv_def)
qed

lemma register_view:
  "view (set_submit (length (heap em)) SubRegistered (em\<lparr>heap := heap em @ [exec], executions := e, stream_waiting := w\<rparr>)) =
   (view em)\<lparr>s_count := s_count (view em) + 1,
     s_submit := (s_submit (view em))(s_count (view em) := SubRegistered),
     s_ref := (s_ref (view em))(s_count (view em) := rq_ProviderRef (ex_Request exec)),
     s_class := (s_class (view em))(s_count (view em) := if ex_Priority exec = [] then PriorityClassNormal else ex_Priority exec)\<rparr>"
  by (auto simp: view_def set_submit_def fun_eq_iff ref_of_def prio_def class_of_def nth_append less_Suc_eq)

lemma sim_submit:
  assumes "cinv em" and "owned (view em)" and "fresh_op em (SubmitCheck now i req b)"
    and "em_piece (SubmitCheck now i req b) em = Some em'"
  shows "simulated em em'"
proof (cases "submit_check now i req em")
  case (Pair x em1)
  show ?thesis
  proof (cases x)
    case (Inl e)
    with Pair assms(4) have "em' = em1" by simp
    moreover have "em1 = em \<or> (\<exists>es. em1 = emit es em)"
      using Pair Inl by (auto simp: submit_check_def Let_def split: if_splits)
    ultimately show ?thesis using assms(1) by (auto intro!: simulated_quiet simp: quiet_def)
  next
    case (Inr r)
    define exec where "exec = new_execution now (with_id i req)"
    then have exec: "ex_ID exec = rq_ID (with_id i req)" "r = length (heap em)"
      "em1 = set_submit r SubRegistered (em\<lparr>heap := heap em @ [exec], executions := (executions em)(ex_ID exec \<mapsto> r)\<rparr>)"
      using Pair Inr by (auto simp: submit_check_def Let_def new_execution_def split: if_splits)
    define w where "w = (if b then r # stream_waiting em else stream_waiting em)"
    have em': "em' = set_submit r SubRegistered (em\<lparr>heap := heap em @ [exec],
        executions := (executions em)(ex_ID exec \<mapsto> length (heap em)), stream_waiting := w\<rparr>)"
      using Pair Inr assms(4) exec(2,3) by (auto simp: w_def set_submit_def)
    have "cinv em'" unfolding em' cinv_set_submit
      using assms(3) exec by (intro register_cinv assms) (auto simp: fresh_op_def w_def)
    moreover have "slot_step (view em) () (view em')"
    proof -
      have eq: "view em' = (view em)\<lparr>s_count := s_count (view em) + 1,
         s_submit := (s_submit (view em))(s_count (view em) := SubRegistered),
         s_ref := (s_ref (view em))(s_count (view em) := rq_ProviderRef (ex_Request exec)),
         s_class := (s_class (view em))(s_count (view em) :=
           if ex_Priority exec = [] then PriorityClassNormal else ex_Priority exec)\<rparr>"
        unfolding em' exec(2) by (rule register_view)
      show ?thesis unfolding eq by (rule slot_step.register)
    qed
    ultimately show ?thesis by (simp add: simulated_def)
  qed
qed

lemma id_inj:
  "ids_ok em \<Longrightarrow> r < length (heap em) \<Longrightarrow> q < length (heap em) \<Longrightarrow> id_of em q = id_of em r \<Longrightarrow> q = r"
  using ids_okD(1) [of em r] ids_okD(1) [of em q] by (metis option.inject)

lemma quiet_stream_register:
  assumes c: "cinv em" and r: "r \<in> set (stream_waiting em)"
  shows "quiet em (snd (stream_register r (em\<lparr>stream_waiting := remove_first (\<lambda>i. i = r) (stream_waiting em)\<rparr>)))"
    (is "quiet em ?em")
proof -
  have old: "ps_inv (prio em) (sched em)" "ids_ok em" "chans_ok em" using c unfolding cinv_def by blast+
  note ch = chans_okD [OF old(3)]
  have rl: "r < length (heap em)" and none: "streamChans em (id_of em r) = None" using ch(7,8) [OF r] .
  have keys: "id_of ?em = id_of em" "prio ?em = prio em"
    by (simp_all add: stream_register_def Let_def id_of_def prio_def fun_eq_iff)
  have "id_of (em\<lparr>stream_waiting := w\<rparr>) = id_of em" for w by (simp add: id_of_def fun_eq_iff)
  then have fields: "heap ?em = heap em" "sched ?em = sched em" "executions ?em = executions em" "runs ?em = runs em"
    "streams ?em = streams em @ [\<lparr>os_buffer = [], os_closed = False, os_read = []\<rparr>]"
    "streamChans ?em = (streamChans em)(id_of em r \<mapsto> length (streams em))"
    "stream_waiting ?em = remove_first (\<lambda>i. i = r) (stream_waiting em)"
    by (simp_all add: stream_register_def Let_def)
  have other: "id_of em q \<noteq> id_of em r" if "q < length (heap em)" "q \<noteq> r" for q
    using id_inj [OF old(2) rl that(1)] that(2) by blast
  have "chans_ok ?em" unfolding chans_ok_def fields keys
  proof (intro conjI allI ballI impI)
    fix i d assume d: "((streamChans em)(id_of em r \<mapsto> length (streams em))) i = Some d"
    have "d < length (streams em @ [\<lparr>os_buffer = [], os_closed = False, os_read = []\<rparr>]) \<and>
        \<not> os_closed ((streams em @ [\<lparr>os_buffer = [], os_closed = False, os_read = []\<rparr>]) ! d) \<and> executions em i \<noteq> None"
    proof (cases "i = id_of em r")
      case True
      with d ids_okD(1) [OF old(2) rl] show ?thesis by auto
    next
      case False
      with d have "streamChans em i = Some d" by simp
      from ch(1-3) [OF this] show ?thesis by (simp add: nth_append)
    qed
    then show "d < length (streams em @ [\<lparr>os_buffer = [], os_closed = False, os_read = []\<rparr>])"
      "\<not> os_closed ((streams em @ [\<lparr>os_buffer = [], os_closed = False, os_read = []\<rparr>]) ! d)" "executions em i \<noteq> None"
      by blast+
  next
    fix i j d
    assume "((streamChans em)(id_of em r \<mapsto> length (streams em))) i = Some d \<and>
      ((streamChans em)(id_of em r \<mapsto> length (streams em))) j = Some d"
    then show "i = j" using ch(1) [of i d] ch(1) [of j d] ch(4) [of i d j] by (auto split: if_splits)
  next
    fix q d assume q: "pc_chan (runs em q) = Some d"
    then have "streamChans em (id_of em q) = Some d" "q < length (heap em)" using ch(5,6) by blast+
    then show "q < length (heap em)" "((streamChans em)(id_of em r \<mapsto> length (streams em))) (id_of em q) = Some d"
      using none by auto
  next
    fix q assume "q \<in> set (remove_first (\<lambda>i. i = r) (stream_waiting em))"
    then have q: "q \<in> set (stream_waiting em)" "q \<noteq> r"
      using ch(9) by (auto simp: set_remove_first_distinct)
    then show "q < length (heap em)" "((streamChans em)(id_of em r \<mapsto> length (streams em))) (id_of em q) = None"
      using ch(7,8) [OF q(1)] other [of q] by auto
  next
    show "distinct (remove_first (\<lambda>i. i = r) (stream_waiting em))" using ch(9) by (rule distinct_remove_first)
  qed
  then have "cinv ?em" using old unfolding cinv_def ids_ok_def fields keys by simp
  moreover have "view ?em = view em" by (simp add: stream_register_def Let_def)
  ultimately show ?thesis by (simp add: quiet_def)
qed

lemma sim_remove:
  assumes "cinv em"
  shows "simulated em (em\<lparr>sched := snd (Remove ord (id_of em) i (sched em))\<rparr>)"
proof -
  have ps: "ps_inv (prio em) (sched em)" using assms unfolding cinv_def by blast
  obtain b ps' where rm: "Remove ord (id_of em) i (sched em) = (b, ps')" by fastforce
  have ci: "cinv (em\<lparr>sched := ps'\<rparr>)" using cinv_sched [OF assms ps_inv_Remove [OF ps]] rm by (metis snd_conv)
  show ?thesis
  proof (cases b)
    case False
    then have "ps' = sched em" using Remove_miss [of ord "id_of em" i "sched em" ps'] rm by simp
    then show ?thesis using assms rm by (simp add: simulated_quiet quiet_refl)
  next
    case True
    with rm have "Remove ord (id_of em) i (sched em) = (True, ps')" by simp
    from Remove_hit [OF ps this] obtain e where "bag (sched em) = add_mset e (bag ps')" by blast
    then show ?thesis
      using slot_step.withdraw [of e "view em"] ci rm by (simp add: simulated_def view_sched view_submits)
  qed
qed

lemma quiet_notify: "cinv em \<Longrightarrow> quiet em (notifyWaiters i em)"
  by (simp add: quiet_def notifyWaiters_def)

lemma sim_cancel:
  assumes "cinv em"
  shows "simulated em (snd (Cancel now ord i em))"
proof (cases "executions em i")
  case None
  then show ?thesis using assms by (simp add: Cancel_def simulated_quiet quiet_refl)
next
  case (Some r)
  let ?em1 = "em\<lparr>sched := snd (Remove ord (id_of em) i (sched em))\<rparr>"
  have s: "simulated em ?em1" by (rule sim_remove [OF assms])
  then have c1: "cinv ?em1" by (simp add: simulated_def)
  have "quiet ?em1 (notifyWaiters i (emit es (upd r (\<lambda>e. e\<lparr>ex_State := st, ex_CompletedAt := t, ex_Result := x\<rparr>) ?em1)))" for es st t x
    using c1 by (intro quiet_trans [OF _ quiet_notify]) (simp_all add: quiet_def)
  from simulated_then [OF s this] show ?thesis
    using assms Some by (simp add: Cancel_def Let_def simulated_quiet quiet_refl) (simp add: simulated_quiet quiet_def)
qed

section \<open>The scheduler loop and the slots\<close>

lemma fits_view: "r < length (heap em) \<Longrightarrow> s_fits (view em) r \<longleftrightarrow> can_schedule em r"
  by (auto simp: s_fits_def can_schedule_def view_def Let_def split: option.split)

lemma known_view: "r < length (heap em) \<Longrightarrow> s_known (view em) r \<longleftrightarrow> class_of (prio em) r \<in> set priorityOrder"
  by (simp add: s_known_def view_def)

lemma Dequeue_None_ready:
  assumes "cinv em" and o: "owned (view em)" and d: "Dequeue (Some (can_schedule em)) (sched em) = (None, ps)"
  shows "\<not> s_ready (view em) r"
proof
  have ps: "ps_inv (prio em) (sched em)" using assms(1) unfolding cinv_def by blast
  assume rdy: "s_ready (view em) r"
  then have q: "r \<in># bag (sched em)" by (simp add: s_ready_def view_submits)
  then have len: "r < length (heap em)" by (rule queued_in_heap [OF o])
  obtain p where p: "r \<in> set (queue_of (sched em) p)" using q bag_iff [OF ps_invD(1) [OF ps]] by blast
  have "p \<in> set priorityOrder"
    using ps_invD(5) [OF ps p] rdy known_view [OF len] by (simp add: s_ready_def)
  moreover have "schedulable (Some (can_schedule em)) (sched em) p"
    using p rdy fits_view [OF len] by (auto simp: schedulable_iff s_ready_def)
  ultimately show False using Dequeue_None_D [OF d] by (simp add: choose_class_None_iff)
qed

lemma cinv_eq_sched:
  assumes "cinv em" and "ps_inv (prio em) (sched em')" and "heap em' = heap em" and "executions em' = executions em"
    and "streamChans em' = streamChans em" and "streams em' = streams em" and "stream_waiting em' = stream_waiting em"
    and "runs em' = runs em"
  shows "cinv em'"
  using cinv_sched [OF assms(1,2)] cinv_eq [of em' "em\<lparr>sched := sched em'\<rparr>"] assms(3-) by simp

lemma sim_turn:
  assumes c: "cinv em" and o: "owned (view em)" and sch: "scheduling em"
  shows "simulated em (schedule_iter em)"
proof -
  have ps: "ps_inv (prio em) (sched em)" using c unfolding cinv_def by blast
  have rest: "slot_step (view em) () ((view em)\<lparr>s_looping := loop_done em\<rparr>)"
    if "s_cap (view em) \<le> s_sem (view em) \<or> (\<forall>r. \<not> s_ready (view em) r)"
  proof (cases "loop_done em")
    case True
    then have "(view em)\<lparr>s_looping := loop_done em\<rparr> = view em" by (simp add: view_def)
    then show ?thesis by (simp add: slot_step.stutter)
  next
    case False
    then show ?thesis using slot_step.rest [OF that] by simp
  qed
  show ?thesis
  proof (cases "sem em \<ge> sem_cap em")
    case True
    have "view (em\<lparr>scheduling := False\<rparr>) = (view em)\<lparr>s_looping := loop_done em\<rparr>"
      by (simp add: view_def prio_def [abs_def] ref_of_def [abs_def] cong: if_cong)
    then show ?thesis using True rest c by (simp add: schedule_iter_def simulated_def view_submits)
  next
    case free: False
    obtain x ps' where d: "Dequeue (Some (can_schedule em)) (sched em) = (x, ps')" by fastforce
    have ps': "ps_inv (prio em) ps'" using ps_inv_Dequeue [OF ps] d by (metis snd_conv)
    show ?thesis
    proof (cases x)
      case None
      let ?em = "em\<lparr>sched := ps', scheduling := False\<rparr>"
      have "view ?em = (view em)\<lparr>s_looping := loop_done em\<rparr>"
        using bag_Dequeue_None [of "Some (can_schedule em)" "sched em" ps'] d None
        by (simp add: view_def prio_def [abs_def] ref_of_def [abs_def] cong: if_cong)
      moreover have "cinv ?em" using ps' by (intro cinv_eq_sched [OF c]) simp_all
      ultimately show ?thesis
        using rest Dequeue_None_ready [OF c o] d None free by (simp add: schedule_iter_def simulated_def)
    next
      case (Some r)
      have b: "can_schedule em r" "bag (sched em) = add_mset r (bag ps')"
        using bag_Dequeue_Some [OF ps, of "Some (can_schedule em)" r ps'] d Some by auto
      have len: "r < length (heap em)" by (rule queued_in_heap [OF o]) (simp add: b(2))
      have known: "class_of (prio em) r \<in> set priorityOrder" using Dequeue_known_class [OF ps] d Some by blast
      let ?active = "s_claim 1 r (view em)"
      let ?em = "em\<lparr>sched := ps', sem := sem em + 1, providerActive := ?active\<rparr>"
      have ref: "s_ref (view em) r = ref_of em r" using len by (simp add: view_def)
      have it: "schedule_iter em = set_run r RunDispatched ?em"
        using free d Some ref
        by (simp add: schedule_iter_def Let_def s_claim_def ref_of_def) (simp add: view_def)
      have rdy: "s_ready (view em) r"
        using b fits_view [OF len] known_view [OF len] known by (simp add: s_ready_def view_submits)
      have "view (set_run r RunDispatched ?em) = (view em)\<lparr>s_queued := s_queued (view em) - {#r#},
          s_sem := s_sem (view em) + 1, s_active := ?active, s_phase := (s_phase (view em))(r := Holding)\<rparr>"
        using b(2) by (simp add: view_def set_run_def fun_eq_iff ref_of_def prio_def class_of_def)
      moreover have "cinv (set_run r RunDispatched ?em)"
        using ps' by (intro cinv_set_run cinv_eq_sched [OF c]) simp_all
      ultimately show ?thesis
        using slot_step.dispatch [OF _ rdy] free by (simp add: it simulated_def view_submits)
    qed
  qed
qed

lemma sim_release:
  assumes c: "cinv em" and o: "owned (view em)" and h: "phase_of (runs em r) = Holding" and s: "0 < sem em"
    and pc: "phase_of pc = Released" "\<And>x. pc_chan pc = Some x \<Longrightarrow> pc_chan (runs em r) = Some x"
  shows "simulated em (set_run r pc (releaseSlots r em))"
proof -
  have len: "r < length (heap em)" using running_in_heap [OF o, of r] h by (cases "runs em r = RunNone") auto
  let ?em = "em\<lparr>sem := sem em - 1, providerActive := s_claim (- 1) r (view em)\<rparr>"
  have ref: "s_ref (view em) r = ref_of em r" using len by (simp add: view_def)
  have rel: "releaseSlots r em = signal ?em"
    using ref by (simp add: releaseSlots_def Let_def s_claim_def) (simp add: view_def)
  have "view (set_run r pc (signal ?em)) = (view em)\<lparr>s_sem := s_sem (view em) - 1, s_active := s_claim (- 1) r (view em),
      s_phase := (s_phase (view em))(r := Released), s_signals := bump (s_signals (view em))\<rparr>"
    by (simp add: view_def set_run_def fun_eq_iff ref_of_def prio_def class_of_def pc(1) signal_def bump_def)
  moreover have "cinv (set_run r pc (signal ?em))"
  proof (rule cinv_set_run)
    show "cinv (signal ?em)" using c cinv_eq [of ?em em] by simp
    fix x assume "pc_chan pc = Some x"
    from cinv_chan [OF c pc(2) [OF this]] show "r < length (heap (signal ?em)) \<and> streamChans (signal ?em) (id_of (signal ?em) r) = Some x"
      by (simp add: signal_def id_of_def)
  qed
  ultimately show ?thesis
    using slot_step.release [of "view em" r] h s by (simp add: rel simulated_def view_submits)
qed

section \<open>Every piece is a step\<close>

lemma view_loop:
  "view (em\<lparr>signals := n, scheduling := True\<rparr>) = (view em)\<lparr>s_signals := n, s_looping := True\<rparr>"
  "view (em\<lparr>loop_done := True\<rparr>) = (view em)\<lparr>s_looping := True\<rparr>"
  by (simp_all add: view_def prio_def [abs_def] ref_of_def [abs_def] cong: if_cong)

lemma quiet_ctx: "cinv em \<Longrightarrow> quiet em (em\<lparr>ctx_err := x\<rparr>)"
  by (simp add: quiet_def)

text \<open>The operations of the clients and of the scheduler loop; the others are a goroutine's.\<close>
fun client_op :: "em_op \<Rightarrow> bool" where
  "client_op (SubmitCheck n i q b) = True"
| "client_op (SubmitMark r) = True"
| "client_op (SubmitEnqueue r) = True"
| "client_op (SubmitFinish n r) = True"
| "client_op (StreamRegister r) = True"
| "client_op (CancelCall n ord i) = True"
| "client_op (WaitCheck w) = True"
| "client_op (WaitRegister w) = True"
| "client_op LoopWake = True"
| "client_op LoopTurn = True"
| "client_op LoopExit = True"
| "client_op ShutdownCall = True"
| "client_op _ = False"

lemma simulation_submit:
  assumes "cinv em" and "owned (view em)" and "fresh_op em op" and "em_piece op em = Some em'"
    and "client_op op"
  shows "simulated em em'"
proof (cases op)
  case (SubmitCheck n i q b)
  then show ?thesis using sim_submit assms by blast
next
  case (WaitCheck i)
  have "view (em\<lparr>pending_waits := d\<rparr>) = view em \<and> cinv (em\<lparr>pending_waits := d\<rparr>)" for d using assms(1) by simp
  then show ?thesis
    using assms WaitCheck
    by (auto simp: wait_check_def Let_def quiet_def split: option.splits if_splits intro!: simulated_quiet)
next
  case (WaitRegister i)
  then show ?thesis using assms by (auto simp: wait_register_def Let_def quiet_def intro!: simulated_quiet)
next
  case LoopWake
  then show ?thesis
    using assms slot_step.wake [of "view em"] by (auto simp: simulated_def view_loop view_submits)
next
  case LoopExit
  then show ?thesis using assms slot_step.halt [of "view em"] by (auto simp: simulated_def view_loop)
next
  case ShutdownCall
  then show ?thesis using assms by (auto simp: Shutdown_def quiet_def split: if_splits intro!: simulated_quiet)
qed (use assms in \<open>auto intro: sim_mark sim_enqueue sim_finish sim_cancel sim_turn simulated_quiet quiet_stream_register\<close>)

lemma simulation_run:
  assumes c: "cinv em" and o: "owned (view em)" and p: "em_piece op em = Some em'"
    and ops: "\<not> client_op op"
  shows "simulated em em'"
proof (cases op)
  case (RunBegin now r)
  then show ?thesis using p c quiet_begin by (auto intro!: simulated_quiet)
next
  case (RunArm r)
  then show ?thesis using p c quiet_arm by (auto intro!: simulated_quiet)
next
  case (RunResolve now ord r)
  then show ?thesis using p c quiet_resolve running_in_heap [OF o, of r] by (auto intro!: simulated_quiet)
next
  case (PipelineShort res err r)
  then show ?thesis using p c by (auto split: run_pc.splits intro!: simulated_quiet quiet_set)
next
  case (PipelineCall now r)
  then show ?thesis using p c by (auto split: run_pc.splits intro!: simulated_quiet quiet_next)
next
  case (AttemptReturns now res err r)
  then show ?thesis using p c by (auto split: run_pc.splits intro!: simulated_quiet quiet_attempt)
next
  case (AttemptTimesOut now r)
  then show ?thesis using p c by (auto split: run_pc.splits intro!: simulated_quiet quiet_attempt)
next
  case (AttemptDecide draw r)
  then show ?thesis using p c by (auto split: run_pc.splits intro!: simulated_quiet quiet_decide)
next
  case (BackoffOver now r)
  then show ?thesis using p c by (auto split: run_pc.splits intro!: simulated_quiet quiet_backoff)
next
  case (BackoffCut r)
  then show ?thesis using p c by (auto split: run_pc.splits option.splits intro!: simulated_quiet quiet_set)
next
  case (PipelineReturn res err r)
  then show ?thesis using p c by (auto split: run_pc.splits intro!: simulated_quiet quiet_set)
next
  case (HandleResult now elapsed r)
  then show ?thesis using p c by (auto split: run_pc.splits intro!: simulated_quiet quiet_handle)
next
  case (PublishOutcome r)
  then show ?thesis using p c by (auto intro!: simulated_quiet quiet_publish)
next
  case (ReleaseSlots r)
  then show ?thesis using p by (auto split: run_pc.splits intro!: sim_release [OF c o])
next
  case (NotifyWaiters r)
  have keep: "quiet em (set_run r pc (notifyWaiters (id_of em r) em))"
    if "phase_of pc = Released" "phase_of (runs em r) = Released" "\<And>x. pc_chan pc = Some x \<Longrightarrow> pc_chan (runs em r) = Some x" for pc
  proof (rule quiet_trans [OF quiet_notify [OF c] quiet_set])
    show "cinv (notifyWaiters (id_of em r) em)" using quiet_notify [OF c] by (simp add: quiet_def)
    show "phase_of pc = phase_of (runs (notifyWaiters (id_of em r) em) r)" using that by (simp add: notifyWaiters_def)
    fix x assume "pc_chan pc = Some x"
    from cinv_chan [OF c that(3) [OF this]]
    show "r < length (heap (notifyWaiters (id_of em r) em)) \<and>
        streamChans (notifyWaiters (id_of em r) em) (id_of (notifyWaiters (id_of em r) em) r) = Some x"
      by (simp add: notifyWaiters_def id_of_def)
  qed
  then show ?thesis using p NotifyWaiters by (auto split: run_pc.splits option.splits if_splits intro!: simulated_quiet keep)
next
  case (Recover now r)
  then show ?thesis using p c by (auto split: run_pc.splits intro!: simulated_quiet quiet_recover)
next
  case (FatalLog r)
  then show ?thesis using p quiet_set [OF c, of RunDone r] by (auto intro!: simulated_quiet simp: quiet_def)
next
  case (DeadlinePasses r)
  then show ?thesis using p c by (auto intro!: simulated_quiet quiet_ctx)
next
  case (StreamOpens err r)
  then show ?thesis using p c by (auto split: run_pc.splits intro!: simulated_quiet quiet_opened)
next
  case (StreamReceives chunk r)
  then show ?thesis using p c cinv_chan [OF c, of r] by (auto split: run_pc.splits intro!: simulated_quiet quiet_set)
next
  case (StreamEnds now r)
  then show ?thesis using p c by (auto split: run_pc.splits intro!: simulated_quiet quiet_stream_end)
next
  case (StreamAborts r)
  then show ?thesis
    using p c cinv_chan [OF c, of r] by (auto split: run_pc.splits option.splits intro!: simulated_quiet quiet_set)
next
  case (StreamSends now r)
  then show ?thesis using p c by (auto split: run_pc.splits intro!: simulated_quiet intro: quiet_send)
next
  case (StreamCloses r)
  then show ?thesis using p c by (auto split: run_pc.splits intro!: simulated_quiet quiet_close)
next
  case (StreamReads k)
  then show ?thesis
    using p c by (auto split: list.splits if_splits intro!: simulated_quiet cinv_set_stream simp: quiet_def)
qed (use ops in auto)

text \<open>
  The piece of a machine whose identifiers are unique is a step of the abstract machine, and
  the concrete invariant stays.
\<close>

lemma simulation:
  assumes "em_step em op em'" and "fresh_op em op" and "cinv em" and "owned (view em)"
  shows "slot_step (view em) () (view em')" "cinv em'"
  using simulation_submit [OF assms(3,4,2), of em'] simulation_run [OF assms(3,4), of op em'] assms(1)
  unfolding em_step_def simulated_def by blast+

section \<open>Runs with unique identifiers\<close>

definition fresh_step :: "em \<Rightarrow> em_op \<Rightarrow> em \<Rightarrow> bool" where
  "fresh_step em op em' \<longleftrightarrow> fresh_op em op \<and> em_step em op em'"

fun em_run_fresh :: "em_op list \<Rightarrow> em \<Rightarrow> em option" where
  "em_run_fresh [] em = Some em"
| "em_run_fresh (op # ops) em =
     (if exited em \<or> \<not> fresh_op em op then None
      else (case em_piece op em of None \<Rightarrow> None | Some em' \<Rightarrow> em_run_fresh ops em'))"

lemma em_run_fresh_iff: "em_run_fresh ops em = Some em' \<longleftrightarrow> run fresh_step em ops em'"
  by (induction ops arbitrary: em) (auto simp: fresh_step_def em_step_def split: option.splits)

definition manager_ok :: "em \<Rightarrow> bool" where
  "manager_ok em \<longleftrightarrow> cinv em \<and> slots_ok (view em)"

interpretation manager: step_invariant fresh_step manager_ok
proof
  fix em op em' assume em: "manager_ok em" and "fresh_step em op em'"
  then have s: "em_step em op em'" "fresh_op em op" "cinv em" "owned (view em)"
    by (simp_all add: manager_ok_def fresh_step_def slots_ok_def)
  show "manager_ok em'"
    using simulation [OF s] slots.step_inv [of "view em" "()" "view em'"] em by (simp add: manager_ok_def)
qed

lemma manager_ok_new: "manager_ok (NewExecutionManager GlobalLimit QueueSize lifecycle reg pipeline logger)"
proof -
  let ?em = "NewExecutionManager GlobalLimit QueueSize lifecycle reg pipeline logger"
  have f: "heap ?em = []" "sched ?em = NewPriorityScheduler" "executions ?em = Map.empty" "streamChans ?em = Map.empty"
    "runs ?em = (\<lambda>_. RunNone)" "submits ?em = (\<lambda>_. SubNone)" "stream_waiting ?em = []" "sem ?em = 0"
    "providerActive ?em = (\<lambda>_. 0)" "providerLimits ?em = [''openai-primary'' \<mapsto> 500, ''anthropic-primary'' \<mapsto> 500]"
    by (simp_all add: NewExecutionManager_def Let_def)
  have "cinv ?em" by (simp add: cinv_def ids_ok_def chans_ok_def f ps_inv_new)
  moreover have "owned (view ?em)" by (simp add: owned_def owned_at_def view_def f bag_new)
  moreover have "accounted (view ?em)" by (auto simp: accounted_def s_holders_def view_def f split: if_splits)
  moreover have "no_stall (view ?em)" by (simp add: no_stall_def s_ready_def view_def f bag_new)
  ultimately show ?thesis by (simp add: manager_ok_def slots_ok_def)
qed

lemma run_simulates:
  "run fresh_step em ops em' \<Longrightarrow> manager_ok em \<Longrightarrow> run slot_step (view em) (replicate (length ops) ()) (view em')"
proof (induction rule: run.induct)
  case (run_nil em)
  show ?case by simp
next
  case (run_cons em op em1 ops em')
  then have "manager_ok em1" using manager.step_inv by blast
  moreover have "slot_step (view em) () (view em1)"
    using run_cons simulation [of em op em1] by (simp add: fresh_step_def manager_ok_def slots_ok_def)
  ultimately show ?case using run_cons.IH by auto
qed

lemma reachable_ok:
  "run fresh_step (NewExecutionManager GlobalLimit QueueSize lifecycle reg pipeline logger) ops em \<Longrightarrow> manager_ok em"
  using manager.run_inv manager_ok_new by blast

text \<open>
  C1: refinement.  As long as no identifier is submitted twice, every interleaving of submitters, cancellers,
  waiters, the scheduler loop and the goroutines of executions, panics and streams included, is a
  run of the abstract slot machine, step by step.
\<close>
theorem manager_refines_slots:
  assumes "run fresh_step (NewExecutionManager GlobalLimit QueueSize lifecycle reg pipeline logger) ops em"
  shows "run slot_step (view (NewExecutionManager GlobalLimit QueueSize lifecycle reg pipeline logger))
           (replicate (length ops) ()) (view em)"
  by (rule run_simulates [OF assms manager_ok_new])

definition busy_em :: em where
  "busy_em = the (em_run_fresh (submitting 0 ''a'' @ dispatching @ submitting 1 ''b'') boot_em)"

lemma busy_em_run: "run fresh_step boot_em (submitting 0 ''a'' @ dispatching @ submitting 1 ''b'') busy_em"
proof -
  have "em_run_fresh (submitting 0 ''a'' @ dispatching @ submitting 1 ''b'') boot_em \<noteq> None" by code_simp
  then show ?thesis unfolding em_run_fresh_iff [symmetric] busy_em_def by auto
qed

lemma manager_refines_slots_witness:
  "run slot_step (view boot_em) (replicate (length (submitting 0 ''a'' @ dispatching @ submitting 1 ''b'')) ()) (view busy_em)"
  using manager_refines_slots [OF busy_em_run [unfolded boot_em_def]] unfolding boot_em_def .

text \<open>
  C2: slot accounting.  \<open>ActiveCount\<close> is the number of executions between their dispatch and the
  release of their slots; it never exceeds the global limit, and the number of those that run on
  a limited provider is its counter and never exceeds its limit.
\<close>
theorem slots_accounted:
  assumes "run fresh_step (NewExecutionManager GlobalLimit QueueSize lifecycle reg pipeline logger) ops em"
  shows "ActiveCount em = length (filter (\<lambda>r. phase_of (runs em r) = Holding) [0..<length (heap em)]) \<and>
    ActiveCount em \<le> sem_cap em \<and>
    (\<forall>p l. providerLimits em p = Some l \<longrightarrow> p \<noteq> [] \<longrightarrow>
       providerActive em p = int (length (filter (\<lambda>r. phase_of (runs em r) = Holding \<and> ref_of em r = p) [0..<length (heap em)])) \<and>
       providerActive em p \<le> l)"
proof -
  have "accounted' (view em)"
    using reachable_ok [OF assms] by (simp add: manager_ok_def slots_ok_def accounted_alt)
  moreover have "holding (\<lambda>r. s_ref (view em) r = p) (view em) =
      int (length (filter (\<lambda>r. phase_of (runs em r) = Holding \<and> ref_of em r = p) [0..<length (heap em)]))" for p
    by (simp add: holding_def view_def) (rule arg_cong [of _ _ length], rule filter_cong, auto)
  moreover have "holding (\<lambda>_. True) (view em) =
      int (length (filter (\<lambda>r. phase_of (runs em r) = Holding) [0..<length (heap em)]))"
    by (simp add: holding_def view_def)
  ultimately show ?thesis
    by (simp add: accounted'_def ActiveCount_def view_submits) (simp add: view_def)
qed

lemma slots_accounted_witness:
  "ActiveCount busy_em = length (filter (\<lambda>r. phase_of (runs busy_em r) = Holding) [0..<length (heap busy_em)]) \<and>
   ActiveCount busy_em \<le> sem_cap busy_em"
  using slots_accounted [OF busy_em_run [unfolded boot_em_def]] by blast

text \<open>
  C3: an execution runs at most once.  It is queued at most once, and while it is queued its
  goroutine has not been started; an execution whose goroutine was started is never queued again.
\<close>
theorem dispatched_once:
  assumes "run fresh_step (NewExecutionManager GlobalLimit QueueSize lifecycle reg pipeline logger) ops em"
  shows "count (bag (sched em)) r \<le> 1 \<and> (r \<in># bag (sched em) \<longrightarrow> runs em r = RunNone \<and> r < length (heap em)) \<and>
    (runs em r \<noteq> RunNone \<longrightarrow> r \<notin># bag (sched em) \<and> submits em r \<in> {SubEnqueued, SubDone})"
proof -
  have o: "owned (view em)" using reachable_ok [OF assms] by (simp add: manager_ok_def slots_ok_def)
  then have at: "owned_at (view em) r" by (simp add: owned_def)
  have "submits em r \<in> {SubEnqueued, SubDone}" if "runs em r \<noteq> RunNone"
    using that owned_atD(2,4,6) [OF at] by (cases "submits em r") (auto simp: view_submits)
  moreover have "r \<notin># bag (sched em)" if "runs em r \<noteq> RunNone"
    using that owned_atD(8) [OF at] by (cases "runs em r") (auto simp: view_submits)
  ultimately show ?thesis
    using owned_atD(8,9) [OF at] queued_in_heap [OF o, of r] by (auto simp: view_submits)
qed

lemma dispatched_once_witness:
  "count (bag (sched busy_em)) 1 \<le> 1 \<and> 1 \<in># bag (sched busy_em) \<and> runs busy_em 1 = RunNone"
proof -
  have "1 \<in># bag (sched busy_em)" unfolding busy_em_def by code_simp
  then show ?thesis using dispatched_once [OF busy_em_run [unfolded boot_em_def], of 1] by blast
qed

text \<open>
  C4: the scheduler does not stall.  Whenever a slot is free and a queued execution of a known
  class fits its provider's limit, the scheduler loop is running or has a signal to wake up
  for, or a submitter is about to send one, unless the manager was shut down.
\<close>
theorem scheduler_not_stalled:
  assumes "run fresh_step (NewExecutionManager GlobalLimit QueueSize lifecycle reg pipeline logger) ops em"
    and "sem em < sem_cap em" and "r \<in># bag (sched em)" and "class_of (prio em) r \<in> set priorityOrder"
    and "can_schedule em r"
  shows "scheduling em \<or> loop_done em \<or> 0 < signals em \<or> (\<exists>q. submits em q = SubEnqueued)"
proof -
  have ok: "owned (view em)" "no_stall (view em)"
    using reachable_ok [OF assms(1)] by (simp_all add: manager_ok_def slots_ok_def)
  have len: "r < length (heap em)" using queued_in_heap [OF ok(1) assms(3)] .
  have "s_ready (view em) r"
    using assms(3-5) by (simp add: s_ready_def fits_view [OF len] known_view [OF len] view_submits)
  then show ?thesis using ok(2) assms(2) by (auto simp: no_stall_def view_def)
qed

lemma scheduler_not_stalled_witness:
  "scheduling busy_em \<or> loop_done busy_em \<or> 0 < signals busy_em \<or> (\<exists>q. submits busy_em q = SubEnqueued)"
proof (rule scheduler_not_stalled [OF busy_em_run [unfolded boot_em_def]])
  show "sem busy_em < sem_cap busy_em" unfolding busy_em_def by code_simp
  show "1 \<in># bag (sched busy_em)" unfolding busy_em_def by code_simp
  show "class_of (prio busy_em) 1 \<in> set priorityOrder" unfolding busy_em_def by code_simp
  show "can_schedule busy_em 1" unfolding busy_em_def by code_simp
qed

end
