(* ===== verification/Exec_Life.thy ===== *)
theory Exec_Life
  imports Exec_Laws
begin

text \<open>
  The life of one execution: what the manager does to a single execution, as an abstract machine over
  its place in \<open>Submit\<close>, its place in \<open>runExecution\<close> and its record.  Every step of the manager is
  a step of every life (\<open>life_simulates\<close>), so what holds of lives holds of each execution in every
  interleaving: results that agree with their states, numbered attempts, a bound on the steps of a
  goroutine, final states, and waiters that are woken.
\<close>

section \<open>The abstract machine\<close>

type_synonym life = "submit_pc \<times> run_pc \<times> execution"

definition max_attempts :: "execution \<Rightarrow> int" where
  "max_attempts e = MaxAttempts (fst (resolvePolicies (ex_Request e)))"

text \<open>What the goroutine of an execution does next, and to the record.\<close>

inductive own_step :: "run_pc \<Rightarrow> execution \<Rightarrow> run_pc \<Rightarrow> execution \<Rightarrow> bool" where
  begin_run: "own_step RunDispatched e RunBegun (e\<lparr>ex_State := ExecStateRunning, ex_StartedAt := Some now\<rparr>)"
| arm: "own_step RunBegun e RunArmed (e\<lparr>ex_CancelFunc := True\<rparr>)"
| unresolved: "er_State res = ExecStateFailed \<Longrightarrow>
     own_step RunArmed e (RunRelease None) (complete now ExecStateFailed res e)"
| resolved: "own_step RunArmed e (RunCall p) e"
| streaming: "own_step RunArmed e (RunStreamOpen c) e"
| short: "own_step (RunCall p) e (RunHandle res err) e"
| first: "1 \<le> max_attempts e \<Longrightarrow> own_step (RunCall p) e (RunAttempt p 1 now) e"
| no_attempt: "max_attempts e < 1 \<Longrightarrow> own_step (RunCall p) e (RunAttempted None None) e"
| attempted: "at_Number a = k \<Longrightarrow> own_step (RunAttempt p k t) e (RunDecide p k res err) (appended a e)"
| stop: "own_step (RunDecide p k res err) e (RunAttempted res err) e"
| back_off: "k + 1 \<le> max_attempts e \<Longrightarrow>
     own_step (RunDecide p k res (Some err)) e (RunBackoff p (k + 1) res err) (e\<lparr>ex_State := ExecStateRetrying\<rparr>)"
| retry: "own_step (RunBackoff p k res err) e (RunAttempt p k now) (e\<lparr>ex_State := ExecStateRunning\<rparr>)"
| cut: "own_step (RunBackoff p k res err) e (RunAttempted res (Some err')) e"
| pipeline: "own_step (RunAttempted res err) e (RunHandle res' err') e"
| handled: "handleResult now d err res e = Some e' \<Longrightarrow> own_step (RunHandle res err) e RunPublish e'"
| unhandled: "own_step (RunHandle res err) e (RunPanic m) (e\<lparr>ex_CompletedAt := Some now\<rparr>)"
| published: "own_step RunPublish e (RunRelease None) e"
| unpublished: "own_step RunPublish e (RunPanic m) e"
| recover: "er_State res = ExecStateFailed \<Longrightarrow> own_step (RunPanic m) e RunPanicRelease (complete now ExecStateFailed res e)"
| release: "own_step (RunRelease c) e (RunNotify c) e"
| panic_release: "own_step RunPanicRelease e RunPanicNotify e"
| notify: "own_step (RunNotify None) e RunDone e"
| stream_notify: "own_step (RunNotify (Some c)) e (RunStreamClose c) e"
| panic_notify: "pc \<in> {RunFatal, RunDone} \<Longrightarrow> own_step RunPanicNotify e pc e"
| fatal: "own_step RunFatal e RunDone e"
| opened: "own_step (RunStreamOpen c) e (RunStream c) e"
| not_opened: "own_step (RunStreamOpen c) e (RunStreamSend c x (NextFail err)) e"
| stream_end: "er_State res = ExecStateSucceeded \<Longrightarrow>
     own_step (RunStream c) e (RunRelease (Some c)) (complete now ExecStateSucceeded res e)"
| stream_abort: "own_step (RunStream c) e (RunStreamSend c x (NextAbort err)) e"
| sent: "own_step (RunStreamSend c x NextLoop) e (RunStream c) e"
| abort_sent: "er_State res = ExecStateTimedOut \<Longrightarrow>
     own_step (RunStreamSend c x (NextAbort err)) e (RunRelease (Some c)) (complete now ExecStateTimedOut res e)"
| fail_sent: "er_State res = ExecStateFailed \<Longrightarrow>
     own_step (RunStreamSend c x (NextFail err)) e (RunRelease (Some c)) (complete now ExecStateFailed res e)"
| close: "own_step (RunStreamClose c) e RunDone e"

text \<open>Who takes a step: somebody else, the goroutine itself, or the provider's stream with a chunk for it.\<close>

datatype who = ByOther | ByRun | ByChunk

inductive life_step :: "life \<Rightarrow> who \<Rightarrow> life \<Rightarrow> bool" where
  idle: "life_step l ByOther l"
| mark: "life_step (SubRegistered, pc, e) ByOther (SubQueued, pc, e\<lparr>ex_State := ExecStateQueued\<rparr>)"
| enqueued: "life_step (SubQueued, pc, e) ByOther (SubEnqueued, pc, e)"
| submitted: "life_step (SubEnqueued, pc, e) ByOther (SubDone, pc, e)"
| dispatched: "s \<in> {SubEnqueued, SubDone} \<Longrightarrow> life_step (s, RunNone, e) ByOther (s, RunDispatched, e)"
| cancelled: "ex_State e \<in> {ExecStatePending, ExecStateQueued, ExecStateRetrying} \<Longrightarrow> er_State res = ExecStateCancelled \<Longrightarrow>
     life_step (s, pc, e) ByOther (s, pc, complete now ExecStateCancelled res e)"
| own: "own_step pc e pc' e' \<Longrightarrow> life_step (s, pc, e) ByRun (s, pc', e')"
| chunk: "life_step (s, RunStream c, e) ByChunk (s, RunStreamSend c x NextLoop, e)"

section \<open>Every step of the manager is a step of every life\<close>

definition life_of :: "em \<Rightarrow> nat \<Rightarrow> life" where
  "life_of em r = (submits em r, runs em r, heap em ! r)"

fun actor :: "em_op \<Rightarrow> nat option" where
  "actor (RunBegin now r) = Some r"
| "actor (RunArm r) = Some r"
| "actor (RunResolve now ord r) = Some r"
| "actor (PipelineShort res err r) = Some r"
| "actor (PipelineCall now r) = Some r"
| "actor (AttemptReturns now res err r) = Some r"
| "actor (AttemptTimesOut now r) = Some r"
| "actor (AttemptDecide draw r) = Some r"
| "actor (BackoffOver now r) = Some r"
| "actor (BackoffCut r) = Some r"
| "actor (PipelineReturn res err r) = Some r"
| "actor (HandleResult now elapsed r) = Some r"
| "actor (PublishOutcome r) = Some r"
| "actor (ReleaseSlots r) = Some r"
| "actor (NotifyWaiters r) = Some r"
| "actor (Recover now r) = Some r"
| "actor (FatalLog r) = Some r"
| "actor (StreamOpens err r) = Some r"
| "actor (StreamReceives x r) = Some r"
| "actor (StreamEnds now r) = Some r"
| "actor (StreamAborts r) = Some r"
| "actor (StreamSends now r) = Some r"
| "actor (StreamCloses r) = Some r"
| "actor _ = None"

fun receives :: "em_op \<Rightarrow> bool" where
  "receives (StreamReceives x r) = True"
| "receives _ = False"

definition who_of :: "nat \<Rightarrow> em_op \<Rightarrow> who" where
  "who_of r op = (if actor op \<noteq> Some r then ByOther else if receives op then ByChunk else ByRun)"

lemma fields_set [simp]:
  "submits (upd q f em) = submits em" "submits (set_run q pc em) = submits em" "submits (emit es em) = submits em"
  "submits (set_submit q s em) = (submits em)(q := s)" "runs (set_submit q s em) = runs em" "heap (set_submit q s em) = heap em"
  "submits (signal em) = submits em" "runs (signal em) = runs em" "heap (signal em) = heap em"
  "submits (notifyWaiters i em) = submits em" "runs (notifyWaiters i em) = runs em" "heap (notifyWaiters i em) = heap em"
  "submits (set_stream c g em) = submits em" "heap (set_stream c g em) = heap em"
  "submits (releaseSlots q em) = submits em" "runs (releaseSlots q em) = runs em" "heap (releaseSlots q em) = heap em"
  by (simp_all add: upd_def set_run_def emit_def set_submit_def signal_def notifyWaiters_def set_stream_def releaseSlots_def Let_def)

lemma heap_upd: "heap (upd q f em) ! r = (if r = q \<and> q < length (heap em) then f (heap em ! r) else heap em ! r)"
  by (simp add: upd_def nth_upd)

lemma life_upd [simp]:
  "life_of (upd q f em) r = (submits em r, runs em r, if r = q \<and> q < length (heap em) then f (heap em ! r) else heap em ! r)"
  by (simp add: life_of_def heap_upd)

lemma life_set [simp]:
  "life_of (emit es em) r = life_of em r" "life_of (signal em) r = life_of em r" "life_of (notifyWaiters i em) r = life_of em r"
  "life_of (set_stream c g em) r = life_of em r" "life_of (releaseSlots q em) r = life_of em r"
  by (simp_all add: life_of_def)

lemma life_set_run [simp]: "life_of (set_run q pc em) r = (if q = r then (submits em r, pc, heap em ! r) else life_of em r)"
  by (simp add: life_of_def)

definition moves :: "nat \<Rightarrow> em \<Rightarrow> em \<Rightarrow> bool" where
  "moves r em em' \<longleftrightarrow> own_step (runs em r) (heap em ! r) (runs em' r) (heap em' ! r) \<and> submits em' = submits em"

lemma moves_set: "own_step (runs em r) (heap em ! r) pc (heap em ! r) \<Longrightarrow> moves r em (set_run r pc em)"
  by (simp add: moves_def)

lemma moves_upd:
  "r < length (heap em) \<Longrightarrow> own_step (runs em r) (heap em ! r) pc (f (heap em ! r)) \<Longrightarrow> moves r em (set_run r pc (upd r f em))"
  by (simp add: moves_def heap_upd)

lemma moves_emit: "moves r em (set_run r pc em') \<Longrightarrow> moves r em (set_run r pc (emit es em'))"
  by (simp add: moves_def)

lemma moves_ctx: "moves r (em\<lparr>ctx_err := x\<rparr>) em' \<longleftrightarrow> moves r em em'"
  by (simp add: moves_def)

lemmas moves_intros = moves_emit moves_upd moves_set own_step.intros

lemma bare_state [simp]: "er_State (bare_result i st s e) = s"
  by (simp add: bare_result_def)

lemma max_attempts_em: "max_attempts (heap em ! r) = MaxAttempts (fst (policies em r))"
  by (simp add: max_attempts_def policies_def)

lemma moves_begin: "r < length (heap em) \<Longrightarrow> runs em r = RunDispatched \<Longrightarrow> moves r em (run_begin now r em)"
  unfolding run_begin_def Let_def by (intro moves_emit moves_upd) (simp_all add: begin_run)

lemma moves_arm: "r < length (heap em) \<Longrightarrow> runs em r = RunBegun \<Longrightarrow> moves r em (run_arm r em)"
  unfolding run_arm_def by (subst moves_ctx [symmetric], rule moves_upd) (simp_all add: arm)

lemma moves_resolve: "r < length (heap em) \<Longrightarrow> runs em r = RunArmed \<Longrightarrow> moves r em (run_resolve now ord r em)"
  unfolding run_resolve_def Let_def
  by (auto split: sum.split option.split intro!: moves_emit moves_upd moves_set unresolved resolved streaming)

lemma moves_next: "runs em r = RunCall p \<Longrightarrow> moves r em (next_attempt now p 1 r em)"
  unfolding next_attempt_def by (auto intro!: moves_set first no_attempt simp: max_attempts_em)

lemma runSingleAttempt_appends:
  "\<exists>a. at_Number a = k \<and> fst (snd (runSingleAttempt p k s t e out exec)) = appended a exec"
  by (auto simp: runSingleAttempt_def Let_def split: attempt_outcome.split option.split;
      rule exI, rule conjI [rotated], rule refl, simp)

lemma moves_attempt:
  assumes "r < length (heap em)" and "runs em r = RunAttempt p k started"
  shows "moves r em (attempt_end now out p k started r em)"
proof -
  obtain res err exec es where s: "runSingleAttempt p k started now (ctx_err em r) out (heap em ! r) = ((res, err), exec, es)"
    by (metis prod_cases4 surj_pair)
  then obtain a where "at_Number a = k" "exec = appended a (heap em ! r)"
    using runSingleAttempt_appends [of k p started now "ctx_err em r" out "heap em ! r"] by auto
  then show ?thesis
    using assms by (auto simp: attempt_end_def s intro!: moves_emit moves_upd attempted)
qed

lemma moves_decide:
  assumes "r < length (heap em)" and "runs em r = RunDecide p k res err"
  shows "moves r em (decide f p k res err r em)"
proof -
  have "fst (begin_backoff f pol j e exec) = exec\<lparr>ex_State := ExecStateRetrying\<rparr>" for pol j e exec
    by (simp add: begin_backoff_def Let_def)
  then have b: "begin_backoff f pol j e exec = (x, es) \<Longrightarrow> x = exec\<lparr>ex_State := ExecStateRetrying\<rparr>" for pol j e exec x es
    by (metis fst_conv)
  show ?thesis
    unfolding decide_def Let_def
    using assms
    by (auto split: option.split prod.split intro!: moves_emit moves_upd moves_set stop back_off
        dest!: b simp: max_attempts_em)
qed

lemma moves_backoff: "r < length (heap em) \<Longrightarrow> runs em r = RunBackoff p k res err \<Longrightarrow> moves r em (backoff_over now p k r em)"
  unfolding backoff_over_def by (intro moves_upd) (simp_all add: end_backoff_def retry)

lemma moves_handle: "r < length (heap em) \<Longrightarrow> runs em r = RunHandle res err \<Longrightarrow> moves r em (run_handle now d res err r em)"
  unfolding run_handle_def by (auto split: option.split intro!: moves_upd handled unhandled)

lemma moves_publish: "runs em r = RunPublish \<Longrightarrow> moves r em (run_publish r em)"
  unfolding run_publish_def by (auto split: option.split intro!: moves_emit moves_set published unpublished)

lemma moves_recover: "r < length (heap em) \<Longrightarrow> runs em r = RunPanic m \<Longrightarrow> moves r em (run_recover now m r em)"
  unfolding run_recover_def by (intro moves_upd) (simp_all add: recover)

lemma moves_opened: "runs em r = RunStreamOpen c \<Longrightarrow> moves r em (stream_opened err c r em)"
  unfolding stream_opened_def by (auto split: option.split intro!: moves_set opened not_opened)

lemma moves_ended:
  assumes "r < length (heap em)"
  shows "runs em r = RunStream c \<Longrightarrow> moves r em (stream_ended now c r em)"
    and "runs em r = RunStreamSend c x (NextAbort err) \<Longrightarrow> moves r em (stream_aborted now err c r em)"
    and "runs em r = RunStreamSend c x (NextFail err) \<Longrightarrow> moves r em (stream_failed now err c r em)"
  unfolding stream_ended_def stream_aborted_def stream_failed_def Let_def
  using assms by (auto intro!: moves_emit moves_upd stream_end abort_sent fail_sent)

lemma moves_stream: "moves r (set_stream c g em) em' \<longleftrightarrow> moves r em em'"
  by (simp add: moves_def)

lemma moves_send:
  assumes "cinv em" and "r < length (heap em)" and "runs em r = RunStreamSend c x nxt"
    and "stream_send now c x nxt r em = Some em'"
  shows "moves r em em'"
proof -
  have "\<not> os_closed (streams em ! c)" using chan_open [OF assms(1), of r c] assms(3) by simp
  then have em': "em' = (let em = set_stream c (\<lambda>s. s\<lparr>os_buffer := os_buffer s @ [x]\<rparr>) em
      in case nxt of NextLoop \<Rightarrow> set_run r (RunStream c) em
         | NextAbort e \<Rightarrow> stream_aborted now e c r em | NextFail e \<Rightarrow> stream_failed now e c r em)"
    using assms(4) by (simp add: stream_send_def Let_def split: if_splits)
  show ?thesis
    unfolding em' Let_def moves_stream [symmetric, of r em _ c "\<lambda>s. s\<lparr>os_buffer := os_buffer s @ [x]\<rparr>"]
    using assms(2,3) by (cases nxt) (auto intro!: moves_set moves_ended sent)
qed

lemma moves_close:
  assumes "cinv em" and "runs em r = RunStreamClose c"
  shows "moves r em (stream_close c r em)"
  using chan_open [OF assms(1), of r c] assms(2) by (simp add: stream_close_def moves_def close)

lemma moves_notify: "own_step (runs em r) (heap em ! r) pc (heap em ! r) \<Longrightarrow> moves r em (set_run r pc (notifyWaiters i em))"
  by (simp add: moves_def)

lemma moves_release: "own_step (runs em r) (heap em ! r) pc (heap em ! r) \<Longrightarrow> moves r em (set_run r pc (releaseSlots r em))"
  by (simp add: moves_def)

lemma moves_exit: "own_step (runs em r) (heap em ! r) pc (heap em ! r) \<Longrightarrow> moves r em ((set_run r pc em)\<lparr>exited := True\<rparr>)"
  by (simp add: moves_def)

lemma own_moves:
  assumes c: "cinv em" and r: "r < length (heap em)" and p: "em_piece op em = Some em'"
    and op: "actor op = Some r" "\<not> receives op"
  shows "moves r em em'"
proof (cases op)
  case (NotifyWaiters q)
  then show ?thesis
    using p op by (auto split: run_pc.splits option.splits intro!: moves_notify notify stream_notify panic_notify)
next
  case (ReleaseSlots q)
  then show ?thesis
    using p op by (auto split: run_pc.splits intro!: moves_release release panic_release)
next
  case (StreamSends now q)
  then show ?thesis
    using p op moves_send [OF c r] by (auto split: run_pc.splits)
next
  case (StreamCloses q)
  then show ?thesis
    using p op moves_close [OF c] by (auto split: run_pc.splits)
next
  case (FatalLog q)
  then show ?thesis
    using p op by (auto intro!: moves_exit fatal)
next
  case (BackoffCut q)
  then show ?thesis
    using p op by (auto split: run_pc.splits option.splits intro!: moves_set cut)
next
  case (StreamAborts q)
  then show ?thesis
    using p op by (auto split: run_pc.splits option.splits intro!: moves_set stream_abort)
qed (use p op r in \<open>auto split: run_pc.splits intro!: moves_begin moves_arm moves_resolve moves_next moves_attempt
      moves_decide moves_backoff moves_handle moves_publish moves_recover moves_opened moves_ended moves_set
      short pipeline\<close>)

lemma chunk_moves:
  assumes "em_piece op em = Some em'" and "actor op = Some r" and "receives op"
  shows "\<exists>c x. runs em r = RunStream c \<and> runs em' r = RunStreamSend c x NextLoop \<and> heap em' = heap em \<and> submits em' = submits em"
  using assms by (cases op) (auto split: run_pc.splits)

text \<open>The pieces of another goroutine leave a life as it is.\<close>

lemma life_calls [simp]:
  "q \<noteq> r \<Longrightarrow> life_of (run_begin now q em) r = life_of em r" "q \<noteq> r \<Longrightarrow> life_of (run_arm q em) r = life_of em r"
  "q \<noteq> r \<Longrightarrow> life_of (run_resolve now ord q em) r = life_of em r"
  "q \<noteq> r \<Longrightarrow> life_of (next_attempt now p k q em) r = life_of em r"
  "q \<noteq> r \<Longrightarrow> life_of (attempt_end now out p k started q em) r = life_of em r"
  "q \<noteq> r \<Longrightarrow> life_of (decide draw p k res err q em) r = life_of em r"
  "q \<noteq> r \<Longrightarrow> life_of (backoff_over now p k q em) r = life_of em r"
  "q \<noteq> r \<Longrightarrow> life_of (run_handle now d res err q em) r = life_of em r"
  "q \<noteq> r \<Longrightarrow> life_of (run_publish q em) r = life_of em r" "q \<noteq> r \<Longrightarrow> life_of (run_recover now m q em) r = life_of em r"
  "q \<noteq> r \<Longrightarrow> life_of (stream_opened oerr c q em) r = life_of em r"
  "q \<noteq> r \<Longrightarrow> life_of (stream_failed now x c q em) r = life_of em r"
  "q \<noteq> r \<Longrightarrow> life_of (stream_ended now c q em) r = life_of em r"
  "q \<noteq> r \<Longrightarrow> life_of (stream_aborted now x c q em) r = life_of em r"
  by (auto simp: run_begin_def run_arm_def run_resolve_def next_attempt_def attempt_end_def decide_def backoff_over_def
      run_handle_def run_publish_def run_recover_def stream_opened_def stream_failed_def stream_ended_def stream_aborted_def
      Let_def life_of_def heap_upd nth_upd upd_def split: sum.split option.split prod.split)

lemma life_close: "q \<noteq> r \<Longrightarrow> life_of (stream_close c q em) r = life_of em r"
  by (simp add: stream_close_def Let_def) (simp add: life_of_def)

lemma life_send: "q \<noteq> r \<Longrightarrow> stream_send now c x nxt q em = Some em' \<Longrightarrow> life_of em' r = life_of em r"
  by (auto simp: stream_send_def Let_def life_close split: if_splits stream_next.splits)

lemma life_others:
  assumes "em_piece op em = Some em'" and "actor op = Some q" and "q \<noteq> r"
  shows "life_of em' r = life_of em r"
proof (cases op)
  case (StreamSends now p)
  then show ?thesis using assms life_send [of q r] by (auto split: run_pc.splits)
next
  case (StreamCloses p)
  then show ?thesis using assms by (auto simp: life_close split: run_pc.splits)
next
  case (FatalLog p)
  then show ?thesis using assms by (auto simp: life_of_def)
next
  case (NotifyWaiters p)
  then show ?thesis using assms by (auto split: run_pc.splits option.splits)
next
  case (BackoffCut p)
  then show ?thesis using assms by (auto split: run_pc.splits option.splits)
next
  case (StreamAborts p)
  then show ?thesis using assms by (auto split: run_pc.splits option.splits)
qed (use assms in \<open>auto split: run_pc.splits\<close>)

text \<open>Submitters, cancellers, waiters and the scheduler loop.\<close>

lemma life_irrelevant [simp]:
  "life_of (em\<lparr>ctx_err := a\<rparr>) r = life_of em r" "life_of (em\<lparr>pending_waits := d\<rparr>) r = life_of em r"
  "life_of (em\<lparr>next_waiter := n, pending_waits := d, waiters := b\<rparr>) r = life_of em r"
  "life_of (em\<lparr>signals := n', scheduling := x\<rparr>) r = life_of em r" "life_of (em\<lparr>loop_done := x\<rparr>) r = life_of em r"
  "life_of (em\<lparr>stopped := x\<rparr>) r = life_of em r" "life_of (em\<lparr>exited := x\<rparr>) r = life_of em r"
  "life_of (em\<lparr>lc := l\<rparr>) r = life_of em r" "life_of (em\<lparr>sched := ps\<rparr>) r = life_of em r"
  by (simp_all add: life_of_def)

lemma life_submit_check:
  assumes "submit_check now i req em = (x, em')" and "r < length (heap em)"
  shows "life_of em' r = life_of em r"
  using assms
  by (auto simp: submit_check_def Let_def life_of_def nth_append set_submit_def emit_def split: if_splits)

lemma life_stream_register: "life_of (snd (stream_register q (em\<lparr>stream_waiting := w\<rparr>))) r = life_of em r"
  by (simp add: stream_register_def Let_def life_of_def)

lemma life_mark:
  assumes "submits em q = SubRegistered" and "r < length (heap em)"
  shows "life_step (life_of em r) ByOther (life_of (submit_mark q em) r)"
proof (cases "q = r")
  case True
  then show ?thesis using assms by (simp add: submit_mark_def life_of_def heap_upd mark)
next
  case False
  then have "life_of (submit_mark q em) r = life_of em r" by (simp add: submit_mark_def life_of_def heap_upd)
  then show ?thesis by (simp add: idle)
qed

lemma life_enqueue:
  assumes "submits em q = SubQueued"
  shows "life_step (life_of em r) ByOther (life_of (submit_enqueue q em) r)"
proof (cases "q = r")
  case True
  then show ?thesis using assms by (simp add: submit_enqueue_def life_of_def enqueued)
next
  case False
  then have "life_of (submit_enqueue q em) r = life_of em r" by (simp add: submit_enqueue_def life_of_def)
  then show ?thesis by (simp add: idle)
qed

lemma life_finish:
  assumes "submits em q = SubEnqueued"
  shows "life_step (life_of em r) ByOther (life_of (submit_finish now q em) r)"
proof -
  have "life_of (submit_finish now q em) r = (if q = r then (SubDone, runs em r, heap em ! r) else life_of em r)"
    by (auto simp: submit_finish_def Let_def life_of_def split: sum.split)
  then show ?thesis using assms by (auto simp: life_of_def intro: submitted idle)
qed

lemma life_cancel:
  assumes "r < length (heap em)"
  shows "life_step (life_of em r) ByOther (life_of (snd (Cancel now ord i em)) r)"
proof (cases "executions em i")
  case None
  then show ?thesis by (simp add: Cancel_def idle)
next
  case (Some q)
  let ?st = "ex_State (heap em ! q)"
  show ?thesis
  proof (cases "?st \<in> {ExecStatePending, ExecStateQueued, ExecStateRetrying}")
    case True
    then have nt: "\<not> isTerminalState ?st" by auto
    have "life_of (snd (Cancel now ord i em)) r =
        (if r = q then (submits em r, runs em r, complete now ExecStateCancelled (caller_cancelled i) (heap em ! r))
         else life_of em r)"
      using True nt Some assms by (auto simp: Cancel_def Let_def complete_def life_of_def heap_upd)
    moreover have "er_State (caller_cancelled i) = ExecStateCancelled" by (simp add: caller_cancelled_def)
    ultimately show ?thesis using True by (auto simp: life_of_def intro!: cancelled idle)
  next
    case False
    then have "life_of (snd (Cancel now ord i em)) r = life_of em r"
      using Some by (simp add: Cancel_def Let_def)
    then show ?thesis by (simp add: idle)
  qed
qed

lemma life_turn:
  assumes "manager_ok em"
  shows "life_step (life_of em r) ByOther (life_of (schedule_iter em) r)"
proof -
  have ps: "ps_inv (prio em) (sched em)" and o: "owned (view em)"
    using assms by (auto simp: manager_ok_def cinv_def slots_ok_def)
  obtain x ps' where d: "Dequeue (Some (can_schedule em)) (sched em) = (x, ps')" by fastforce
  show ?thesis
  proof (cases "sem em \<ge> sem_cap em \<or> x = None")
    case True
    then have "life_of (schedule_iter em) r = life_of em r" using d by (auto simp: schedule_iter_def life_of_def)
    then show ?thesis by (simp add: idle)
  next
    case False
    then obtain q where q: "x = Some q" by auto
    have "q \<in># bag (sched em)"
      using bag_Dequeue_Some [OF ps, of "Some (can_schedule em)" q ps'] d q by auto
    then have n: "count (s_queued (view em)) q \<noteq> 0" by (simp add: view_submits)
    have at: "owned_at (view em) q" using o unfolding owned_def by blast
    have "s_phase (view em) q = Waiting" using owned_atD(8) [OF at] n by simp
    then have "runs em q = RunNone" by (simp add: view_submits)
    moreover have "submits em q \<in> {SubEnqueued, SubDone}"
      using owned_atD(3,5,7) [OF at, unfolded view_submits(1)] n by (cases "submits em q") blast+
    moreover have "life_of (schedule_iter em) r = (if q = r then (submits em r, RunDispatched, heap em ! r) else life_of em r)"
      using False d q by (simp add: schedule_iter_def Let_def life_of_def)
    ultimately show ?thesis by (auto simp: life_of_def intro!: dispatched idle)
  qed
qed

lemma client_moves:
  assumes m: "manager_ok em" and r: "r < length (heap em)" and p: "em_piece op em = Some em'" and op: "actor op = None"
  shows "life_step (life_of em r) ByOther (life_of em' r)"
proof (cases op)
  case (SubmitCheck now i req b)
  then have "life_of em' r = life_of em r"
    using p r by (auto split: prod.splits sum.splits if_splits dest: life_submit_check) (auto simp: life_of_def dest: life_submit_check)
  then show ?thesis by (simp add: idle)
next
  case (StreamReads c)
  then show ?thesis using p by (auto split: if_splits list.splits intro: idle)
next
  case (WaitCheck i)
  then show ?thesis using p by (auto simp: wait_check_def Let_def split: option.splits intro: idle)
next
  case (WaitRegister i)
  then show ?thesis using p by (auto simp: wait_register_def Let_def intro: idle)
next
  case ShutdownCall
  then show ?thesis using p by (auto simp: Shutdown_def split: if_splits intro: idle)
qed (use p op r in \<open>auto intro: life_mark life_enqueue life_finish life_cancel life_turn [OF m] idle
      simp: life_stream_register\<close>)

lemma own_life: "moves r em em' \<Longrightarrow> life_step (life_of em r) ByRun (life_of em' r)"
  by (auto simp: moves_def life_of_def intro: own)

lemma life_simulates:
  assumes m: "manager_ok em" and st: "fresh_step em op em'" and r: "r < length (heap em)"
  shows "life_step (life_of em r) (who_of r op) (life_of em' r)"
proof -
  have p: "em_piece op em = Some em'" and c: "cinv em"
    using m st by (simp_all add: fresh_step_def em_step_def manager_ok_def)
  show ?thesis
  proof (cases "actor op")
    case None
    then show ?thesis using client_moves [OF m r p] by (simp add: who_of_def)
  next
    case (Some q)
    show ?thesis
    proof (cases "q = r")
      case False
      then show ?thesis using life_others [OF p Some] Some by (simp add: who_of_def idle)
    next
      case q: True
      show ?thesis
      proof (cases "receives op")
        case True
        then show ?thesis
          using chunk_moves [OF p] Some q by (auto simp: who_of_def life_of_def intro: chunk)
      next
        case False
        then show ?thesis
          using own_moves [OF c r p] own_life Some q by (simp add: who_of_def)
      qed
    qed
  qed
qed

section \<open>Every run of the manager is a run of every life\<close>

lemma heap_grows:
  assumes "em_piece op em = Some em'"
  shows "length (heap em') = length (heap em) \<or>
    (\<exists>now i req b. op = SubmitCheck now i req b \<and> length (heap em') = Suc (length (heap em)) \<and>
       submits em' (length (heap em)) = SubRegistered \<and> runs em' = runs em \<and>
       heap em' ! length (heap em) = new_execution now (with_id i req))"
proof (cases op)
  case (SubmitCheck now i req b)
  then show ?thesis
    using assms by (auto simp: submit_check_def Let_def set_submit_def split: if_splits)
next
  case (CancelCall now ord i)
  then show ?thesis
    using assms by (auto simp: Cancel_def Let_def split: option.splits)
next
  case (StreamSends now r)
  then show ?thesis
    using assms
    by (auto simp: stream_send_def stream_close_def stream_aborted_def stream_failed_def Let_def
        split: run_pc.splits if_splits stream_next.splits)
next
  case (BackoffCut r)
  then show ?thesis using assms by (auto split: run_pc.splits option.splits)
next
  case (StreamAborts r)
  then show ?thesis using assms by (auto split: run_pc.splits option.splits)
next
  case (StreamReads c)
  then show ?thesis using assms by (auto split: if_splits list.splits)
next
  case (NotifyWaiters r)
  then show ?thesis using assms by (auto split: run_pc.splits option.splits)
next
  case (WaitCheck i)
  then show ?thesis using assms by (auto simp: wait_check_def Let_def split: option.splits)
next
  case ShutdownCall
  then show ?thesis using assms by (auto simp: Shutdown_def split: if_splits)
qed (use assms in \<open>auto simp: submit_mark_def submit_enqueue_def submit_finish_def stream_register_def wait_register_def
      schedule_iter_def run_begin_def run_arm_def run_resolve_def next_attempt_def attempt_end_def decide_def
      backoff_over_def run_handle_def run_publish_def run_recover_def stream_opened_def stream_ended_def stream_close_def Let_def
      split: run_pc.splits sum.splits option.splits prod.splits if_splits\<close>)

lemma acts_running: "em_piece op em = Some em' \<Longrightarrow> actor op = Some r \<Longrightarrow> runs em r \<noteq> RunNone"
  by (cases op) (auto split: run_pc.splits)

lemma heap_length_run: "run fresh_step em ops em' \<Longrightarrow> length (heap em) \<le> length (heap em')"
proof (induction rule: run.induct)
  case (run_cons em op em1 ops em')
  then have "length (heap em) \<le> length (heap em1)" using heap_grows [of op em em1] by (auto simp: fresh_step_def em_step_def)
  with run_cons.IH show ?case by simp
qed simp

definition busy_labels :: "who list \<Rightarrow> who list" where
  "busy_labels = filter (\<lambda>w. w \<noteq> ByOther)"

text \<open>
  What happens to one execution in an interleaving with unique identifiers is a run of the abstract machine from a
  new execution, in which its goroutine makes the same steps in the same order.
\<close>

lemma manager_lives:
  assumes "run fresh_step (NewExecutionManager GlobalLimit QueueSize lifecycle reg pipeline logger) ops em"
    and "r < length (heap em)"
  shows "\<exists>now req ls. run life_step (SubRegistered, RunNone, new_execution now req) ls (life_of em r) \<and>
    busy_labels ls = busy_labels (map (who_of r) ops)"
  using assms
proof (induction ops arbitrary: em rule: rev_induct)
  case Nil
  then show ?case by (simp add: NewExecutionManager_def Let_def)
next
  case (snoc op ops)
  then obtain em1 where r1: "run fresh_step (NewExecutionManager GlobalLimit QueueSize lifecycle reg pipeline logger) ops em1"
    and st: "fresh_step em1 op em" by (auto simp: run_append)
  have m: "manager_ok em1" using reachable_ok [OF r1] .
  have p: "em_piece op em1 = Some em" using st by (simp add: fresh_step_def em_step_def)
  have o: "owned (view em1)" using m by (simp add: manager_ok_def slots_ok_def)
  show ?case
  proof (cases "r < length (heap em1)")
    case True
    then obtain now req ls where ls: "run life_step (SubRegistered, RunNone, new_execution now req) ls (life_of em1 r)"
      "busy_labels ls = busy_labels (map (who_of r) ops)" using snoc.IH [OF r1] by blast
    have "life_step (life_of em1 r) (who_of r op) (life_of em r)" by (rule life_simulates [OF m st True])
    then have "run life_step (SubRegistered, RunNone, new_execution now req) (ls @ [who_of r op]) (life_of em r)"
      by (rule run_snocI [OF ls(1)])
    moreover have "busy_labels (ls @ [who_of r op]) = busy_labels (map (who_of r) (ops @ [op]))"
      using ls(2) by (simp add: busy_labels_def)
    ultimately show ?thesis by blast
  next
    case False
    have none: "runs em1 q = RunNone" if "length (heap em1) \<le> q" for q
      using running_in_heap [OF o, of q] that by force
    with False obtain now i req b where n: "op = SubmitCheck now i req b" "r = length (heap em1)"
      "submits em r = SubRegistered" "runs em = runs em1" "heap em ! r = new_execution now (with_id i req)"
      using heap_grows [OF p] snoc.prems(2) by (auto simp: less_Suc_eq)
    have "who_of r x = ByOther" if x: "x \<in> set ops" for x
    proof (rule ccontr)
      assume "who_of r x \<noteq> ByOther"
      then have a: "actor x = Some r" by (auto simp: who_of_def split: if_splits)
      obtain xs ys where "ops = xs @ x # ys" using split_list [OF x] by blast
      then obtain s t where s: "run fresh_step (NewExecutionManager GlobalLimit QueueSize lifecycle reg pipeline logger) xs s"
        "fresh_step s x t" "run fresh_step t ys em1" using r1 by (auto simp: run_append)
      have "owned (view s)" using reachable_ok [OF s(1)] by (simp add: manager_ok_def slots_ok_def)
      moreover have "runs s r \<noteq> RunNone" using s(2) acts_running [OF _ a] by (auto simp: fresh_step_def em_step_def)
      ultimately have "r < length (heap s)" by (rule running_in_heap)
      moreover have "length (heap s) \<le> length (heap em1)"
        using heap_length_run [OF run_cons [OF s(2,3)]] .
      ultimately show False using n(2) by simp
    qed
    then have "busy_labels (map (who_of r) (ops @ [op])) = []" by (auto simp: busy_labels_def filter_empty_conv who_of_def n(1))
    moreover have "life_of em r = (SubRegistered, RunNone, new_execution now (with_id i req))"
      using n none by (simp add: life_of_def)
    ultimately show ?thesis
      by (intro exI [of _ now] exI [of _ "with_id i req"] exI [of _ "[]"]) (simp add: busy_labels_def)
  qed
qed

section \<open>What holds of every life\<close>

definition agrees :: "execution \<Rightarrow> bool" where
  "agrees e \<longleftrightarrow> ex_CompletedAt e \<noteq> None \<and> (\<exists>res. ex_Result e = Some res \<and> er_State res = ex_State e)"

text \<open>The goroutine has written the result.\<close>

fun concluded :: "run_pc \<Rightarrow> bool" where
  "concluded RunPublish = True"
| "concluded (RunRelease c) = True"
| "concluded (RunNotify c) = True"
| "concluded (RunStreamClose c) = True"
| "concluded RunPanicRelease = True"
| "concluded RunPanicNotify = True"
| "concluded RunFatal = True"
| "concluded RunDone = True"
| "concluded _ = False"

text \<open>How many attempts are recorded at a place of the code.\<close>

fun counted :: "run_pc \<Rightarrow> int \<Rightarrow> int \<Rightarrow> bool" where
  "counted RunNone n m \<longleftrightarrow> n = 0"
| "counted RunDispatched n m \<longleftrightarrow> n = 0"
| "counted RunBegun n m \<longleftrightarrow> n = 0"
| "counted RunArmed n m \<longleftrightarrow> n = 0"
| "counted (RunCall p) n m \<longleftrightarrow> n = 0"
| "counted (RunAttempt p k t) n m \<longleftrightarrow> k = n + 1 \<and> k \<le> m"
| "counted (RunDecide p k res err) n m \<longleftrightarrow> k = n \<and> k \<le> m"
| "counted (RunBackoff p k res err) n m \<longleftrightarrow> k = n + 1 \<and> k \<le> m"
| "counted _ n m \<longleftrightarrow> n \<le> max 0 m"

definition numbered :: "execution \<Rightarrow> bool" where
  "numbered e \<longleftrightarrow> map at_Number (ex_Attempts e) = [1..int (length (ex_Attempts e))]"

fun life_ok :: "life \<Rightarrow> bool" where
  "life_ok (s, pc, e) \<longleftrightarrow>
     (s \<in> {SubNone, SubRegistered, SubQueued} \<longrightarrow> pc = RunNone) \<and>
     (isTerminalState (ex_State e) \<or> concluded pc \<longrightarrow> agrees e) \<and>
     numbered e \<and> counted pc (int (length (ex_Attempts e))) (max_attempts e)"

lemma fields_complete [simp]:
  "ex_State (complete now s res e) = s" "ex_Attempts (complete now s res e) = ex_Attempts e"
  "max_attempts (complete now s res e) = max_attempts e" "agrees (complete now s res e) \<longleftrightarrow> er_State res = s"
  "numbered (complete now s res e) = numbered e"
  by (simp_all add: complete_def max_attempts_def agrees_def numbered_def)

lemma max_attempts_update [simp]:
  "max_attempts (e\<lparr>ex_State := s\<rparr>) = max_attempts e" "max_attempts (e\<lparr>ex_State := s, ex_StartedAt := t\<rparr>) = max_attempts e"
  "max_attempts (e\<lparr>ex_CancelFunc := b\<rparr>) = max_attempts e" "max_attempts (e\<lparr>ex_CompletedAt := u\<rparr>) = max_attempts e"
  "max_attempts (appended a e) = max_attempts e"
  by (simp_all add: max_attempts_def appended_def)

lemma numbered_update [simp]:
  "numbered (e\<lparr>ex_State := s\<rparr>) = numbered e" "numbered (e\<lparr>ex_State := s, ex_StartedAt := t\<rparr>) = numbered e"
  "numbered (e\<lparr>ex_CancelFunc := b\<rparr>) = numbered e" "numbered (e\<lparr>ex_CompletedAt := u\<rparr>) = numbered e"
  by (simp_all add: numbered_def)

lemma agrees_update [simp]:
  "agrees e \<Longrightarrow> agrees (e\<lparr>ex_CancelFunc := b\<rparr>)" "agrees e \<Longrightarrow> agrees (e\<lparr>ex_CompletedAt := Some u\<rparr>)"
  "agrees (appended a e) = agrees e"
  by (auto simp: agrees_def appended_def)

lemma numbered_appended:
  "numbered e \<Longrightarrow> at_Number a = int (length (ex_Attempts e)) + 1 \<Longrightarrow> numbered (appended a e)"
  by (simp add: numbered_def appended_def upto_rec2 [of 1 "1 + int (length (ex_Attempts e))"] add.commute)

lemma fields_appended [simp]: "ex_Attempts (appended a e) = ex_Attempts e @ [a]" "ex_State (appended a e) = ex_State e"
  by (simp_all add: appended_def)

lemma handleResult_fields:
  assumes "handleResult now d err res e = Some e'"
  shows "ex_Attempts e' = ex_Attempts e" "ex_Request e' = ex_Request e" "agrees e'"
proof -
  show "ex_Attempts e' = ex_Attempts e" "ex_Request e' = ex_Request e"
    using assms by (auto simp: handleResult_def Let_def split: option.splits if_splits)
  show "agrees e'"
    using assms by (auto simp: agrees_def handleResult_def Let_def translateError_def bare_result_def split: option.splits if_splits go_error.splits)
qed

lemma own_step_ok:
  "own_step pc e pc' e' \<Longrightarrow> s \<notin> {SubNone, SubRegistered, SubQueued} \<Longrightarrow> life_ok (s, pc, e) \<Longrightarrow> life_ok (s, pc', e')"
proof (induction rule: own_step.induct)
  case (attempted a k p t res err e)
  then show ?case by (auto intro!: numbered_appended)
next
  case (handled now d err res e e')
  then show ?case using handleResult_fields [OF handled(1)] by (auto simp: max_attempts_def numbered_def)
qed auto

lemma own_step_pc: "own_step pc e pc' e' \<Longrightarrow> pc \<noteq> RunNone \<and> pc' \<noteq> RunNone"
  by (induction rule: own_step.induct) auto

lemma life_step_ok: "life_step l w l' \<Longrightarrow> life_ok l \<Longrightarrow> life_ok l'"
proof (induction rule: life_step.induct)
  case (own pc e pc' e' s)
  then show ?case using own_step_ok [of pc e pc' e' s] own_step_pc [of pc e pc' e'] by auto
next
  case (cancelled e res s pc now)
  then show ?case by auto
qed auto

interpretation life: step_invariant life_step life_ok
  by unfold_locales (rule life_step_ok)

lemma life_ok_new: "life_ok (SubRegistered, RunNone, new_execution now req)"
  by (simp add: new_execution_def numbered_def)

lemma reachable_life_ok:
  assumes "run fresh_step (NewExecutionManager GlobalLimit QueueSize lifecycle reg pipeline logger) ops em"
    and "r < length (heap em)"
  shows "life_ok (life_of em r)"
  using manager_lives [OF assms] life.run_inv life_ok_new by blast

section \<open>How many steps a goroutine makes\<close>

fun rank :: "run_pc \<Rightarrow> int \<Rightarrow> nat" where
  "rank RunNone m = 11 + 3 * nat m"
| "rank RunDispatched m = 11 + 3 * nat m"
| "rank RunBegun m = 10 + 3 * nat m"
| "rank RunArmed m = 9 + 3 * nat m"
| "rank (RunCall p) m = 8 + 3 * nat m"
| "rank (RunBackoff p k res err) m = 10 + 3 * nat (m - k)"
| "rank (RunAttempt p k t) m = 9 + 3 * nat (m - k)"
| "rank (RunDecide p k res err) m = 8 + 3 * nat (m - k)"
| "rank (RunAttempted res err) m = 7"
| "rank (RunHandle res err) m = 6"
| "rank RunPublish m = 5"
| "rank (RunPanic msg) m = 4"
| "rank RunPanicRelease m = 3"
| "rank RunPanicNotify m = 2"
| "rank RunFatal m = 1"
| "rank (RunStreamOpen c) m = 7"
| "rank (RunStreamSend c x nxt) m = (if nxt = NextLoop then 6 else 4)"
| "rank (RunStream c) m = 5"
| "rank (RunRelease c) m = 3"
| "rank (RunNotify c) m = 2"
| "rank (RunStreamClose c) m = 1"
| "rank RunDone m = 0"

definition steps_left :: "life \<Rightarrow> nat" where
  "steps_left l = (case l of (s, pc, e) \<Rightarrow> rank pc (max_attempts e))"

lemma own_step_rank: "own_step pc e pc' e' \<Longrightarrow> rank pc' (max_attempts e') < rank pc (max_attempts e)"
proof (induction rule: own_step.induct)
  case (handled now d err res e e')
  then show ?case by simp
qed auto

lemma own_step_request: "own_step pc e pc' e' \<Longrightarrow> ex_Request e' = ex_Request e"
proof (induction rule: own_step.induct)
  case (handled now d err res e e')
  then show ?case by (rule handleResult_fields)
qed (auto simp: complete_def appended_def)

lemma life_step_left:
  assumes "life_step l w l'"
  shows "w = ByOther \<Longrightarrow> steps_left l' = steps_left l" "w = ByRun \<Longrightarrow> steps_left l' < steps_left l" "w = ByChunk \<Longrightarrow> steps_left l' = steps_left l + 1"
  using assms own_step_rank by (auto simp: steps_left_def elim!: life_step.cases)

lemma life_run_left:
  "run life_step l ls l' \<Longrightarrow> length (busy_labels ls) + steps_left l' \<le> steps_left l + 2 * length (filter (\<lambda>w. w = ByChunk) ls)"
proof (induction rule: run.induct)
  case (run_cons l w l1 ls l')
  then show ?case using life_step_left [OF run_cons.hyps(1)] by (cases w) (simp_all add: busy_labels_def)
qed (simp add: busy_labels_def)

lemma life_step_request: "life_step l w l' \<Longrightarrow> max_attempts (snd (snd l')) = max_attempts (snd (snd l))"
  by (induction rule: life_step.induct) (auto simp: max_attempts_def complete_def dest: own_step_request)

lemma life_run_request: "run life_step l ls l' \<Longrightarrow> max_attempts (snd (snd l')) = max_attempts (snd (snd l))"
  by (induction rule: run.induct) (simp_all add: life_step_request)

lemma label_counts:
  "length (busy_labels (map (who_of r) ops)) = length (filter (\<lambda>op. actor op = Some r) ops)"
  "length (filter (\<lambda>w. w = ByChunk) (busy_labels ls)) = length (filter (\<lambda>w. w = ByChunk) ls)"
  "length (filter (\<lambda>w. w = ByChunk) (busy_labels (map (who_of r) ops))) =
     length (filter (\<lambda>op. actor op = Some r \<and> receives op) ops)"
  by (induction ops, simp_all add: busy_labels_def who_of_def) (induction ls, simp_all)

section \<open>What holds of every execution\<close>

definition done_em :: em where
  "done_em = the (em_run_fresh (submitting 0 ''a'' @ dispatching @ starting 0 @ succeeding 0 @ finishing 0) boot_em)"

lemma done_em_run: "run fresh_step boot_em (submitting 0 ''a'' @ dispatching @ starting 0 @ succeeding 0 @ finishing 0) done_em"
proof -
  have "em_run_fresh (submitting 0 ''a'' @ dispatching @ starting 0 @ succeeding 0 @ finishing 0) boot_em \<noteq> None" by code_simp
  then show ?thesis unfolding em_run_fresh_iff [symmetric] done_em_def by auto
qed

text \<open>
  C5: the goroutine of an execution makes a bounded number of steps, whatever providers, timers, the pipeline and
  the other goroutines do: three for each attempt that its retry policy allows, eleven more, and two
  for each chunk that a stream delivers.
\<close>
theorem run_steps_bounded:
  assumes "run fresh_step (NewExecutionManager GlobalLimit QueueSize lifecycle reg pipeline logger) ops em"
    and "r < length (heap em)"
  shows "length (filter (\<lambda>op. actor op = Some r) ops) \<le>
    11 + 3 * nat (MaxAttempts (fst (policies em r))) + 2 * length (filter (\<lambda>op. actor op = Some r \<and> receives op) ops)"
proof -
  obtain now req ls where ls: "run life_step (SubRegistered, RunNone, new_execution now req) ls (life_of em r)"
    "busy_labels ls = busy_labels (map (who_of r) ops)" using manager_lives [OF assms] by blast
  have "length (busy_labels ls) = length (filter (\<lambda>op. actor op = Some r) ops)"
    by (simp only: ls(2) label_counts)
  moreover have "length (filter (\<lambda>w. w = ByChunk) ls) = length (filter (\<lambda>op. actor op = Some r \<and> receives op) ops)"
    using label_counts(2) [of ls] label_counts(3) [of r ops] by (simp only: ls(2))
  moreover have "steps_left (SubRegistered, RunNone, new_execution now req) = 11 + 3 * nat (MaxAttempts (fst (policies em r)))"
    using life_run_request [OF ls(1)] by (simp add: steps_left_def life_of_def max_attempts_em)
  ultimately show ?thesis using life_run_left [OF ls(1)] by linarith
qed

theorem run_steps_bounded_witness:
  "length (filter (\<lambda>op. actor op = Some 0) (submitting 0 ''a'' @ dispatching @ starting 0 @ succeeding 0 @ finishing 0)) \<le>
    11 + 3 * nat (MaxAttempts (fst (policies done_em 0))) +
    2 * length (filter (\<lambda>op. actor op = Some 0 \<and> receives op) (submitting 0 ''a'' @ dispatching @ starting 0 @ succeeding 0 @ finishing 0))"
proof (rule run_steps_bounded [OF done_em_run [unfolded boot_em_def]])
  show "0 < length (heap done_em)" unfolding done_em_def by code_simp
qed

text \<open>
  C8: results agree with states.  An execution in a terminal state has a completion time and a result, which
  carries the same state; so has one whose goroutine has passed the handling of the result,
  whatever its state.  What \<open>Wait\<close> returns for a terminal execution is never nil.
\<close>
theorem result_matches_state:
  assumes "run fresh_step (NewExecutionManager GlobalLimit QueueSize lifecycle reg pipeline logger) ops em"
    and "r < length (heap em)" and "isTerminalState (ex_State (heap em ! r)) \<or> concluded (runs em r)"
  shows "ex_CompletedAt (heap em ! r) \<noteq> None \<and>
    (\<exists>res. ex_Result (heap em ! r) = Some res \<and> er_State res = ex_State (heap em ! r) \<and>
       (isTerminalState (er_State res) \<longrightarrow> fst (wait_check (id_of em r) em) = Inr (Some (Some res))))"
proof -
  have "executions em (id_of em r) = Some r"
    using reachable_ok [OF assms(1)] ids_okD(1) [OF _ assms(2)] by (simp add: manager_ok_def cinv_def)
  then show ?thesis
    using reachable_life_ok [OF assms(1,2)] assms(3) by (auto simp: life_of_def agrees_def wait_check_def)
qed

theorem result_matches_state_witness:
  "\<exists>res. ex_Result (heap done_em ! 0) = Some res \<and> er_State res = ex_State (heap done_em ! 0)"
proof -
  have "0 < length (heap done_em)" unfolding done_em_def by code_simp
  moreover have "isTerminalState (ex_State (heap done_em ! 0)) \<or> concluded (runs done_em 0)" unfolding done_em_def by code_simp
  ultimately show ?thesis using result_matches_state [OF done_em_run [unfolded boot_em_def], of 0] by blast
qed

text \<open>
  C10: the attempts recorded for an execution are numbered from one without a gap, never exceed the
  attempts its retry policy allows, and none is recorded before its goroutine runs; the attempt that a
  provider is working on has the next number.
\<close>
theorem attempts_numbered:
  assumes "run fresh_step (NewExecutionManager GlobalLimit QueueSize lifecycle reg pipeline logger) ops em"
    and "r < length (heap em)"
  shows "map at_Number (ex_Attempts (heap em ! r)) = [1..int (length (ex_Attempts (heap em ! r)))] \<and>
    int (length (ex_Attempts (heap em ! r))) \<le> max 0 (MaxAttempts (fst (policies em r))) \<and>
    (runs em r = RunNone \<longrightarrow> ex_Attempts (heap em ! r) = []) \<and>
    (\<forall>p k t. runs em r = RunAttempt p k t \<longrightarrow>
       k = int (length (ex_Attempts (heap em ! r))) + 1 \<and> k \<le> MaxAttempts (fst (policies em r)))"
proof -
  have "numbered (heap em ! r)" and c: "counted (runs em r) (int (length (ex_Attempts (heap em ! r)))) (MaxAttempts (fst (policies em r)))"
    using reachable_life_ok [OF assms] by (simp_all add: life_of_def max_attempts_em)
  moreover have "counted pc n m \<Longrightarrow> 0 \<le> n \<Longrightarrow> n \<le> max 0 m" for pc n m by (cases pc) auto
  ultimately show ?thesis by (auto simp: numbered_def)
qed

theorem attempts_numbered_witness:
  "map at_Number (ex_Attempts (heap done_em ! 0)) = [1..int (length (ex_Attempts (heap done_em ! 0)))] \<and>
    int (length (ex_Attempts (heap done_em ! 0))) \<le> max 0 (MaxAttempts (fst (policies done_em 0)))"
proof -
  have "0 < length (heap done_em)" unfolding done_em_def by code_simp
  then show ?thesis using attempts_numbered [OF done_em_run [unfolded boot_em_def], of 0] by blast
qed

end
