(* ===== verification/Exec_Ends.thy ===== *)
theory Exec_Ends
  imports Exec_Life
begin

text \<open>
  How executions end: a final state stays, a registered waiter is woken and finds a result, and a
  goroutine that was started can always run on to its end.
\<close>

section \<open>Final states\<close>

text \<open>
  An execution is settled when its state is terminal and nothing is left to be done for it: its
  goroutine has given back its slots, or it was taken out of the queue before it had one.
\<close>

definition settled :: "em \<Rightarrow> nat \<Rightarrow> bool" where
  "settled em r \<longleftrightarrow> r < length (heap em) \<and> isTerminalState (ex_State (heap em ! r)) \<and>
     submits em r \<in> {SubEnqueued, SubDone} \<and> r \<notin># bag (sched em) \<and>
     (runs em r = RunNone \<or> phase_of (runs em r) = Released)"

text \<open>What was taken out of the queue before it was dispatched stays out.\<close>

lemma slot_step_out:
  "slot_step v op w \<Longrightarrow> owned v \<Longrightarrow> s_submit v r \<in> {SubEnqueued, SubDone} \<Longrightarrow> r \<notin># s_queued v \<Longrightarrow>
   r \<notin># s_queued w \<and> (s_phase v r = Waiting \<longrightarrow> s_phase w r = Waiting)"
proof (induction rule: slot_step.induct)
  case (withdraw q v)
  then show ?case by (auto dest: in_diffD)
next
  case (dispatch v q)
  then show ?case by (auto simp: s_ready_def dest: in_diffD)
next
  case (register v p c)
  then have "s_submit v (s_count v) = SubNone" using owned_atD(1) [of v "s_count v"] by (simp add: owned_def)
  with register show ?case by auto
qed auto

lemma own_step_settled:
  "own_step pc e pc' e' \<Longrightarrow> phase_of pc = Released \<Longrightarrow> e' = e \<and> phase_of pc' = Released"
  by (induction rule: own_step.induct) auto

lemma life_step_settled:
  "life_step (s, pc, e) w (s', pc', e') \<Longrightarrow> s \<in> {SubEnqueued, SubDone} \<Longrightarrow> isTerminalState (ex_State e) \<Longrightarrow>
   phase_of pc = Released \<or> pc = RunNone \<and> pc' = RunNone \<Longrightarrow>
   s' \<in> {SubEnqueued, SubDone} \<and> e' = e \<and> (phase_of pc = Released \<longrightarrow> phase_of pc' = Released)"
  by (erule life_step.cases) (auto dest: own_step_settled own_step_pc)

lemma settled_step:
  assumes m: "manager_ok em" and st: "fresh_step em op em'" and s: "settled em r"
  shows "settled em' r \<and> heap em' ! r = heap em ! r"
proof -
  have o: "owned (view em)" and sim: "slot_step (view em) () (view em')"
    using m st simulation [of em op em'] by (auto simp: manager_ok_def slots_ok_def fresh_step_def)
  have r: "r < length (heap em)" "r < length (heap em')"
    using s heap_length_run [of em "[op]" em'] st by (auto simp: settled_def)
  have out: "r \<notin># bag (sched em')" "runs em r = RunNone \<longrightarrow> runs em' r = RunNone"
    using slot_step_out [OF sim o, of r] s by (auto simp: settled_def view_submits)
  have "life_step (life_of em r) (who_of r op) (life_of em' r)" by (rule life_simulates [OF m st r(1)])
  then have "life_step (submits em r, runs em r, heap em ! r) (who_of r op) (submits em' r, runs em' r, heap em' ! r)"
    by (simp only: life_of_def)
  moreover have "phase_of (runs em r) = Released \<or> runs em r = RunNone \<and> runs em' r = RunNone"
    using s out(2) unfolding settled_def by blast
  ultimately have "submits em' r \<in> {SubEnqueued, SubDone}" "heap em' ! r = heap em ! r"
    "phase_of (runs em r) = Released \<longrightarrow> phase_of (runs em' r) = Released"
    using life_step_settled s unfolding settled_def by blast+
  then show ?thesis using s out r unfolding settled_def by metis
qed

text \<open>Steps of a manager that keeps its invariant, for facts about pairs of states.\<close>

definition sound_step :: "em \<Rightarrow> em_op \<Rightarrow> em \<Rightarrow> bool" where
  "sound_step em op em' \<longleftrightarrow> manager_ok em \<and> (\<forall>r<length (heap em). life_ok (life_of em r)) \<and> fresh_step em op em'"

lemma sound_run:
  assumes "run fresh_step em ops em'" and "run fresh_step (NewExecutionManager GlobalLimit QueueSize lifecycle reg pipeline logger) ops0 em"
  shows "run sound_step em ops em'"
  using assms
proof (induction arbitrary: ops0 rule: run.induct)
  case (run_cons em op em1 ops em')
  have "sound_step em op em1"
    using run_cons.hyps(1) reachable_ok [OF run_cons.prems] reachable_life_ok [OF run_cons.prems] by (simp add: sound_step_def)
  moreover have "run sound_step em1 ops em'" by (rule run_cons.IH [OF run_snocI [OF run_cons.prems run_cons.hyps(1)]])
  ultimately show ?case by (rule run.run_cons)
qed simp

interpretation settles: step_order sound_step "\<lambda>em em'. \<forall>r. settled em r \<longrightarrow> settled em' r \<and> heap em' ! r = heap em ! r"
  by unfold_locales (auto simp: sound_step_def dest: settled_step)


definition after_done :: "em_op list" where
  "after_done = submitting 1 ''b'' @ [cancelling ''a'']"

definition later_em :: em where
  "later_em = the (em_run_fresh after_done done_em)"

lemma later_em_run: "run fresh_step done_em after_done later_em"
proof -
  have "em_run_fresh after_done done_em \<noteq> None" unfolding done_em_def after_done_def by code_simp
  then show ?thesis unfolding em_run_fresh_iff [symmetric] later_em_def by auto
qed


section \<open>Waiters\<close>

text \<open>The goroutine has closed the waiters' channels.\<close>

fun notified :: "run_pc \<Rightarrow> bool" where
  "notified (RunStreamClose c) = True"
| "notified RunFatal = True"
| "notified RunDone = True"
| "notified _ = False"

lemma waiters_pieces [simp]:
  "waiters (upd r f em) = waiters em" "closed_waiters (upd r f em) = closed_waiters em"
  "waiters (set_run r pc em) = waiters em" "closed_waiters (set_run r pc em) = closed_waiters em"
  "waiters (set_submit r s em) = waiters em" "closed_waiters (set_submit r s em) = closed_waiters em"
  "waiters (emit es em) = waiters em" "closed_waiters (emit es em) = closed_waiters em"
  "waiters (signal em) = waiters em" "closed_waiters (signal em) = closed_waiters em"
  "waiters (set_stream c g em) = waiters em" "closed_waiters (set_stream c g em) = closed_waiters em"
  by (simp_all add: upd_def set_run_def set_submit_def emit_def signal_def set_stream_def)

lemmas em_calls =
  submit_check_def submit_mark_def submit_enqueue_def submit_finish_def stream_register_def wait_check_def
  schedule_iter_def releaseSlots_def run_begin_def run_arm_def run_resolve_def next_attempt_def
  attempt_end_def decide_def backoff_over_def run_handle_def run_publish_def run_recover_def
  stream_opened_def stream_failed_def stream_ended_def stream_aborted_def stream_close_def stream_send_def Shutdown_def

lemma waiters_step:
  assumes "em_piece op em = Some em'"
  shows "waiters em' = waiters em \<and> closed_waiters em' = closed_waiters em \<or>
    (\<exists>j ch. op = WaitRegister j \<and> waiters em' = (waiters em)(j := waiters em j @ [ch]) \<and> closed_waiters em' = closed_waiters em) \<or>
    (\<exists>j. ((\<exists>now ord. op = CancelCall now ord j) \<or> (\<exists>q. op = NotifyWaiters q \<and> id_of em q = j)) \<and>
       waiters em' = (waiters em)(j := []) \<and> closed_waiters em' = closed_waiters em @ waiters em j)"
proof (cases op)
  case (CancelCall now ord j)
  then show ?thesis
    using assms by (auto simp: Cancel_def Let_def notifyWaiters_def upd_def emit_def split: option.splits)
next
  case (NotifyWaiters q)
  then show ?thesis
    using assms by (auto simp: notifyWaiters_def set_run_def split: run_pc.splits option.splits)
next
  case (WaitRegister j)
  then show ?thesis
    using assms by (auto simp: wait_register_def Let_def)
qed (use assms in \<open>auto simp: em_calls Let_def
      split: run_pc.splits option.splits if_splits list.splits prod.splits sum.splits stream_next.splits\<close>)

lemma waiters_lost:
  assumes "em_piece op em = Some em'" and "ch \<in> set (waiters em i)" and "ch \<notin> set (waiters em' i)"
  shows "ch \<in> set (closed_waiters em')" "(\<exists>now ord. op = CancelCall now ord i) \<or> (\<exists>q. op = NotifyWaiters q \<and> id_of em q = i)"
proof -
  consider "waiters em' = waiters em" | j c where "waiters em' = (waiters em)(j := waiters em j @ [c])"
    | j where "(\<exists>now ord. op = CancelCall now ord j) \<or> (\<exists>q. op = NotifyWaiters q \<and> id_of em q = j)"
        "waiters em' = (waiters em)(j := [])" "closed_waiters em' = closed_waiters em @ waiters em j"
    using waiters_step [OF assms(1)] by blast
  then have "ch \<in> set (closed_waiters em') \<and> ((\<exists>now ord. op = CancelCall now ord i) \<or> (\<exists>q. op = NotifyWaiters q \<and> id_of em q = i))"
  proof cases
    case (3 j)
    moreover have "j = i" using assms(2,3) 3(2) by (cases "j = i") simp_all
    ultimately show ?thesis using assms(2) by simp
  qed (use assms(2,3) in \<open>auto split: if_splits\<close>)
  then show "ch \<in> set (closed_waiters em')" "(\<exists>now ord. op = CancelCall now ord i) \<or> (\<exists>q. op = NotifyWaiters q \<and> id_of em q = i)"
    by blast+
qed

lemma executions_step:
  assumes "em_piece op em = Some em'" and "fresh_op em op" and "executions em i = Some r"
  shows "executions em' i = Some r"
proof (cases op)
  case (SubmitCheck now j req b)
  then show ?thesis
    using assms
    by (auto simp: submit_check_def Let_def set_submit_def emit_def fresh_op_def new_execution_def split: if_splits)
next
  case (CancelCall now ord j)
  then show ?thesis
    using assms by (auto simp: Cancel_def Let_def notifyWaiters_def split: option.splits)
next
  case (NotifyWaiters q)
  then show ?thesis using assms by (auto simp: notifyWaiters_def split: run_pc.splits option.splits)
qed (use assms in \<open>auto simp: em_calls wait_register_def Let_def signal_def set_submit_def set_stream_def
      split: run_pc.splits option.splits if_splits list.splits prod.splits sum.splits stream_next.splits\<close>)

lemma own_step_result: "own_step pc e pc' e' \<Longrightarrow> ex_Result e \<noteq> None \<Longrightarrow> ex_Result e' \<noteq> None"
proof (induction rule: own_step.induct)
  case (handled now d err res e e')
  then show ?case using handleResult_fields(3) [OF handled(1)] by (auto simp: agrees_def)
qed (auto simp: complete_def appended_def)

lemma life_step_result: "life_step (s, pc, e) w (s', pc', e') \<Longrightarrow> ex_Result e \<noteq> None \<Longrightarrow> ex_Result e' \<noteq> None"
  by (erule life_step.cases) (auto simp: complete_def dest: own_step_result)

lemma life_step_notified:
  "life_step (s, pc, e) w (s', pc', e') \<Longrightarrow> \<not> notified pc \<Longrightarrow> notified pc' \<Longrightarrow>
   w = ByRun \<and> (pc = RunPanicNotify \<or> (\<exists>c. pc = RunNotify c))"
  by (erule life_step.cases) (auto elim: own_step.cases)

text \<open>A channel that a waiter of \<open>i\<close> registered, for the execution \<open>r\<close>.\<close>

definition waits :: "nat \<Rightarrow> string \<Rightarrow> nat \<Rightarrow> em \<Rightarrow> bool" where
  "waits ch i r em \<longleftrightarrow> executions em i = Some r \<and>
     (ch \<in> set (closed_waiters em) \<and> ex_Result (heap em ! r) \<noteq> None \<or> ch \<in> set (waiters em i) \<and> \<not> notified (runs em r))"

lemma notify_pc: "em_piece op em = Some em' \<Longrightarrow> actor op = Some r \<Longrightarrow> runs em r = RunPanicNotify \<or> (\<exists>c. runs em r = RunNotify c) \<Longrightarrow>
   op = NotifyWaiters r"
  by (cases op) (auto split: run_pc.splits)

lemma cancel_result:
  assumes "waiters (snd (Cancel now ord i em)) \<noteq> waiters em" and "executions em i = Some r" and "r < length (heap em)"
  shows "ex_Result (heap (snd (Cancel now ord i em)) ! r) \<noteq> None"
  using assms by (auto simp: Cancel_def Let_def heap_upd split: if_splits)

lemma waits_step:
  assumes s: "sound_step em op em'" and w: "waits ch i r em"
  shows "waits ch i r em'"
proof -
  have m: "manager_ok em" and st: "fresh_step em op em'" and p: "em_piece op em = Some em'" and fo: "fresh_op em op"
    and ids: "ids_ok em" and ok: "\<And>q. q < length (heap em) \<Longrightarrow> life_ok (life_of em q)"
    using s by (auto simp: sound_step_def fresh_step_def em_step_def manager_ok_def cinv_def)
  have ex: "executions em i = Some r" using w by (simp add: waits_def)
  note r = ids_okD(2,3) [OF ids ex]
  have life: "life_step (life_of em r) (who_of r op) (life_of em' r)" by (rule life_simulates [OF m st r(1)])
  note life' = life [unfolded life_of_def]
  have ex': "executions em' i = Some r" by (rule executions_step [OF p fo ex])
  have kept: "ch \<in> set (closed_waiters em) \<Longrightarrow> ch \<in> set (closed_waiters em')" using waiters_step [OF p] by auto
  consider (closed) "ch \<in> set (closed_waiters em)" "ex_Result (heap em ! r) \<noteq> None"
    | (reg) "ch \<in> set (waiters em i)" "\<not> notified (runs em r)" using w by (auto simp: waits_def)
  then show ?thesis
  proof cases
    case closed
    then show ?thesis using kept life_step_result [OF life'] ex' by (simp add: waits_def)
  next
    case reg
    show ?thesis
    proof (cases "ch \<in> set (waiters em' i)")
      case False
      have new: "ch \<in> set (closed_waiters em')" and how: "(\<exists>now ord. op = CancelCall now ord i) \<or> (\<exists>q. op = NotifyWaiters q \<and> id_of em q = i)"
        and gone: "waiters em' \<noteq> waiters em"
        using waiters_lost [OF p reg(1) False] False reg(1) by auto
      have "ex_Result (heap em' ! r) \<noteq> None"
        using how
      proof (elim disjE exE conjE)
        fix now ord assume "op = CancelCall now ord i"
        then have "em' = snd (Cancel now ord i em)" using p by simp
        then show ?thesis using gone cancel_result [OF _ ex r(1), of now ord] by blast
      next
        fix q assume q: "op = NotifyWaiters q" "id_of em q = i"
        then have "concluded (runs em q)" using p by (auto split: run_pc.splits)
        have "runs em q \<noteq> RunNone" using acts_running [OF p, of q] q(1) by simp
        then have "q < length (heap em)" using running_in_heap m unfolding manager_ok_def slots_ok_def by blast
        moreover have "id_of em q = id_of em r" using q(2) r(2) by simp
        ultimately have "q = r" by (rule id_inj [OF ids r(1)])
        with \<open>concluded (runs em q)\<close> have "agrees (heap em ! r)"
          using ok [OF r(1)] unfolding life_of_def life_ok.simps by blast
        then have "ex_Result (heap em ! r) \<noteq> None" unfolding agrees_def by blast
        then show ?thesis by (rule life_step_result [OF life'])
      qed
      then show ?thesis using new ex' by (simp add: waits_def)
    next
      case ch: True
      have "\<not> notified (runs em' r)"
      proof
        assume "notified (runs em' r)"
        then have n: "who_of r op = ByRun" "runs em r = RunPanicNotify \<or> (\<exists>c. runs em r = RunNotify c)"
          using life_step_notified [OF life' reg(2)] by auto
        then have "op = NotifyWaiters r" using notify_pc [OF p, of r] by (auto simp: who_of_def split: if_splits)
        then have "waiters em' i = []"
          using p r(2) by (auto simp: notifyWaiters_def split: run_pc.splits option.splits)
        then show False using ch by simp
      qed
      then show ?thesis using ch ex' by (simp add: waits_def)
    qed
  qed
qed

interpretation waiting: step_invariant sound_step "waits ch i r" for ch i r
  by unfold_locales (rule waits_step)

text \<open>
  C7: a registered waiter is woken and finds a result.  A channel that was registered before the goroutine of its
  execution notified the waiters stays registered until it is closed, it is closed at the latest
  when the goroutine notifies, and from then on the result that \<open>Wait\<close> returns is not nil.
\<close>
theorem waiter_is_woken:
  assumes "run fresh_step (NewExecutionManager GlobalLimit QueueSize lifecycle reg pipeline logger) ops em"
    and "executions em i = Some r" and "ch \<in> set (waiters em i)" and "\<not> notified (runs em r)"
    and "run fresh_step em ops' em'"
  shows "(ch \<in> set (closed_waiters em') \<and> wait_result i em' \<noteq> None) \<or>
    (ch \<in> set (waiters em' i) \<and> \<not> notified (runs em' r))"
proof -
  have "waits ch i r em'"
    using waiting.run_inv [OF sound_run [OF assms(5,1)], of ch i r] assms(2-4) by (simp add: waits_def)
  then show ?thesis by (auto simp: waits_def wait_result_def)
qed

definition waiting_em :: em where
  "waiting_em = the (em_run_fresh (submitting 0 ''a'' @ dispatching @ starting 0 @ [WaitCheck ''a'', WaitRegister ''a'']) boot_em)"

lemma waiting_em_runs:
  "run fresh_step boot_em (submitting 0 ''a'' @ dispatching @ starting 0 @ [WaitCheck ''a'', WaitRegister ''a'']) waiting_em"
  "\<exists>em'. run fresh_step waiting_em (succeeding 0 @ finishing 0) em' \<and> runs em' 0 = RunDone"
proof -
  have "em_run_fresh (submitting 0 ''a'' @ dispatching @ starting 0 @ [WaitCheck ''a'', WaitRegister ''a'']) boot_em \<noteq> None"
    by code_simp
  then show "run fresh_step boot_em (submitting 0 ''a'' @ dispatching @ starting 0 @ [WaitCheck ''a'', WaitRegister ''a'']) waiting_em"
    unfolding em_run_fresh_iff [symmetric] waiting_em_def by auto
  have "map_option (\<lambda>em. runs em 0 = RunDone) (em_run_fresh (succeeding 0 @ finishing 0) waiting_em) = Some True"
    unfolding waiting_em_def by code_simp
  then show "\<exists>em'. run fresh_step waiting_em (succeeding 0 @ finishing 0) em' \<and> runs em' 0 = RunDone"
    unfolding em_run_fresh_iff [symmetric] by auto
qed

theorem waiter_is_woken_witness:
  "\<exists>em'. run fresh_step waiting_em (succeeding 0 @ finishing 0) em' \<and> 0 \<in> set (closed_waiters em') \<and> wait_result ''a'' em' \<noteq> None"
proof -
  obtain em' where em': "run fresh_step waiting_em (succeeding 0 @ finishing 0) em'" "runs em' 0 = RunDone"
    using waiting_em_runs(2) by blast
  have "executions waiting_em ''a'' = Some 0" "\<not> notified (runs waiting_em 0)" "0 \<in> set (waiters waiting_em ''a'')"
    unfolding waiting_em_def by code_simp+
  from waiter_is_woken [OF waiting_em_runs(1) [unfolded boot_em_def] this(1,3,2) em'(1)] em' show ?thesis by auto
qed

section \<open>Running to the end\<close>

text \<open>The send to an outgoing stream that nobody reads: the one place where a goroutine waits for its caller.\<close>

definition stream_blocked :: "em \<Rightarrow> nat \<Rightarrow> bool" where
  "stream_blocked em r \<longleftrightarrow> (\<exists>c x nxt. runs em r = RunStreamSend c x nxt \<and> 16 \<le> length (os_buffer (streams em ! c)))"

text \<open>A piece with which the goroutine goes on.\<close>

fun next_piece :: "em \<Rightarrow> nat \<Rightarrow> run_pc \<Rightarrow> em_op" where
  "next_piece em r RunDispatched = RunBegin 0 r"
| "next_piece em r RunBegun = RunArm r"
| "next_piece em r RunArmed = RunResolve 0 (if providers (em_registry em) (ref_of em r) = None then [] else [ref_of em r]) r"
| "next_piece em r (RunCall p) = PipelineCall 0 r"
| "next_piece em r (RunAttempt p k t) = AttemptTimesOut 0 r"
| "next_piece em r (RunDecide p k res err) = AttemptDecide 0 r"
| "next_piece em r (RunBackoff p k res err) = BackoffOver 0 r"
| "next_piece em r (RunAttempted res err) = PipelineReturn res err r"
| "next_piece em r (RunHandle res err) = HandleResult 0 0 r"
| "next_piece em r RunPublish = PublishOutcome r"
| "next_piece em r (RunRelease c) = ReleaseSlots r"
| "next_piece em r (RunNotify c) = NotifyWaiters r"
| "next_piece em r (RunPanic m) = Recover 0 r"
| "next_piece em r RunPanicRelease = ReleaseSlots r"
| "next_piece em r RunPanicNotify = NotifyWaiters r"
| "next_piece em r RunFatal = FatalLog r"
| "next_piece em r (RunStreamOpen c) = StreamOpens None r"
| "next_piece em r (RunStream c) = StreamEnds 0 r"
| "next_piece em r (RunStreamSend c x nxt) = StreamSends 0 r"
| "next_piece em r (RunStreamClose c) = StreamCloses r"
| "next_piece em r _ = LoopTurn"

lemma holder_has_slot:
  assumes "manager_ok em" and "phase_of (runs em r) = Holding"
  shows "0 < sem em"
proof -
  have o: "owned (view em)" and a: "accounted (view em)" using assms(1) by (simp_all add: manager_ok_def slots_ok_def)
  have "r < length (heap em)" using running_in_heap [OF o, of r] assms(2) by (cases "runs em r = RunNone") simp_all
  then have "r \<in> set (s_holders (view em))" using assms(2) by (simp add: s_holders_def view_submits)
  then have "0 < length (s_holders (view em))" by (cases "s_holders (view em)") simp_all
  then show ?thesis using a by (simp add: accounted_def view_submits)
qed

lemma next_piece_enabled:
  assumes m: "manager_ok em" and r: "runs em r \<notin> {RunNone, RunDone}" and b: "\<not> stream_blocked em r"
  shows "\<exists>em'. em_piece (next_piece em r (runs em r)) em = Some em'"
proof (cases "runs em r")
  case RunArmed
  then show ?thesis by (simp add: guarded_def listing_def)
next
  case (RunRelease c)
  then show ?thesis using holder_has_slot [OF m, of r] by (simp add: guarded_def)
next
  case RunPanicRelease
  then show ?thesis using holder_has_slot [OF m, of r] by (simp add: guarded_def)
next
  case (RunNotify c)
  then show ?thesis by (cases c) simp_all
next
  case (RunStreamSend c x nxt)
  then have "length (os_buffer (streams em ! c)) < 16" using b by (auto simp: stream_blocked_def)
  then show ?thesis using RunStreamSend by (simp add: stream_send_def Let_def)
qed (use r in \<open>simp_all add: guarded_def\<close>)

lemma next_piece_own:
  "pc \<notin> {RunNone, RunDone} \<Longrightarrow> actor (next_piece em r pc) = Some r \<and> \<not> receives (next_piece em r pc)"
  by (cases pc) simp_all

lemma exit_is_done:
  assumes "em_piece op em = Some em'" and "actor op = Some r" and "\<not> exited em" and "exited em'"
  shows "runs em' r = RunDone"
proof (cases op)
  case (FatalLog q)
  then show ?thesis using assms by auto
qed (use assms in \<open>auto simp: em_calls notifyWaiters_def Let_def signal_def set_run_def upd_def emit_def set_stream_def
      split: run_pc.splits option.splits if_splits list.splits prod.splits sum.splits stream_next.splits\<close>)

lemma runs_to_end:
  assumes "manager_ok em" and "runs em r \<noteq> RunNone" and "\<not> exited em \<or> runs em r = RunDone"
  shows "\<exists>ops em'. run fresh_step em ops em' \<and> (\<forall>op\<in>set ops. actor op = Some r) \<and> length ops \<le> steps_left (life_of em r) \<and>
    (runs em' r = RunDone \<or> stream_blocked em' r)"
  using assms
proof (induction "steps_left (life_of em r)" arbitrary: em rule: less_induct)
  case less
  show ?case
  proof (cases "runs em r = RunDone \<or> stream_blocked em r")
    case True
    then show ?thesis by (intro exI [of _ "[]"] exI [of _ em]) simp
  next
    case False
    let ?op = "next_piece em r (runs em r)"
    have pc: "runs em r \<notin> {RunNone, RunDone}" using False less.prems(2) by blast
    note own = next_piece_own [OF pc, of em r]
    obtain em1 where p: "em_piece ?op em = Some em1" using next_piece_enabled [OF less.prems(1) pc] False by blast
    have "fresh_op em ?op" using own by (auto simp: fresh_op_def split: em_op.split)
    then have st: "fresh_step em ?op em1" using p less.prems(3) False by (simp add: fresh_step_def em_step_def)
    have "owned (view em)" using less.prems(1) by (simp add: manager_ok_def slots_ok_def)
    then have r: "r < length (heap em)" using running_in_heap pc by blast
    have "life_step (life_of em r) ByRun (life_of em1 r)"
      using life_simulates [OF less.prems(1) st r] own by (simp add: who_of_def)
    then have dec: "steps_left (life_of em1 r) < steps_left (life_of em r)" and run1: "runs em1 r \<noteq> RunNone"
      using life_step_left(2) by (auto simp: life_of_def elim!: life_step.cases dest: own_step_pc)
    have "manager_ok em1" using manager.step_inv [OF less.prems(1) st] .
    moreover have "\<not> exited em1 \<or> runs em1 r = RunDone"
      using exit_is_done [OF p] own less.prems(3) False by blast
    ultimately obtain ops em' where ops: "run fresh_step em1 ops em'" "\<forall>op\<in>set ops. actor op = Some r"
      "length ops \<le> steps_left (life_of em1 r)" "runs em' r = RunDone \<or> stream_blocked em' r"
      using less.hyps [OF dec _ run1] by blast
    then show ?thesis
      using own dec run.run_cons [OF st ops(1)] by (intro exI [of _ "?op # ops"] exI [of _ em']) auto
  qed
qed



end
