(* ===== verification/Rt_Context.thy ===== *)
theory Rt_Context
  imports Priority_Class Go_Any Float64 "HOL-Library.AList"
begin

text \<open>
  \<open>core/context/context.go\<close> and \<open>core/context/session.go\<close>: the layers that the runtime keeps in a
  \<open>context.Context\<close>, the derivations that add them, the session store, cost budgets and the merge of
  two contexts.

  A context is the values that its chain of \<open>WithValue\<close> calls makes visible, by key, and its
  deadline.  What contexts share by pointer is in \<open>world\<close>: the cells of the budgets, the
  session states and the store.  A Go map that the code only copies, reads and measures is the list
  of its entries, keys distinct; the order of the list stands for the order of a range.  A nil
  \<open>Context\<close> is not a value of the model: the accessors' guards against it are left out.
\<close>

section \<open>Shared objects\<close>

type_synonym 'v entries = "(string \<times> 'v) list"

record session_entry =
  se_state :: nat
  se_lastAccess :: instant

record world =
  cells :: "float64 list"
  states :: "any entries list"
  sessions :: "string \<rightharpoonup> session_entry"
  expiry :: duration

text \<open>\<open>GetSessionStore\<close>: the store before its first use.\<close>

definition initial_world :: world where
  "initial_world = \<lparr>cells = [], states = [], sessions = Map.empty, expiry = 30 * 60 * Second\<rparr>"

subsection \<open>Cost budgets\<close>

record cost_budget =
  cb_Limit :: float64
  cb_spentBits :: "nat option"
  cb_Currency :: string

definition NewCostBudget :: "float64 \<Rightarrow> string \<Rightarrow> world \<Rightarrow> cost_budget \<times> world" where
  "NewCostBudget limit currency w =
     (\<lparr>cb_Limit = limit, cb_spentBits = Some (length (cells w)), cb_Currency = currency\<rparr>,
      w\<lparr>cells := cells w @ [0]\<rparr>)"

definition Spent :: "cost_budget \<Rightarrow> world \<Rightarrow> float64" where
  "Spent cb w = (case cb_spentBits cb of None \<Rightarrow> 0 | Some p \<Rightarrow> cells w ! p)"

text \<open>\<open>AddSpent\<close> without interference; the loop is taken apart in \<open>Cost_Budget\<close>.\<close>

definition AddSpent :: "float64 \<Rightarrow> cost_budget \<Rightarrow> world \<Rightarrow> world" where
  "AddSpent amount cb w =
     (case cb_spentBits cb of
        None \<Rightarrow> w
      | Some p \<Rightarrow> w\<lparr>cells := (cells w)[p := fadd (cells w ! p) amount]\<rparr>)"

definition TryReserve :: "float64 \<Rightarrow> cost_budget \<Rightarrow> world \<Rightarrow> bool" where
  "TryReserve amount cb w =
     (if cb_spentBits cb = None then True
      else if cb_Limit cb \<le> 0 then True
      else fadd (Spent cb w) amount \<le> cb_Limit cb)"

subsection \<open>Session states and their store\<close>

definition session_get :: "nat \<Rightarrow> string \<Rightarrow> world \<Rightarrow> any option" where
  "session_get s key w = map_of (states w ! s) key"

definition session_set :: "nat \<Rightarrow> string \<Rightarrow> any \<Rightarrow> world \<Rightarrow> world" where
  "session_set s key v w = w\<lparr>states := (states w)[s := AList.update key v (states w ! s)]\<rparr>"

definition session_delete :: "nat \<Rightarrow> string \<Rightarrow> world \<Rightarrow> world" where
  "session_delete s key w = w\<lparr>states := (states w)[s := AList.delete key (states w ! s)]\<rparr>"

text \<open>The loop that \<open>GetOrCreate\<close> and the collector share.\<close>

definition purge :: "instant \<Rightarrow> world \<Rightarrow> world" where
  "purge now w =
     w\<lparr>sessions := (\<lambda>i. case sessions w i of
         None \<Rightarrow> None
       | Some entry \<Rightarrow> if time_sub now (se_lastAccess entry) > expiry w then None else Some entry)\<rparr>"

definition GetOrCreate :: "instant \<Rightarrow> string \<Rightarrow> world \<Rightarrow> nat \<times> world" where
  "GetOrCreate now sessionID w =
     (let w = purge now w
      in case sessions w sessionID of
           Some entry \<Rightarrow> (se_state entry, w\<lparr>sessions := (sessions w)(sessionID \<mapsto> entry\<lparr>se_lastAccess := now\<rparr>)\<rparr>)
         | None \<Rightarrow>
             let s = length (states w)
             in (s, w\<lparr>states := states w @ [[]],
                     sessions := (sessions w)(sessionID \<mapsto> \<lparr>se_state = s, se_lastAccess = now\<rparr>)\<rparr>))"

definition SetExpiry :: "duration \<Rightarrow> world \<Rightarrow> world" where
  "SetExpiry d w = w\<lparr>expiry := d\<rparr>"

section \<open>Contexts\<close>

record runtime_layer =
  rt_InstanceID :: string
  rt_Version :: string

record session_layer =
  sl_SessionID :: string
  sl_UserID :: string
  sl_State :: nat

record user_layer =
  ul_UserID :: string
  ul_OrgID :: string
  ul_Claims :: "string entries"

text \<open>The zero \<open>time.Time\<close> is \<open>None\<close>.\<close>

record request_layer =
  rl_ExecutionID :: string
  rl_ParentExecutionID :: string
  rl_TraceID :: string
  rl_Deadline :: "instant option"
  rl_Priority :: priority_class
  rl_CostBudget :: "cost_budget option"
  rl_Attempt :: int
  rl_Metadata :: "string entries"

text \<open>What \<open>core/telemetry\<close> keeps in a context.\<close>

record span_context =
  sc_TraceID :: string
  sc_SpanID :: string
  sc_TraceFlags :: nat

text \<open>
  Keys of the type \<open>contextKey\<close> of this package and of \<open>core/execution\<close>, plain strings, and the
  keys of the sensitive keys and of the span, each a type of its own.
\<close>

datatype ctx_key = CtxKey string | ExecKey string | StrKey string | SensitiveKeysKey | SpanContextKey

datatype ctx_value =
    VRuntime runtime_layer
  | VSession session_layer
  | VUser user_layer
  | VRequest request_layer
  | VStr string
  | VFloat float64
  | VKeys "bool entries"
  | VSpan span_context

definition keyRuntime :: ctx_key where "keyRuntime = CtxKey ''runtime''"
definition keySession :: ctx_key where "keySession = CtxKey ''session''"
definition keyUser :: ctx_key where "keyUser = CtxKey ''user''"
definition keyRequest :: ctx_key where "keyRequest = CtxKey ''request''"
definition compatTraceID :: ctx_key where "compatTraceID = StrKey ''trace_id''"
definition compatSessionID :: ctx_key where "compatSessionID = StrKey ''session_id''"
definition compatUserID :: ctx_key where "compatUserID = StrKey ''user_id''"
definition compatExecutionID :: ctx_key where "compatExecutionID = StrKey ''execution_id''"

lemmas ctx_keys = keyRuntime_def keySession_def keyUser_def keyRequest_def compatTraceID_def
  compatSessionID_def compatUserID_def compatExecutionID_def

record ctx =
  vals :: "ctx_key \<rightharpoonup> ctx_value"
  deadline :: "instant option"

definition Background :: ctx where
  "Background = \<lparr>vals = Map.empty, deadline = None\<rparr>"

definition WithValue :: "ctx_key \<Rightarrow> ctx_value \<Rightarrow> ctx \<Rightarrow> ctx" where
  "WithValue k v c = c\<lparr>vals := (vals c)(k \<mapsto> v)\<rparr>"

text \<open>\<open>context.WithDeadline\<close>: the earlier of the parent's deadline and the new one.\<close>

definition WithDeadline :: "instant \<Rightarrow> ctx \<Rightarrow> ctx" where
  "WithDeadline d c = c\<lparr>deadline := Some (case deadline c of None \<Rightarrow> d | Some p \<Rightarrow> min p d)\<rparr>"

subsection \<open>Accessors\<close>

definition getRequestLayer :: "ctx \<Rightarrow> request_layer option" where
  "getRequestLayer c = (case vals c keyRequest of Some (VRequest r) \<Rightarrow> Some r | _ \<Rightarrow> None)"

definition GetRuntime :: "ctx \<Rightarrow> runtime_layer option" where
  "GetRuntime c = (case vals c keyRuntime of Some (VRuntime r) \<Rightarrow> Some r | _ \<Rightarrow> None)"

definition session_layer_of :: "ctx \<Rightarrow> session_layer option" where
  "session_layer_of c = (case vals c keySession of Some (VSession s) \<Rightarrow> Some s | _ \<Rightarrow> None)"

definition GetUserLayer :: "ctx \<Rightarrow> user_layer option" where
  "GetUserLayer c = (case vals c keyUser of Some (VUser u) \<Rightarrow> Some u | _ \<Rightarrow> None)"

definition str_value :: "ctx_key \<Rightarrow> ctx \<Rightarrow> string" where
  "str_value k c = (case vals c k of Some (VStr s) \<Rightarrow> s | _ \<Rightarrow> [])"

definition GetSessionID :: "ctx \<Rightarrow> string" where
  "GetSessionID c = (case session_layer_of c of Some sl \<Rightarrow> sl_SessionID sl | None \<Rightarrow> str_value (StrKey ''session_id'') c)"

definition GetUserID :: "ctx \<Rightarrow> string" where
  "GetUserID c =
     (case GetUserLayer c of
        Some ul \<Rightarrow> ul_UserID ul
      | None \<Rightarrow>
          (case session_layer_of c of
             Some sl \<Rightarrow> sl_UserID sl
           | None \<Rightarrow> str_value (StrKey ''user_id'') c))"

definition GetTraceID :: "ctx \<Rightarrow> string" where
  "GetTraceID c = (case getRequestLayer c of Some r \<Rightarrow> rl_TraceID r | None \<Rightarrow> str_value (StrKey ''trace_id'') c)"

definition GetCostBudget :: "ctx \<Rightarrow> cost_budget option" where
  "GetCostBudget c = (case getRequestLayer c of Some r \<Rightarrow> rl_CostBudget r | None \<Rightarrow> None)"

definition GetMetadata :: "string \<Rightarrow> ctx \<Rightarrow> string option" where
  "GetMetadata key c = (case getRequestLayer c of Some r \<Rightarrow> map_of (rl_Metadata r) key | None \<Rightarrow> None)"

definition GetAttemptNumber :: "ctx \<Rightarrow> int" where
  "GetAttemptNumber c = (case getRequestLayer c of Some r \<Rightarrow> rl_Attempt r | None \<Rightarrow> 1)"

definition GetExecutionID :: "ctx \<Rightarrow> string" where
  "GetExecutionID c = (case getRequestLayer c of Some r \<Rightarrow> rl_ExecutionID r | None \<Rightarrow> str_value (StrKey ''execution_id'') c)"

definition GetParentExecutionID :: "ctx \<Rightarrow> string" where
  "GetParentExecutionID c = (case getRequestLayer c of Some r \<Rightarrow> rl_ParentExecutionID r | None \<Rightarrow> [])"

definition GetPriority :: "ctx \<Rightarrow> priority_class" where
  "GetPriority c = (case getRequestLayer c of Some r \<Rightarrow> rl_Priority r | None \<Rightarrow> PriorityClassNormal)"

definition GetSession :: "ctx \<Rightarrow> nat option" where
  "GetSession c = map_option sl_State (session_layer_of c)"

lemmas accessor_defs = getRequestLayer_def GetRuntime_def session_layer_of_def GetUserLayer_def str_value_def
  GetSessionID_def GetUserID_def GetTraceID_def GetCostBudget_def GetMetadata_def GetAttemptNumber_def
  GetExecutionID_def GetParentExecutionID_def GetPriority_def GetSession_def

subsection \<open>Derivations\<close>

text \<open>\<open>for k, v := range src { dst[k] = v }\<close>.\<close>

definition copy_into :: "'v entries \<Rightarrow> 'v entries \<Rightarrow> 'v entries" where
  "copy_into src dst = fold (\<lambda>(k, v). AList.update k v) src dst"

definition NewRootContext :: "string \<Rightarrow> string \<Rightarrow> ctx" where
  "NewRootContext instanceID version =
     WithValue keyRuntime (VRuntime \<lparr>rt_InstanceID = instanceID, rt_Version = version\<rparr>) Background"

text \<open>\<open>Manager\<close>, which \<open>FromProto\<close> takes.\<close>

record context_manager =
  cm_instanceID :: string
  cm_version :: string

definition NewManager :: "string \<Rightarrow> string \<Rightarrow> context_manager" where
  "NewManager instanceID version = \<lparr>cm_instanceID = instanceID, cm_version = version\<rparr>"

definition ManagerNewRootContext :: "context_manager \<Rightarrow> ctx" where
  "ManagerNewRootContext m = NewRootContext (cm_instanceID m) (cm_version m)"

lemma ManagerNewRootContext_New [simp]: "ManagerNewRootContext (NewManager i v) = NewRootContext i v"
  by (simp add: ManagerNewRootContext_def NewManager_def)

definition WithSession :: "instant \<Rightarrow> string \<Rightarrow> string \<Rightarrow> ctx \<Rightarrow> world \<Rightarrow> ctx \<times> world" where
  "WithSession now sessionID userID c w =
     (let (s, w) = GetOrCreate now sessionID w;
          c = WithValue keySession (VSession \<lparr>sl_SessionID = sessionID, sl_UserID = userID, sl_State = s\<rparr>) c;
          c = WithValue compatSessionID (VStr sessionID) c;
          c = (if userID \<noteq> [] then WithValue compatUserID (VStr userID) c else c)
      in (c, w))"

definition filteredClaims :: "string entries \<Rightarrow> string entries" where
  "filteredClaims claims =
     fold (\<lambda>(k, v) m. if k \<noteq> ''token'' \<and> k \<noteq> ''password'' \<and> k \<noteq> ''secret'' \<and> k \<noteq> ''jwt'' then AList.update k v m else m)
       claims []"

definition WithUser :: "string \<Rightarrow> string \<Rightarrow> string entries \<Rightarrow> ctx \<Rightarrow> ctx" where
  "WithUser userID orgID claims c =
     WithValue compatUserID (VStr userID)
       (WithValue keyUser (VUser \<lparr>ul_UserID = userID, ul_OrgID = orgID, ul_Claims = filteredClaims claims\<rparr>) c)"

text \<open>\<open>now\<close> is the reading of the clock; cancellation is not part of the model's context.\<close>

definition WithExecution :: "instant \<Rightarrow> string \<Rightarrow> duration \<Rightarrow> priority_class \<Rightarrow> ctx \<Rightarrow> ctx" where
  "WithExecution now executionID timeout priority c =
     (let requestedDeadline = (if timeout > 0 then Some (now + timeout) else None);
          c = (case requestedDeadline of Some d \<Rightarrow> WithDeadline d c | None \<Rightarrow> c);
          traceID = GetTraceID c;
          traceID = (if traceID = [] then ''tr-'' @ executionID else traceID);
          req = \<lparr>rl_ExecutionID = executionID, rl_ParentExecutionID = GetExecutionID c, rl_TraceID = traceID,
                 rl_Deadline = requestedDeadline, rl_Priority = priority, rl_CostBudget = None,
                 rl_Attempt = 1, rl_Metadata = []\<rparr>;
          req = (case getRequestLayer c of
                   None \<Rightarrow> req
                 | Some parentReq \<Rightarrow>
                     req\<lparr>rl_CostBudget := rl_CostBudget parentReq,
                         rl_Metadata := copy_into (rl_Metadata parentReq) (rl_Metadata req)\<rparr>);
          c = WithValue keyRequest (VRequest req) c;
          c = WithValue compatTraceID (VStr traceID) c
      in WithValue compatExecutionID (VStr executionID) c)"

definition WithChildExecution :: "instant \<Rightarrow> string \<Rightarrow> duration option \<Rightarrow> ctx \<Rightarrow> ctx" where
  "WithChildExecution now childExecutionID timeoutOverride c =
     (let childDeadline =
            (case timeoutOverride of
               Some t \<Rightarrow>
                 (case deadline c of
                    Some pDeadline \<Rightarrow> Some (if pDeadline < now + t then pDeadline else now + t)
                  | None \<Rightarrow> Some (now + t))
             | None \<Rightarrow> deadline c);
          c = (case childDeadline of Some d \<Rightarrow> WithDeadline d c | None \<Rightarrow> c);
          parentExecID = GetExecutionID c;
          req = \<lparr>rl_ExecutionID = childExecutionID, rl_ParentExecutionID = parentExecID, rl_TraceID = GetTraceID c,
                 rl_Deadline = childDeadline, rl_Priority = [], rl_CostBudget = None, rl_Attempt = 1, rl_Metadata = []\<rparr>;
          req = (case getRequestLayer c of
                   None \<Rightarrow> req
                 | Some parentReq \<Rightarrow>
                     req\<lparr>rl_Priority := rl_Priority parentReq, rl_CostBudget := rl_CostBudget parentReq,
                         rl_Metadata := copy_into (rl_Metadata parentReq) (rl_Metadata req)\<rparr>);
          c = WithValue keyRequest (VRequest req) c
      in WithValue compatExecutionID (VStr childExecutionID) c)"

definition WithAttempt :: "int \<Rightarrow> ctx \<Rightarrow> ctx" where
  "WithAttempt attemptNumber c =
     (case getRequestLayer c of
        None \<Rightarrow> c
      | Some parentReq \<Rightarrow>
          WithValue keyRequest
            (VRequest (parentReq\<lparr>rl_Attempt := attemptNumber, rl_Metadata := copy_into (rl_Metadata parentReq) []\<rparr>)) c)"

definition metadata_size :: "string entries \<Rightarrow> int" where
  "metadata_size m = (\<Sum>(k, v)\<leftarrow>m. int (length k) + int (length v))"

text \<open>A request layer of zero values but for its metadata map.\<close>

definition empty_request :: request_layer where
  "empty_request = \<lparr>rl_ExecutionID = [], rl_ParentExecutionID = [], rl_TraceID = [], rl_Deadline = None,
     rl_Priority = [], rl_CostBudget = None, rl_Attempt = 0, rl_Metadata = []\<rparr>"

text \<open>The new context and the text of the error, the old context beside an error.\<close>

definition WithMetadata :: "string \<Rightarrow> string \<Rightarrow> ctx \<Rightarrow> ctx \<times> string option" where
  "WithMetadata key value c =
     (let parentReq = getRequestLayer c;
          currentSize = (case parentReq of None \<Rightarrow> 0 | Some p \<Rightarrow> metadata_size (rl_Metadata p));
          newEntrySize = int (length key) + int (length value);
          currentSize = (case parentReq of
                           None \<Rightarrow> currentSize
                         | Some p \<Rightarrow>
                             (case map_of (rl_Metadata p) key of
                                None \<Rightarrow> currentSize
                              | Some val \<Rightarrow> currentSize - (int (length key) + int (length val))))
      in if currentSize + newEntrySize > 4096 then (c, Some ''metadata size limit exceeded'')
         else
           let req = (case parentReq of
                        None \<Rightarrow> empty_request
                      | Some p \<Rightarrow> p\<lparr>rl_Metadata := copy_into (rl_Metadata p) []\<rparr>);
               req = req\<lparr>rl_Metadata := AList.update key value (rl_Metadata req)\<rparr>
           in (WithValue keyRequest (VRequest req) c, None))"

definition WithCostBudget :: "cost_budget \<Rightarrow> ctx \<Rightarrow> ctx" where
  "WithCostBudget budget c =
     (let req = (case getRequestLayer c of
                   None \<Rightarrow> empty_request
                 | Some p \<Rightarrow> p\<lparr>rl_CostBudget := None, rl_Metadata := copy_into (rl_Metadata p) []\<rparr>)
      in WithValue keyRequest (VRequest (req\<lparr>rl_CostBudget := Some budget\<rparr>)) c)"

definition sensitive_keys :: "ctx \<Rightarrow> bool entries" where
  "sensitive_keys c = (case vals c SensitiveKeysKey of Some (VKeys m) \<Rightarrow> m | _ \<Rightarrow> [])"

definition WithSensitiveKey :: "string \<Rightarrow> ctx \<Rightarrow> ctx" where
  "WithSensitiveKey key c =
     WithValue SensitiveKeysKey (VKeys (AList.update key True (copy_into (sensitive_keys c) []))) c"

definition IsSensitiveKey :: "string \<Rightarrow> ctx \<Rightarrow> bool" where
  "IsSensitiveKey key c = (map_of (sensitive_keys c) key = Some True)"

definition WithSensitiveVariable :: "string \<Rightarrow> any \<Rightarrow> ctx \<Rightarrow> ctx" where
  "WithSensitiveVariable key value c = WithSensitiveKey key (fst (WithMetadata key (show_any value) c))"

section \<open>Merging\<close>

datatype conflict_strategy = OverlayWins | BaseWins | ErrorOnConflict

definition ErrCrossRuntimeMerge :: string where
  "ErrCrossRuntimeMerge = ''cross-runtime merge rejected''"

text \<open>The keys are read before the loop; the values are read and written one by one.\<close>

fun merge_session_loop :: "string list \<Rightarrow> nat \<Rightarrow> nat \<Rightarrow> conflict_strategy \<Rightarrow> world \<Rightarrow> string option \<times> world" where
  "merge_session_loop [] baseState overlayState rules w = (None, w)"
| "merge_session_loop (k # keys) baseState overlayState rules w =
     (let oVal = (case session_get overlayState k w of Some v \<Rightarrow> v | None \<Rightarrow> ANil)
      in if session_get baseState k w \<noteq> None then
           (case rules of
              ErrorOnConflict \<Rightarrow> (Some (''conflict on session key: '' @ k), w)
            | OverlayWins \<Rightarrow> merge_session_loop keys baseState overlayState rules (session_set baseState k oVal w)
            | BaseWins \<Rightarrow> merge_session_loop keys baseState overlayState rules w)
         else merge_session_loop keys baseState overlayState rules (session_set baseState k oVal w))"

definition mergeSessionKeys :: "nat \<Rightarrow> nat \<Rightarrow> conflict_strategy \<Rightarrow> world \<Rightarrow> string option \<times> world" where
  "mergeSessionKeys baseState overlayState rules w =
     merge_session_loop (map fst (states w ! overlayState)) baseState overlayState rules w"

definition mergeSession :: "ctx \<Rightarrow> ctx \<Rightarrow> ctx \<Rightarrow> conflict_strategy \<Rightarrow> world \<Rightarrow> (string + ctx) \<times> world" where
  "mergeSession mergedCtx base overlay rules w =
     (case session_layer_of overlay of
        None \<Rightarrow> (Inr mergedCtx, w)
      | Some overlaySL \<Rightarrow>
          (case session_layer_of base of
             None \<Rightarrow>
               (Inr (WithValue compatUserID (VStr (sl_UserID overlaySL))
                  (WithValue compatSessionID (VStr (sl_SessionID overlaySL))
                    (WithValue keySession (VSession overlaySL) mergedCtx))), w)
           | Some baseSL \<Rightarrow>
               (case mergeSessionKeys (sl_State baseSL) (sl_State overlaySL) rules w of
                  (Some err, w) \<Rightarrow> (Inl err, w)
                | (None, w) \<Rightarrow> (Inr mergedCtx, w))))"

definition mergeUser :: "ctx \<Rightarrow> ctx \<Rightarrow> ctx \<Rightarrow> conflict_strategy \<Rightarrow> string + ctx" where
  "mergeUser mergedCtx base overlay rules =
     (case GetUserLayer overlay of
        None \<Rightarrow> Inr mergedCtx
      | Some oUl \<Rightarrow>
          (let put = (\<lambda>ul. Inr (WithValue compatUserID (VStr (ul_UserID ul)) (WithValue keyUser (VUser ul) mergedCtx)))
           in case GetUserLayer base of
                None \<Rightarrow> put oUl
              | Some bUl \<Rightarrow>
                  (case rules of
                     ErrorOnConflict \<Rightarrow> Inl ''conflict on user layer''
                   | OverlayWins \<Rightarrow> put oUl
                   | BaseWins \<Rightarrow> put bUl)))"

definition applyOverlayFields :: "request_layer \<Rightarrow> request_layer \<Rightarrow> request_layer" where
  "applyOverlayFields mergedReq o' =
     mergedReq\<lparr>
       rl_ExecutionID := (if rl_ExecutionID o' \<noteq> [] then rl_ExecutionID o' else rl_ExecutionID mergedReq),
       rl_ParentExecutionID := (if rl_ParentExecutionID o' \<noteq> [] then rl_ParentExecutionID o' else rl_ParentExecutionID mergedReq),
       rl_TraceID := (if rl_TraceID o' \<noteq> [] then rl_TraceID o' else rl_TraceID mergedReq),
       rl_Deadline := (if rl_Deadline o' \<noteq> None then rl_Deadline o' else rl_Deadline mergedReq),
       rl_Priority := (if rl_Priority o' \<noteq> [] then rl_Priority o' else rl_Priority mergedReq),
       rl_CostBudget := (if rl_CostBudget o' \<noteq> None then rl_CostBudget o' else rl_CostBudget mergedReq),
       rl_Attempt := (if rl_Attempt o' > 0 then rl_Attempt o' else rl_Attempt mergedReq)\<rparr>"

definition mergeRequestFields :: "request_layer \<Rightarrow> request_layer \<Rightarrow> request_layer \<Rightarrow> conflict_strategy \<Rightarrow> string + request_layer" where
  "mergeRequestFields mergedReq baseReq overlayReq rules =
     (case rules of
        ErrorOnConflict \<Rightarrow>
          if rl_ExecutionID overlayReq \<noteq> [] \<and> rl_ExecutionID overlayReq \<noteq> rl_ExecutionID baseReq
          then Inl ''conflict on execution_id'' else Inr mergedReq
      | OverlayWins \<Rightarrow> Inr (applyOverlayFields mergedReq overlayReq)
      | BaseWins \<Rightarrow> Inr mergedReq)"

fun merge_metadata :: "conflict_strategy \<Rightarrow> string entries \<Rightarrow> string entries \<Rightarrow> string + string entries" where
  "merge_metadata rules [] m = Inr m"
| "merge_metadata rules ((k, v) # ov) m =
     (if map_of m k \<noteq> None then
        (case rules of
           ErrorOnConflict \<Rightarrow> Inl (''conflict on metadata key: '' @ k)
         | OverlayWins \<Rightarrow> merge_metadata rules ov (AList.update k v m)
         | BaseWins \<Rightarrow> merge_metadata rules ov m)
      else merge_metadata rules ov (AList.update k v m))"

definition mergeRequestMetadata :: "request_layer \<Rightarrow> request_layer \<Rightarrow> request_layer \<Rightarrow> conflict_strategy \<Rightarrow> string + request_layer" where
  "mergeRequestMetadata mergedReq baseReq overlayReq rules =
     (case merge_metadata rules (rl_Metadata overlayReq) (copy_into (rl_Metadata baseReq) (rl_Metadata mergedReq)) of
        Inl err \<Rightarrow> Inl err
      | Inr m \<Rightarrow> Inr (mergedReq\<lparr>rl_Metadata := m\<rparr>))"

definition with_request :: "request_layer \<Rightarrow> ctx \<Rightarrow> ctx" where
  "with_request r c =
     WithValue compatExecutionID (VStr (rl_ExecutionID r))
       (WithValue compatTraceID (VStr (rl_TraceID r)) (WithValue keyRequest (VRequest r) c))"

definition mergeRequest :: "ctx \<Rightarrow> ctx \<Rightarrow> ctx \<Rightarrow> conflict_strategy \<Rightarrow> string + ctx" where
  "mergeRequest mergedCtx base overlay rules =
     (case getRequestLayer overlay of
        None \<Rightarrow> Inr mergedCtx
      | Some overlayReq \<Rightarrow>
          (case getRequestLayer base of
             None \<Rightarrow> Inr (with_request overlayReq mergedCtx)
           | Some baseReq \<Rightarrow>
               (case mergeRequestFields (baseReq\<lparr>rl_Metadata := []\<rparr>) baseReq overlayReq rules of
                  Inl err \<Rightarrow> Inl err
                | Inr mergedReq \<Rightarrow>
                    (case mergeRequestMetadata mergedReq baseReq overlayReq rules of
                       Inl err \<Rightarrow> Inl err
                     | Inr mergedReq \<Rightarrow> Inr (with_request mergedReq mergedCtx)))))"

definition Merge :: "ctx \<Rightarrow> ctx \<Rightarrow> conflict_strategy \<Rightarrow> world \<Rightarrow> (string + ctx) \<times> world" where
  "Merge base overlay rules w =
     (let cross = (case (GetRuntime base, GetRuntime overlay) of
                     (Some b, Some ov) \<Rightarrow> rt_InstanceID b \<noteq> rt_InstanceID ov
                   | _ \<Rightarrow> False)
      in if cross then (Inl ErrCrossRuntimeMerge, w)
         else
           case mergeSession base base overlay rules w of
             (Inl err, w) \<Rightarrow> (Inl err, w)
           | (Inr mergedCtx, w) \<Rightarrow>
               (case mergeUser mergedCtx base overlay rules of
                  Inl err \<Rightarrow> (Inl err, w)
                | Inr mergedCtx \<Rightarrow> (mergeRequest mergedCtx base overlay rules, w)))"

end
