(* ===== verification/Context_Laws.thy ===== *)
theory Context_Laws
  imports Rt_Context Step_Machine
begin

text \<open>
  What the derivations, the merge and the session store of \<open>Rt_Context\<close> guarantee: the bound on
  the metadata of a context, the inheritance of a child execution, what a merge keeps of both
  sides, and the isolation of sessions.
\<close>

section \<open>Maps as lists of entries\<close>

named_theorems ctx_simps \<open>what an accessor reads after a derivation\<close>

lemma update_new: "k \<notin> fst ` set m \<Longrightarrow> AList.update k v m = m @ [(k, v)]"
  by (induction m) auto

lemma copy_into_Cons [simp]: "copy_into ((k, v) # src) dst = copy_into src (AList.update k v dst)"
  and copy_into_Nil [simp]: "copy_into [] dst = dst"
  by (simp_all add: copy_into_def)

lemma copy_into_append: "distinct (map fst (dst @ src)) \<Longrightarrow> copy_into src dst = dst @ src"
proof (induction src arbitrary: dst)
  case (Cons kv src)
  then show ?case by (cases kv) (auto simp: update_new)
qed simp

lemma copy_into_empty: "distinct (map fst m) \<Longrightarrow> copy_into m [] = m"
  using copy_into_append [of "[]" m] by simp

lemma metadata_size_simps [simp]:
  "metadata_size [] = 0"
  "metadata_size ((k, v) # m) = int (length k) + int (length v) + metadata_size m"
  "metadata_size (m @ m') = metadata_size m + metadata_size m'"
  by (simp_all add: metadata_size_def)

lemma metadata_size_nonneg [simp]: "0 \<le> metadata_size m"
  by (induction m) auto

lemma metadata_size_update:
  "metadata_size (AList.update k v m) =
     metadata_size m + int (length k) + int (length v)
       - (case map_of m k of None \<Rightarrow> 0 | Some old \<Rightarrow> int (length k) + int (length old))"
proof (induction m)
  case (Cons kv m)
  then show ?case by (cases kv) auto
qed simp

section \<open>Reading a derived context\<close>

lemma vals_WithValue [simp]: "vals (WithValue k v c) k' = (if k' = k then Some v else vals c k')"
  and deadline_WithValue [simp]: "deadline (WithValue k v c) = deadline c"
  and vals_WithDeadline [simp]: "vals (WithDeadline d c) = vals c"
  and deadline_WithDeadline [simp]:
    "deadline (WithDeadline d c) = Some (case deadline c of None \<Rightarrow> d | Some p \<Rightarrow> min p d)"
  by (simp_all add: WithValue_def WithDeadline_def)

lemma layers_WithValue [ctx_simps]:
  "getRequestLayer (WithValue k v c) =
     (if k = keyRequest then case v of VRequest r \<Rightarrow> Some r | _ \<Rightarrow> None else getRequestLayer c)"
  "session_layer_of (WithValue k v c) =
     (if k = keySession then case v of VSession r \<Rightarrow> Some r | _ \<Rightarrow> None else session_layer_of c)"
  "GetUserLayer (WithValue k v c) =
     (if k = keyUser then case v of VUser r \<Rightarrow> Some r | _ \<Rightarrow> None else GetUserLayer c)"
  "GetRuntime (WithValue k v c) =
     (if k = keyRuntime then case v of VRuntime r \<Rightarrow> Some r | _ \<Rightarrow> None else GetRuntime c)"
  "str_value k' (WithValue k v c) =
     (if k' = k then case v of VStr s \<Rightarrow> s | _ \<Rightarrow> [] else str_value k' c)"
  by (auto simp: accessor_defs split: ctx_value.splits)

lemma layers_WithDeadline [ctx_simps]:
  "getRequestLayer (WithDeadline d c) = getRequestLayer c"
  "session_layer_of (WithDeadline d c) = session_layer_of c"
  "GetUserLayer (WithDeadline d c) = GetUserLayer c"
  "GetRuntime (WithDeadline d c) = GetRuntime c"
  "str_value k (WithDeadline d c) = str_value k c"
  by (simp_all add: accessor_defs)

lemma layers_deadline_case [ctx_simps]:
  "getRequestLayer (case x of None \<Rightarrow> c | Some d \<Rightarrow> WithDeadline d c) = getRequestLayer c"
  "session_layer_of (case x of None \<Rightarrow> c | Some d \<Rightarrow> WithDeadline d c) = session_layer_of c"
  "GetUserLayer (case x of None \<Rightarrow> c | Some d \<Rightarrow> WithDeadline d c) = GetUserLayer c"
  "GetRuntime (case x of None \<Rightarrow> c | Some d \<Rightarrow> WithDeadline d c) = GetRuntime c"
  "str_value k (case x of None \<Rightarrow> c | Some d \<Rightarrow> WithDeadline d c) = str_value k c"
  by (simp_all add: ctx_simps split: option.split)

lemma ctx_key_neq [ctx_simps]:
  "keyRequest \<noteq> keySession" "keyRequest \<noteq> keyUser" "keyRequest \<noteq> keyRuntime" "keySession \<noteq> keyUser"
  "keySession \<noteq> keyRuntime" "keyUser \<noteq> keyRuntime" "keySession \<noteq> keyRequest" "keyUser \<noteq> keyRequest"
  "keyRuntime \<noteq> keyRequest" "keyUser \<noteq> keySession" "keyRuntime \<noteq> keySession" "keyRuntime \<noteq> keyUser"
  "StrKey s \<noteq> keyRequest" "StrKey s \<noteq> keySession" "StrKey s \<noteq> keyUser" "StrKey s \<noteq> keyRuntime"
  "keyRequest \<noteq> StrKey s" "keySession \<noteq> StrKey s" "keyUser \<noteq> StrKey s" "keyRuntime \<noteq> StrKey s"
  "SensitiveKeysKey \<noteq> keyRequest" "SensitiveKeysKey \<noteq> keySession" "SensitiveKeysKey \<noteq> keyUser"
  "SensitiveKeysKey \<noteq> keyRuntime"
  by (simp_all add: ctx_keys)

lemmas compat_keys [ctx_simps] = compatTraceID_def compatSessionID_def compatUserID_def compatExecutionID_def

text \<open>The request layer after each derivation.\<close>

lemma request_simps [ctx_simps]:
  "getRequestLayer (NewRootContext i v) = None"
  "getRequestLayer (WithUser u org cl c) = getRequestLayer c"
  "getRequestLayer (fst (WithSession now sid u c w)) = getRequestLayer c"
  "getRequestLayer (WithSensitiveKey k c) = getRequestLayer c"
  "getRequestLayer (WithAttempt n c) =
     map_option (\<lambda>r. r\<lparr>rl_Attempt := n, rl_Metadata := copy_into (rl_Metadata r) []\<rparr>) (getRequestLayer c)"
  by (auto simp: NewRootContext_def Background_def WithUser_def WithSession_def WithSensitiveKey_def WithAttempt_def
      Let_def ctx_simps split: prod.split option.split) (auto simp: accessor_defs ctx_keys)

lemma request_WithExecution [ctx_simps]:
  "getRequestLayer (WithExecution now i d p c) = Some
     \<lparr>rl_ExecutionID = i, rl_ParentExecutionID = GetExecutionID c,
      rl_TraceID = (if GetTraceID c = [] then ''tr-'' @ i else GetTraceID c),
      rl_Deadline = (if d > 0 then Some (now + d) else None), rl_Priority = p,
      rl_CostBudget = GetCostBudget c, rl_Attempt = 1,
      rl_Metadata = (case getRequestLayer c of None \<Rightarrow> [] | Some r \<Rightarrow> copy_into (rl_Metadata r) [])\<rparr>"
  by (cases "getRequestLayer c")
    (simp_all add: WithExecution_def Let_def ctx_simps GetCostBudget_def GetTraceID_def GetExecutionID_def split: option.split)

definition child_deadline :: "instant \<Rightarrow> duration option \<Rightarrow> instant option \<Rightarrow> instant option" where
  "child_deadline now t parent =
     (case (t, parent) of
        (None, _) \<Rightarrow> parent
      | (Some t, None) \<Rightarrow> Some (now + t)
      | (Some t, Some p) \<Rightarrow> Some (min p (now + t)))"

lemma request_WithChildExecution [ctx_simps]:
  "getRequestLayer (WithChildExecution now i t c) = Some
     \<lparr>rl_ExecutionID = i, rl_ParentExecutionID = GetExecutionID c, rl_TraceID = GetTraceID c,
      rl_Deadline = child_deadline now t (deadline c),
      rl_Priority = (case getRequestLayer c of None \<Rightarrow> [] | Some r \<Rightarrow> rl_Priority r),
      rl_CostBudget = GetCostBudget c, rl_Attempt = 1,
      rl_Metadata = (case getRequestLayer c of None \<Rightarrow> [] | Some r \<Rightarrow> copy_into (rl_Metadata r) [])\<rparr>"
  by (cases "getRequestLayer c")
    (auto simp: WithChildExecution_def Let_def ctx_simps GetCostBudget_def GetTraceID_def GetExecutionID_def
      child_deadline_def min_def split: option.split)

lemma deadline_WithChildExecution [ctx_simps]:
  "deadline (WithChildExecution now i t c) = child_deadline now t (deadline c)"
  by (auto simp: WithChildExecution_def Let_def child_deadline_def min_def split: option.split)

section \<open>The bound on metadata\<close>

definition request_ok :: "request_layer \<Rightarrow> bool" where
  "request_ok r \<longleftrightarrow> distinct (map fst (rl_Metadata r)) \<and> metadata_size (rl_Metadata r) \<le> 4096"

definition ctx_ok :: "ctx \<Rightarrow> bool" where
  "ctx_ok c \<longleftrightarrow> (case getRequestLayer c of None \<Rightarrow> True | Some r \<Rightarrow> request_ok r)"

lemma ctx_okI: "(\<And>r. getRequestLayer c = Some r \<Longrightarrow> request_ok r) \<Longrightarrow> ctx_ok c"
  by (auto simp: ctx_ok_def split: option.split)

lemma ctx_okD: "ctx_ok c \<Longrightarrow> getRequestLayer c = Some r \<Longrightarrow> request_ok r"
  by (simp add: ctx_ok_def)

lemma request_ok_fields [simp]:
  "request_ok (r\<lparr>rl_Attempt := n, rl_Metadata := m\<rparr>) = request_ok (r\<lparr>rl_Metadata := m\<rparr>)"
  "request_ok (r\<lparr>rl_CostBudget := b, rl_Metadata := m\<rparr>) = request_ok (r\<lparr>rl_Metadata := m\<rparr>)"
  "request_ok (r\<lparr>rl_CostBudget := b\<rparr>) = request_ok r"
  "request_ok empty_request"
  by (simp_all add: request_ok_def empty_request_def)

lemma request_ok_copy [simp]: "request_ok r \<Longrightarrow> r\<lparr>rl_Metadata := copy_into (rl_Metadata r) []\<rparr> = r"
  by (simp add: request_ok_def copy_into_empty)

text \<open>What \<open>WithMetadata\<close> does to a context within the bound.\<close>

lemma WithMetadata_cases:
  fixes k v :: string
  assumes "ctx_ok c"
  defines "r \<equiv> case getRequestLayer c of None \<Rightarrow> empty_request | Some r \<Rightarrow> r"
  defines "m \<equiv> AList.update k v (rl_Metadata r)"
  shows "WithMetadata k v c =
     (if metadata_size m > 4096 then (c, Some ''metadata size limit exceeded'')
      else (WithValue keyRequest (VRequest (r\<lparr>rl_Metadata := m\<rparr>)) c, None))"
proof (cases "getRequestLayer c")
  case None
  then show ?thesis by (simp add: WithMetadata_def r_def m_def Let_def empty_request_def)
next
  case (Some r0)
  with assms(1) have "request_ok r0" by (simp add: ctx_ok_def)
  then have "copy_into (rl_Metadata r0) [] = rl_Metadata r0" by (simp add: request_ok_def copy_into_empty)
  then show ?thesis
    using Some by (auto simp: WithMetadata_def r_def m_def Let_def metadata_size_update split: option.split)
qed

lemma ctx_ok_WithMetadata: "ctx_ok c \<Longrightarrow> ctx_ok (fst (WithMetadata k v c))"
  by (auto simp: WithMetadata_cases ctx_ok_def ctx_simps request_ok_def distinct_update empty_request_def
      split: option.splits)

datatype derivation =
    DSession instant string string
  | DUser string string "string entries"
  | DExecution instant string duration priority_class
  | DChild instant string "duration option"
  | DAttempt int
  | DMetadata string string
  | DBudget cost_budget
  | DSensitiveKey string
  | DSensitiveVariable string any

fun derive :: "derivation \<Rightarrow> ctx \<times> world \<Rightarrow> ctx \<times> world" where
  "derive (DSession now sessionID userID) (c, w) = WithSession now sessionID userID c w"
| "derive (DUser userID orgID claims) (c, w) = (WithUser userID orgID claims c, w)"
| "derive (DExecution now i timeout p) (c, w) = (WithExecution now i timeout p c, w)"
| "derive (DChild now i t) (c, w) = (WithChildExecution now i t c, w)"
| "derive (DAttempt n) (c, w) = (WithAttempt n c, w)"
| "derive (DMetadata k v) (c, w) = (fst (WithMetadata k v c), w)"
| "derive (DBudget b) (c, w) = (WithCostBudget b c, w)"
| "derive (DSensitiveKey k) (c, w) = (WithSensitiveKey k c, w)"
| "derive (DSensitiveVariable k v) (c, w) = (WithSensitiveVariable k v c, w)"

lemma ctx_ok_derive: "ctx_ok (fst cw) \<Longrightarrow> ctx_ok (fst (derive d cw))"
proof (cases cw)
  case [simp]: (Pair c w)
  assume ok: "ctx_ok (fst cw)"
  show ?thesis
  proof (cases d)
    case (DChild now i t)
    then show ?thesis
      using ok by (auto simp: ctx_ok_def ctx_simps request_ok_def copy_into_empty split: option.splits)
  next
    case (DExecution now i t p)
    then show ?thesis
      using ok by (auto simp: ctx_ok_def ctx_simps request_ok_def copy_into_empty split: option.splits)
  next
    case (DAttempt n)
    then show ?thesis
      using ok by (auto simp: ctx_ok_def ctx_simps request_ok_def copy_into_empty split: option.splits)
  next
    case (DBudget b)
    then show ?thesis
      using ok by (auto simp: WithCostBudget_def Let_def ctx_ok_def ctx_simps split: option.splits)
  qed (use ok ctx_ok_WithMetadata in \<open>auto simp: ctx_simps ctx_ok_def WithSensitiveVariable_def\<close>)
qed

lemma ctx_ok_root: "ctx_ok (NewRootContext i v)"
  by (simp add: ctx_ok_def ctx_simps)

lemma derived_ok: "ctx_ok (fst cw) \<Longrightarrow> ctx_ok (fst (fold derive ds cw))"
  by (induction ds arbitrary: cw) (simp_all add: ctx_ok_derive)

text \<open>
  C23: whatever derivations build a context from a root context, the metadata of its request is at most
  4096 bytes of keys and values, with distinct keys.
\<close>
theorem metadata_bounded:
  "case getRequestLayer (fst (fold derive ds (NewRootContext instanceID version, w))) of
     None \<Rightarrow> True
   | Some r \<Rightarrow> metadata_size (rl_Metadata r) \<le> 4096 \<and> distinct (map fst (rl_Metadata r))"
  using ctx_okD [OF derived_ok [of "(NewRootContext instanceID version, w)" ds]] ctx_ok_root [of instanceID version]
  by (auto simp: request_ok_def split: option.split)

section \<open>Children\<close>

text \<open>
  C33: a child execution inherits.  It has its parent's trace, budget, priority and metadata, names its
  parent, starts at attempt one, and its deadline is never later than its parent's.
\<close>
theorem child_inherits:
  "let c = fst (fold derive ds (NewRootContext instanceID version, w)); c' = WithChildExecution now i t c in
     GetExecutionID c' = i \<and> GetParentExecutionID c' = GetExecutionID c \<and> GetTraceID c' = GetTraceID c \<and>
     GetCostBudget c' = GetCostBudget c \<and> GetAttemptNumber c' = 1 \<and> GetMetadata k c' = GetMetadata k c \<and>
     GetUserID c' = GetUserID c \<and> GetSessionID c' = GetSessionID c \<and>
     GetPriority c' = (if getRequestLayer c = None then [] else GetPriority c) \<and>
     (case deadline c of None \<Rightarrow> True | Some p \<Rightarrow> (case deadline c' of None \<Rightarrow> False | Some d \<Rightarrow> d \<le> p))"
proof -
  define c where "c = fst (fold derive ds (NewRootContext instanceID version, w))"
  have ok: "ctx_ok c"
    using derived_ok [of "(NewRootContext instanceID version, w)" ds] by (simp add: c_def ctx_ok_root)
  have other: "vals (WithChildExecution now i t c) k' = vals c k'" if "k' \<notin> {keyRequest, compatExecutionID}" for k'
    using that by (auto simp: WithChildExecution_def Let_def split: option.split)
  have "GetMetadata k (WithChildExecution now i t c) = GetMetadata k c"
    using ok by (auto simp: GetMetadata_def ctx_simps ctx_ok_def request_ok_def copy_into_empty split: option.splits)
  moreover have layers: "session_layer_of (WithChildExecution now i t c) = session_layer_of c"
    "GetUserLayer (WithChildExecution now i t c) = GetUserLayer c"
    "str_value (StrKey ''user_id'') (WithChildExecution now i t c) = str_value (StrKey ''user_id'') c"
    "str_value (StrKey ''session_id'') (WithChildExecution now i t c) = str_value (StrKey ''session_id'') c"
    by (simp_all add: session_layer_of_def GetUserLayer_def str_value_def other ctx_simps)
  have "GetUserID (WithChildExecution now i t c) = GetUserID c" "GetSessionID (WithChildExecution now i t c) = GetSessionID c"
    unfolding GetUserID_def GetSessionID_def layers by simp_all
  ultimately show ?thesis
    unfolding c_def [symmetric] Let_def
    by (auto simp: ctx_simps GetExecutionID_def [of "WithChildExecution now i t c"]
      GetParentExecutionID_def GetTraceID_def [of "WithChildExecution now i t c"]
      GetCostBudget_def [of "WithChildExecution now i t c"] GetAttemptNumber_def GetPriority_def child_deadline_def
      split: option.split)
qed

section \<open>Merging requests\<close>

lemma map_add_key_left: "m k = None \<Longrightarrow> (ov(k \<mapsto> v)) ++ m = ov ++ m(k \<mapsto> v)"
  and map_add_key_right: "ov k = None \<Longrightarrow> m(k \<mapsto> v) ++ ov = (m ++ ov)(k \<mapsto> v)"
  by (auto simp: map_add_def fun_eq_iff split: option.split)

lemma merge_metadata_spec:
  assumes "merge_metadata rules ov m = Inr m'" and "distinct (map fst ov)" and "distinct (map fst m)"
  shows "distinct (map fst m')" "metadata_size m' \<le> metadata_size m + metadata_size ov"
    "map_of m' = (if rules = BaseWins then map_of ov ++ map_of m else map_of m ++ map_of ov)"
    "rules = ErrorOnConflict \<Longrightarrow> dom (map_of m) \<inter> dom (map_of ov) = {}"
proof -
  have "distinct (map fst m') \<and> metadata_size m' \<le> metadata_size m + metadata_size ov \<and>
    map_of m' = (if rules = BaseWins then map_of ov ++ map_of m else map_of m ++ map_of ov) \<and>
    (rules = ErrorOnConflict \<longrightarrow> dom (map_of m) \<inter> dom (map_of ov) = {})"
    using assms
  proof (induction ov arbitrary: m)
    case (Cons kv ov)
    obtain k v where kv: "kv = (k, v)" by force
    have k: "map_of ov k = None" "distinct (map fst ov)" using Cons.prems(2) by (auto simp: kv map_of_eq_None_iff)
    show ?case
    proof (cases "map_of m k \<noteq> None \<and> rules = BaseWins")
      case True
      with Cons.prems have "merge_metadata rules ov m = Inr m'" by (auto simp: kv)
      from Cons.IH [OF this k(2) Cons.prems(3)] True k(1) show ?thesis
        by (auto simp: kv map_add_def fun_eq_iff split: option.split)
    next
      case False
      with Cons.prems(1) have "merge_metadata rules ov (AList.update k v m) = Inr m'"
        and e: "rules = ErrorOnConflict \<longrightarrow> map_of m k = None"
        by (auto simp: kv split: if_splits conflict_strategy.splits)
      from Cons.IH [OF this(1) k(2) distinct_update [OF Cons.prems(3)]] have IH: "distinct (map fst m')"
        "metadata_size m' \<le> metadata_size (AList.update k v m) + metadata_size ov"
        "map_of m' = (if rules = BaseWins then map_of ov ++ (map_of m)(k \<mapsto> v) else (map_of m)(k \<mapsto> v) ++ map_of ov)"
        "rules = ErrorOnConflict \<longrightarrow> dom ((map_of m)(k \<mapsto> v)) \<inter> dom (map_of ov) = {}"
        unfolding update_conv' by blast+
      have size: "metadata_size (AList.update k v m) \<le> metadata_size m + int (length k) + int (length v)"
        by (auto simp: metadata_size_update split: option.split)
      have union: "map_of m' = (if rules = BaseWins then map_of (kv # ov) ++ map_of m else map_of m ++ map_of (kv # ov))"
      proof (cases "rules = BaseWins")
        case True
        then show ?thesis unfolding IH(3) using False by (simp add: kv map_add_key_left)
      next
        case False
        then show ?thesis unfolding IH(3) by (simp add: kv map_add_key_right k(1))
      qed
      have disjoint: "dom (map_of m) \<inter> dom (map_of (kv # ov)) = {}" if r: "rules = ErrorOnConflict"
      proof -
        have "insert k (dom (map_of m)) \<inter> dom (map_of ov) = {}"
          using IH(4) [rule_format, OF r] unfolding dom_fun_upd by simp
        moreover have "dom (map_of (kv # ov)) = insert k (dom (map_of ov))" by (simp add: kv)
        moreover have "k \<notin> dom (map_of m)" using e r by (simp add: domIff)
        ultimately show ?thesis by (simp only: Int_insert_left Int_insert_right split: if_splits) simp_all
      qed
      have "metadata_size m' \<le> metadata_size m + metadata_size (kv # ov)" using IH(2) size by (simp add: kv)
      with IH(1) union disjoint show ?thesis by blast
    qed
  qed simp
  then show "distinct (map fst m')" "metadata_size m' \<le> metadata_size m + metadata_size ov"
    "map_of m' = (if rules = BaseWins then map_of ov ++ map_of m else map_of m ++ map_of ov)"
    "rules = ErrorOnConflict \<Longrightarrow> dom (map_of m) \<inter> dom (map_of ov) = {}"
    by auto
qed

lemma request_with_request [ctx_simps]: "getRequestLayer (with_request r c) = Some r"
  by (simp add: with_request_def ctx_simps)

lemma Merge_InrD:
  assumes "Merge base overlay rules w = (Inr c, w')"
  shows "\<exists>c1. mergeRequest c1 base overlay rules = Inr c"
  using assms by (auto simp: Merge_def Let_def split: if_splits prod.splits sum.splits)


definition tagged :: "string \<Rightarrow> string \<Rightarrow> string \<Rightarrow> ctx" where
  "tagged i k v = fst (WithMetadata k v (WithExecution 0 i 0 PriorityClassHigh (NewRootContext ''r'' ''1'')))"

definition merge_sample :: "(string + ctx) \<times> world" where
  "merge_sample = Merge (tagged ''a'' ''x'' ''1'') (tagged ''b'' ''y'' ''2'') OverlayWins initial_world"


lemma layers_WithMetadata [ctx_simps]:
  "session_layer_of (fst (WithMetadata k v c)) = session_layer_of c"
  "GetUserLayer (fst (WithMetadata k v c)) = GetUserLayer c"
  "GetRuntime (fst (WithMetadata k v c)) = GetRuntime c"
  by (simp_all add: WithMetadata_def Let_def ctx_simps)

lemma layers_tagged [ctx_simps]:
  "session_layer_of (tagged i k v) = None" "GetUserLayer (tagged i k v) = None"
  "GetRuntime (tagged i k v) = Some \<lparr>rt_InstanceID = ''r'', rt_Version = ''1''\<rparr>"
  by (simp_all add: tagged_def ctx_simps WithExecution_def Let_def NewRootContext_def split: option.split)
    (simp_all add: accessor_defs Background_def)

lemma request_tagged:
  "int (length k) + int (length v) \<le> 4096 \<Longrightarrow> getRequestLayer (tagged i k v) = Some
     \<lparr>rl_ExecutionID = i, rl_ParentExecutionID = [], rl_TraceID = ''tr-'' @ i, rl_Deadline = None,
      rl_Priority = PriorityClassHigh, rl_CostBudget = None, rl_Attempt = 1, rl_Metadata = [(k, v)]\<rparr>"
  by (simp add: tagged_def WithMetadata_def Let_def ctx_simps GetExecutionID_def GetTraceID_def GetCostBudget_def)
    (simp add: str_value_def NewRootContext_def Background_def ctx_keys)

text \<open>
  The bound on metadata does not survive a merge: two contexts of 4001 bytes each merge
  into one of 8002 bytes.
\<close>
theorem merge_exceeds_bound:
  "map_option (\<lambda>r. metadata_size (rl_Metadata r))
     (case fst (Merge (tagged ''a'' ''x'' (replicate 4000 CHR ''v'')) (tagged ''a'' ''y'' (replicate 4000 CHR ''v''))
                  ErrorOnConflict initial_world) of
        Inl _ \<Rightarrow> None | Inr c \<Rightarrow> getRequestLayer c) = Some 8002"
  by (simp add: Merge_def mergeSession_def mergeUser_def mergeRequest_def mergeRequestFields_def mergeRequestMetadata_def
      ctx_simps request_tagged)

text \<open>
  A merge that fails may have changed the base all the same: here the session variables of the
  overlay are in the base's session when the conflict of the user layers is reported.
\<close>
theorem failed_merge_changes_base:
  "let (b, w1) = WithSession 0 ''s1'' [] (NewRootContext ''r'' ''1'') initial_world;
       (ov, w2) = WithSession 0 ''s2'' [] (NewRootContext ''r'' ''1'') w1;
       w3 = session_set 1 ''k'' (AStr ''v'') w2;
       merged = Merge (WithUser ''u'' [] [] b) (WithUser ''u'' [] [] ov) ErrorOnConflict w3
   in (map_sum id (\<lambda>_. ()) (fst merged), map_option sl_State (session_layer_of b),
       session_get 0 ''k'' w3, session_get 0 ''k'' (snd merged)) =
      (Inl ''conflict on user layer'', Some 0, None, Some (AStr ''v''))"
  by code_simp

section \<open>Sessions\<close>

text \<open>
  The operations on the store and on the states it hands out.  \<open>StoreCollect\<close> is one tick of the
  collector that the first use of the store starts.
\<close>

datatype store_op =
    StoreGet instant string
  | StoreCollect instant
  | StoreSetExpiry duration
  | StateSet nat string any
  | StateDelete nat string

fun store_apply :: "store_op \<Rightarrow> world \<Rightarrow> world" where
  "store_apply (StoreGet now i) w = snd (GetOrCreate now i w)"
| "store_apply (StoreCollect now) w = purge now w"
| "store_apply (StoreSetExpiry d) w = SetExpiry d w"
| "store_apply (StateSet s k v) w = session_set s k v w"
| "store_apply (StateDelete s k) w = session_delete s k w"

definition store_ok :: "world \<Rightarrow> bool" where
  "store_ok w \<longleftrightarrow>
     (\<forall>i e. sessions w i = Some e \<longrightarrow> se_state e < length (states w)) \<and>
     (\<forall>i j e e'. sessions w i = Some e \<longrightarrow> sessions w j = Some e' \<longrightarrow> se_state e = se_state e' \<longrightarrow> i = j)"

lemma store_okD:
  "store_ok w \<Longrightarrow> sessions w i = Some e \<Longrightarrow> se_state e < length (states w)"
  "store_ok w \<Longrightarrow> sessions w i = Some e \<Longrightarrow> sessions w j = Some e' \<Longrightarrow> se_state e = se_state e' \<Longrightarrow> i = j"
  unfolding store_ok_def by blast+

lemma purge_Some: "sessions (purge now w) i = Some e \<longleftrightarrow>
    sessions w i = Some e \<and> time_sub now (se_lastAccess e) \<le> expiry w"
  by (auto simp: purge_def split: option.splits)

lemma states_purge [simp]: "states (purge now w) = states w" "expiry (purge now w) = expiry w"
  by (simp_all add: purge_def)

lemma store_ok_purge: "store_ok w \<Longrightarrow> store_ok (purge now w)"
  unfolding store_ok_def states_purge purge_Some by blast

lemma store_ok_touch:
  assumes "store_ok w" and "sessions w i = Some e"
  shows "store_ok (w\<lparr>sessions := (sessions w)(i \<mapsto> e\<lparr>se_lastAccess := now\<rparr>)\<rparr>)"
  using store_okD [OF assms(1)] assms(2) unfolding store_ok_def by (auto split: if_splits)

lemma store_ok_create:
  assumes "store_ok w"
  shows "store_ok (w\<lparr>states := states w @ [[]],
           sessions := (sessions w)(i \<mapsto> \<lparr>se_state = length (states w), se_lastAccess = now\<rparr>)\<rparr>)"
  using store_okD [OF assms] unfolding store_ok_def by (fastforce split: if_splits intro: less_SucI)

lemma store_ok_GetOrCreate: "store_ok w \<Longrightarrow> store_ok (snd (GetOrCreate now i w))"
  using store_ok_purge [of w now] store_ok_touch [of "purge now w" i _ now] store_ok_create [of "purge now w" i now]
  by (auto simp: GetOrCreate_def Let_def split: option.split)

lemma store_ok_apply: "store_ok w \<Longrightarrow> store_ok (store_apply op w)"
  by (cases op) (simp_all add: store_ok_GetOrCreate store_ok_purge,
      simp_all add: store_ok_def SetExpiry_def session_set_def session_delete_def)

lemma store_ok_initial: "store_ok initial_world"
  by (simp add: store_ok_def initial_world_def)

lemma store_ok_reachable: "store_ok w \<Longrightarrow> store_ok (fold store_apply ops w)"
  by (induction ops arbitrary: w) (simp_all add: store_ok_apply)

text \<open>The state that \<open>GetOrCreate\<close> hands out: the one that is stored and not expired, else a new one.\<close>

lemma GetOrCreate_cases:
  "GetOrCreate now i w =
     (case sessions (purge now w) i of
        Some e \<Rightarrow> (se_state e, (purge now w)\<lparr>sessions := (sessions (purge now w))(i \<mapsto> e\<lparr>se_lastAccess := now\<rparr>)\<rparr>)
      | None \<Rightarrow> (length (states w), (purge now w)\<lparr>states := states w @ [[]],
          sessions := (sessions (purge now w))(i \<mapsto> \<lparr>se_state = length (states w), se_lastAccess = now\<rparr>)\<rparr>))"
  by (simp add: GetOrCreate_def Let_def split: option.split)

text \<open>
  Sessions are isolated.  After any use of the store and its states, the state that is handed out
  for an identifier exists and is stored under that identifier only.  It is the state stored before,
  with its variables, when that has not expired, and a new empty one otherwise.
\<close>
theorem session_isolation:
  "case (fold store_apply ops initial_world, GetOrCreate now i (fold store_apply ops initial_world)) of
     (w, (s, w')) \<Rightarrow>
       s < length (states w') \<and>
       (\<forall>j. (map_option se_state (sessions w' j) = Some s) = (j = i)) \<and>
       (s, states w') =
         (case sessions w i of
            Some e \<Rightarrow> if time_sub now (se_lastAccess e) \<le> expiry w then (se_state e, states w)
                      else (length (states w), states w @ [[]])
          | None \<Rightarrow> (length (states w), states w @ [[]]))"
proof -
  define w where "w = fold store_apply ops initial_world"
  have ok: "store_ok (purge now w)"
    using store_ok_reachable [OF store_ok_initial] by (simp add: w_def store_ok_purge)
  show ?thesis
  proof (cases "sessions (purge now w) i")
    case (Some e)
    then have now: "sessions w i = Some e" "time_sub now (se_lastAccess e) \<le> expiry w" by (simp_all add: purge_Some)
    have other: "\<exists>e'. sessions (purge now w) j = Some e' \<and> se_state e' = se_state e \<Longrightarrow> j = i" for j
      using store_okD(2) [OF ok _ Some] by blast
    show ?thesis
      using store_okD(1) [OF ok Some] now other
      unfolding w_def [symmetric] GetOrCreate_cases Some option.case prod.case
      by (intro conjI allI) auto
  next
    case None
    then have "sessions w i = None \<or> (\<exists>e. sessions w i = Some e \<and> expiry w < time_sub now (se_lastAccess e))"
      using purge_Some [of now w i] by (cases "sessions w i") (auto simp: not_le)
    moreover have "map_option se_state (sessions (purge now w) j) \<noteq> Some (length (states w))" for j
      using store_okD(1) [OF ok, of j] by (cases "sessions (purge now w) j") auto
    ultimately show ?thesis
      using None unfolding w_def [symmetric] GetOrCreate_cases by (elim disjE exE conjE) simp_all
  qed
qed

end
