(* ===== verification/Cost_Budget.thy ===== *)
theory Cost_Budget
  imports Rt_Context Step_Machine
begin

text \<open>
  \<open>AddSpent\<close> of \<open>core/context/context.go\<close> under concurrency.  Goroutine \<open>t\<close> adds \<open>amount t\<close> to one
  cell: it loads the cell, computes the sum and stores it by a compare-and-swap, again and again until that
  succeeds.  The steps of all goroutines interleave freely.
\<close>

section \<open>The compare-and-swap loop\<close>

datatype adder_pc = AdderLoad | AdderSwap float64 | AdderDone

record adders =
  ad_cell :: float64
  ad_pc :: "nat \<Rightarrow> adder_pc"

datatype adder_op = OpLoad nat | OpSwap nat

text \<open>One step of goroutine \<open>t\<close>; \<open>None\<close> when it is elsewhere in its loop.\<close>

fun adder_step :: "(nat \<Rightarrow> float64) \<Rightarrow> adder_op \<Rightarrow> adders \<Rightarrow> adders option" where
  "adder_step amount (OpLoad t) s =
     (case ad_pc s t of
        AdderLoad \<Rightarrow> Some (s\<lparr>ad_pc := (ad_pc s)(t := AdderSwap (ad_cell s))\<rparr>)
      | _ \<Rightarrow> None)"
| "adder_step amount (OpSwap t) s =
     (case ad_pc s t of
        AdderSwap oldVal \<Rightarrow>
          (let newVal = fadd oldVal (amount t)
           in Some (if ad_cell s = oldVal
                    then s\<lparr>ad_cell := newVal, ad_pc := (ad_pc s)(t := AdderDone)\<rparr>
                    else s\<lparr>ad_pc := (ad_pc s)(t := AdderLoad)\<rparr>))
      | _ \<Rightarrow> None)"

definition adder_rel :: "(nat \<Rightarrow> float64) \<Rightarrow> adders \<Rightarrow> adder_op \<Rightarrow> adders \<Rightarrow> bool" where
  "adder_rel amount s op s' \<longleftrightarrow> adder_step amount op s = Some s'"

definition adders_start :: "float64 \<Rightarrow> adders" where
  "adders_start x = \<lparr>ad_cell = x, ad_pc = (\<lambda>_. AdderLoad)\<rparr>"

section \<open>Linearization\<close>

definition add_all :: "(nat \<Rightarrow> float64) \<Rightarrow> float64 \<Rightarrow> nat list \<Rightarrow> float64" where
  "add_all amount x ts = foldl (\<lambda>y t. fadd y (amount t)) x ts"

definition linearized :: "(nat \<Rightarrow> float64) \<Rightarrow> float64 \<Rightarrow> adders \<Rightarrow> bool" where
  "linearized amount x s \<longleftrightarrow>
     (\<exists>ts. distinct ts \<and> set ts = {t. ad_pc s t = AdderDone} \<and> ad_cell s = add_all amount x ts)"

lemma linearized_step:
  assumes "adder_rel amount s op s'" and "linearized amount x s"
  shows "linearized amount x s'"
proof -
  obtain ts where ts: "distinct ts" "set ts = {t. ad_pc s t = AdderDone}" "ad_cell s = add_all amount x ts"
    using assms(2) by (auto simp: linearized_def)
  show ?thesis
  proof (cases op)
    case (OpLoad t)
    with assms(1) have "{u. ad_pc s' u = AdderDone} = {u. ad_pc s u = AdderDone}" "ad_cell s' = ad_cell s"
      by (auto simp: adder_rel_def split: adder_pc.splits if_splits)
    with ts show ?thesis by (auto simp: linearized_def)
  next
    case (OpSwap t)
    with assms(1) obtain oldVal where old: "ad_pc s t = AdderSwap oldVal"
      and s': "s' = (if ad_cell s = oldVal then s\<lparr>ad_cell := fadd oldVal (amount t), ad_pc := (ad_pc s)(t := AdderDone)\<rparr>
                     else s\<lparr>ad_pc := (ad_pc s)(t := AdderLoad)\<rparr>)"
      by (auto simp: adder_rel_def Let_def split: adder_pc.splits)
    show ?thesis
    proof (cases "ad_cell s = oldVal")
      case True
      with ts old s' show ?thesis
        unfolding linearized_def by (intro exI [of _ "ts @ [t]"]) (auto simp: add_all_def)
    next
      case False
      with ts old s' show ?thesis
        unfolding linearized_def by (intro exI [of _ ts]) (auto split: if_splits)
    qed
  qed
qed

interpretation adders: step_invariant "adder_rel amount" "linearized amount x" for amount x
  by unfold_locales (rule linearized_step)

text \<open>
  C24: \<open>AddSpent\<close> loses no update.  However the goroutines interleave, the cell holds the sum of the
  amounts of exactly those that have returned, added one after the other in some order.
\<close>
theorem AddSpent_linearizable:
  assumes "run (adder_rel amount) (adders_start x) ops s"
  shows "\<exists>ts. distinct ts \<and> set ts = {t. ad_pc s t = AdderDone} \<and> ad_cell s = add_all amount x ts"
proof -
  have "linearized amount x (adders_start x)"
    by (auto simp: linearized_def adders_start_def add_all_def intro!: exI [of _ "[]"])
  from adders.run_inv [OF assms this] show ?thesis by (simp add: linearized_def)
qed

definition two_adders :: "nat \<Rightarrow> float64" where
  "two_adders t = (if t = 0 then 1 / 4 else 1 / 2)"

text \<open>The second goroutine loads before the first one stores, and has to go round again.\<close>

definition contended :: "adder_op list" where
  "contended = [OpLoad 0, OpLoad 1, OpSwap 0, OpSwap 1, OpLoad 1, OpSwap 1]"

fun adder_run :: "(nat \<Rightarrow> float64) \<Rightarrow> adder_op list \<Rightarrow> adders \<Rightarrow> adders option" where
  "adder_run amount [] s = Some s"
| "adder_run amount (op # ops) s =
     (case adder_step amount op s of None \<Rightarrow> None | Some s' \<Rightarrow> adder_run amount ops s')"

lemma adder_run_iff: "adder_run amount ops s = Some s' \<longleftrightarrow> run (adder_rel amount) s ops s'"
  by (induction ops arbitrary: s) (auto simp: adder_rel_def split: option.splits)

lemma contended_run:
  "run (adder_rel two_adders) (adders_start 0) contended (the (adder_run two_adders contended (adders_start 0)))"
proof -
  have "\<not> Option.is_none (adder_run two_adders contended (adders_start 0))" by code_simp
  then show ?thesis by (simp add: adder_run_iff [symmetric] Option.is_none_def)
qed

lemma AddSpent_linearizable_witness:
  "\<exists>ts. distinct ts \<and> set ts = {t. ad_pc (the (adder_run two_adders contended (adders_start 0))) t = AdderDone} \<and>
     3 / 4 = add_all two_adders 0 ts"
proof -
  have "ad_cell (the (adder_run two_adders contended (adders_start 0))) = 3 / 4" by code_simp
  then show ?thesis using AddSpent_linearizable [OF contended_run] by metis
qed

text \<open>
  The loop is lock-free: while the cell keeps the value that a goroutine has loaded, its swap succeeds;
  when the value has changed, another goroutine has returned since.
\<close>

lemma swap_succeeds:
  "ad_pc s t = AdderSwap (ad_cell s) \<Longrightarrow> adder_rel amount s (OpSwap t) s' \<Longrightarrow> ad_pc s' t = AdderDone"
  by (auto simp: adder_rel_def)

lemma done_step: "adder_rel amount s op s' \<Longrightarrow> ad_pc s u = AdderDone \<Longrightarrow> ad_pc s' u = AdderDone"
  by (cases op; cases "ad_pc s u") (auto simp: adder_rel_def Let_def split: adder_pc.splits if_splits)

interpretation returned: step_order "adder_rel amount" "\<lambda>s s'. \<forall>u. ad_pc s u = AdderDone \<longrightarrow> ad_pc s' u = AdderDone"
  for amount
  by unfold_locales (use done_step in blast)+

lemma swap_changes:
  "adder_rel amount s op s' \<Longrightarrow> ad_cell s' \<noteq> ad_cell s \<Longrightarrow> \<exists>u. ad_pc s u \<noteq> AdderDone \<and> ad_pc s' u = AdderDone"
proof (cases op)
  case (OpSwap t)
  assume "adder_rel amount s op s'" "ad_cell s' \<noteq> ad_cell s"
  with OpSwap show ?thesis
    by (intro exI [of _ t]) (auto simp: adder_rel_def Let_def split: adder_pc.splits if_splits)
qed (auto simp: adder_rel_def split: adder_pc.splits)

lemma swap_beaten:
  "run (adder_rel amount) s ops s' \<Longrightarrow> ad_cell s' \<noteq> ad_cell s \<Longrightarrow> \<exists>u. ad_pc s u \<noteq> AdderDone \<and> ad_pc s' u = AdderDone"
proof (induction rule: run.induct)
  case (run_cons s op m ops s')
  note later = returned.run_R [OF run_cons.hyps(2)]
  show ?case
  proof (cases "ad_cell m = ad_cell s")
    case True
    with run_cons.IH run_cons.prems obtain u where "ad_pc m u \<noteq> AdderDone" "ad_pc s' u = AdderDone" by auto
    then show ?thesis using done_step [OF run_cons.hyps(1), of u] by blast
  next
    case False
    from swap_changes [OF run_cons.hyps(1) this] later show ?thesis by blast
  qed
qed simp

section \<open>Reservations\<close>

text \<open>
  \<open>TryReserve\<close> reserves nothing.  Two callers that ask for 6 of a budget of 10 are both told
  yes; when both have spent what they asked for, the budget is overdrawn.
\<close>
theorem reservation_not_held:
  "let (cb, w) = NewCostBudget 10 ''USD'' initial_world; w' = AddSpent 6 cb (AddSpent 6 cb w)
   in (TryReserve 6 cb w, TryReserve 6 cb w, Spent cb w', TryReserve 0 cb w') = (True, True, 12, False)"
  by code_simp

end
