(* ===== verification/Wire_Context.thy ===== *)
theory Wire_Context
  imports Context_Laws
begin

text \<open>
  \<open>core/context/serialization.go\<close>: a context as a message, and back.  The message's metadata is the
  list of its entries in the order in which \<open>FromProto\<close> ranges over them.
\<close>

section \<open>Messages\<close>

record cost_budget_proto =
  cp_Limit :: float64
  cp_Spent :: float64
  cp_Currency :: string

record context_proto =
  pr_SessionID :: string
  pr_UserID :: string
  pr_ExecutionID :: string
  pr_ParentExecutionID :: string
  pr_TraceID :: string
  pr_DeadlineUnixMs :: int
  pr_Priority :: int
  pr_Metadata :: "string entries"
  pr_CostBudget :: "cost_budget_proto option"

definition ToProto :: "ctx \<Rightarrow> world \<Rightarrow> context_proto" where
  "ToProto c w =
     \<lparr>pr_SessionID = GetSessionID c,
      pr_UserID = GetUserID c,
      pr_ExecutionID = GetExecutionID c,
      pr_ParentExecutionID = GetParentExecutionID c,
      pr_TraceID = GetTraceID c,
      pr_DeadlineUnixMs = (case deadline c of None \<Rightarrow> 0 | Some d \<Rightarrow> Milliseconds d),
      pr_Priority = mapPriorityToInt (GetPriority c),
      pr_Metadata = (case getRequestLayer c of None \<Rightarrow> [] | Some r \<Rightarrow> copy_into (rl_Metadata r) []),
      pr_CostBudget = (case GetCostBudget c of
                         None \<Rightarrow> None
                       | Some cb \<Rightarrow> Some \<lparr>cp_Limit = cb_Limit cb, cp_Spent = Spent cb w, cp_Currency = cb_Currency cb\<rparr>)\<rparr>"

definition parseDeadline :: "instant \<Rightarrow> int \<Rightarrow> duration" where
  "parseDeadline now deadlineUnixMs =
     (if deadlineUnixMs \<le> 0 then 0
      else let remaining = time_sub (wrap64 (deadlineUnixMs * Millisecond)) now
           in if remaining < 0 then 0 else remaining)"

text \<open>
  The request layer that \<open>WithExecution\<close> has just added is changed in place.  \<open>now1\<close>, \<open>now2\<close> and
  \<open>now3\<close> are the readings of the clock by the session store, by \<open>parseDeadline\<close> and by \<open>WithExecution\<close>.
\<close>

definition patch_request :: "string \<Rightarrow> string \<Rightarrow> ctx \<Rightarrow> ctx" where
  "patch_request parentID traceID c =
     (case getRequestLayer c of
        None \<Rightarrow> c
      | Some req \<Rightarrow>
          let req = (if parentID \<noteq> [] then req\<lparr>rl_ParentExecutionID := parentID\<rparr> else req);
              req = (if traceID \<noteq> [] then req\<lparr>rl_TraceID := traceID\<rparr> else req)
          in WithValue keyRequest (VRequest req) c)"

definition start_of :: "instant \<Rightarrow> string \<Rightarrow> string \<Rightarrow> string \<Rightarrow> string \<Rightarrow> world \<Rightarrow> ctx \<times> world" where
  "start_of now sid uid instanceID version w =
     (let c = ManagerNewRootContext (NewManager instanceID version)
      in if sid \<noteq> [] then WithSession now sid uid c w
         else if uid \<noteq> [] then (WithUser uid [] [] c, w) else (c, w))"

definition restore_budget :: "cost_budget_proto option \<Rightarrow> ctx \<Rightarrow> world \<Rightarrow> ctx \<times> world" where
  "restore_budget b c w =
     (case b of
        None \<Rightarrow> (c, w)
      | Some b \<Rightarrow>
          let (cb, w) = NewCostBudget (cp_Limit b) (cp_Currency b) w;
              w = AddSpent (cp_Spent b) cb w
          in (WithCostBudget cb c, w))"

definition add_metadata :: "string entries \<Rightarrow> ctx \<Rightarrow> ctx" where
  "add_metadata kvs c = fold (\<lambda>(k, v) c. fst (WithMetadata k v c)) kvs c"

definition FromProto ::
  "instant \<Rightarrow> instant \<Rightarrow> instant \<Rightarrow> context_proto \<Rightarrow> string \<Rightarrow> string \<Rightarrow> world \<Rightarrow> ctx \<times> world" where
  "FromProto now1 now2 now3 proto instanceID version w =
     (let (c, w) = start_of now1 (pr_SessionID proto) (pr_UserID proto) instanceID version w;
          priorityClass = mapIntToPriority (pr_Priority proto);
          timeout = parseDeadline now2 (pr_DeadlineUnixMs proto);
          c = (if pr_ExecutionID proto \<noteq> []
               then patch_request (pr_ParentExecutionID proto) (pr_TraceID proto)
                      (WithExecution now3 (pr_ExecutionID proto) timeout priorityClass c)
               else c);
          (c, w) = restore_budget (pr_CostBudget proto) c w
      in (add_metadata (pr_Metadata proto) c, w))"

section \<open>What survives the journey\<close>

text \<open>The derivations that concern the request alone leave the other layers.\<close>

definition same_caller :: "ctx \<Rightarrow> ctx \<Rightarrow> bool" where
  "same_caller c c' \<longleftrightarrow>
     (\<forall>k. k \<notin> {keyRequest, compatTraceID, compatExecutionID} \<longrightarrow> vals c' k = vals c k)"

lemma same_caller_refl [simp]: "same_caller c c"
  by (simp add: same_caller_def)

lemma same_caller_WithValue [simp]:
  "same_caller c (WithValue keyRequest v c') = same_caller c c'"
  "same_caller c (WithValue compatTraceID v c') = same_caller c c'"
  "same_caller c (WithValue compatExecutionID v c') = same_caller c c'"
  unfolding same_caller_def vals_WithValue by simp_all

lemma same_caller_ids:
  assumes "same_caller c c'"
  shows "GetSessionID c' = GetSessionID c" "GetUserID c' = GetUserID c"
proof -
  have layers: "session_layer_of c' = session_layer_of c" "GetUserLayer c' = GetUserLayer c"
    "str_value (StrKey ''session_id'') c' = str_value (StrKey ''session_id'') c"
    "str_value (StrKey ''user_id'') c' = str_value (StrKey ''user_id'') c"
    using assms by (simp_all add: same_caller_def session_layer_of_def GetUserLayer_def str_value_def ctx_keys)
  show "GetSessionID c' = GetSessionID c" "GetUserID c' = GetUserID c"
    unfolding GetSessionID_def GetUserID_def layers by simp_all
qed

lemma same_caller_trans: "same_caller a b \<Longrightarrow> same_caller b c \<Longrightarrow> same_caller a c"
  by (simp add: same_caller_def)

text \<open>The metadata loop, on a request layer that has room.\<close>

lemma metadata_loop:
  assumes "getRequestLayer c = Some r" and "distinct (map fst (rl_Metadata r @ kvs))"
    and "metadata_size (rl_Metadata r @ kvs) \<le> 4096"
  defines "c' \<equiv> add_metadata kvs c"
  shows "getRequestLayer c' = Some (r\<lparr>rl_Metadata := rl_Metadata r @ kvs\<rparr>) \<and> same_caller c c' \<and> deadline c' = deadline c"
  unfolding c'_def add_metadata_def
  using assms(1-3)
proof (induction kvs arbitrary: c r)
  case (Cons kv kvs)
  obtain k v where kv: "kv = (k, v)" by force
  let ?r = "r\<lparr>rl_Metadata := rl_Metadata r @ [(k, v)]\<rparr>"
  have "AList.update k v (rl_Metadata r) = rl_Metadata r @ [(k, v)]"
    using Cons.prems(2) by (intro update_new) (auto simp: kv)
  moreover have fits: "metadata_size (rl_Metadata r) + int (length k) + int (length v) \<le> 4096"
    using Cons.prems(3) metadata_size_nonneg [of kvs] by (simp add: kv del: metadata_size_nonneg)
  moreover have "ctx_ok c"
    using Cons.prems fits by (simp add: ctx_ok_def request_ok_def kv)
  ultimately have step: "fst (WithMetadata k v c) = WithValue keyRequest (VRequest ?r) c"
    using Cons.prems(1) by (simp add: WithMetadata_cases)
  have "getRequestLayer (WithValue keyRequest (VRequest ?r) c) = Some ?r" by (simp add: ctx_simps)
  from Cons.IH [OF this] Cons.prems(2,3) show ?case
    by (simp add: kv step) (simp add: same_caller_def)
qed simp

lemma start_of_simps:
  "getRequestLayer (fst (start_of now sid uid i v w)) = None"
  "deadline (fst (start_of now sid uid i v w)) = None"
  "GetSessionID (fst (start_of now sid uid i v w)) = sid"
  "GetUserID (fst (start_of now sid uid i v w)) = uid"
  "GetExecutionID (fst (start_of now sid uid i v w)) = []"
  "GetTraceID (fst (start_of now sid uid i v w)) = []"
  "cells (snd (start_of now sid uid i v w)) = cells w"
proof -
  have root: "session_layer_of (NewRootContext i v) = None" "GetUserLayer (NewRootContext i v) = None"
    "str_value k (NewRootContext i v) = []" "deadline (NewRootContext i v) = None" for k
    by (simp_all add: NewRootContext_def Background_def accessor_defs ctx_keys)
  show "getRequestLayer (fst (start_of now sid uid i v w)) = None" by (simp add: start_of_def Let_def ctx_simps)
  show "deadline (fst (start_of now sid uid i v w)) = None"
    by (simp add: start_of_def Let_def root WithSession_def WithUser_def split: prod.split)
  show "cells (snd (start_of now sid uid i v w)) = cells w"
    by (simp add: start_of_def Let_def WithSession_def GetOrCreate_cases purge_def split: prod.split option.split)
  show "GetSessionID (fst (start_of now sid uid i v w)) = sid" "GetUserID (fst (start_of now sid uid i v w)) = uid"
    "GetExecutionID (fst (start_of now sid uid i v w)) = []" "GetTraceID (fst (start_of now sid uid i v w)) = []"
    by (simp_all add: start_of_def Let_def WithSession_def WithUser_def GetSessionID_def GetUserID_def GetExecutionID_def
        GetTraceID_def ctx_simps root split: prod.split)
qed

lemma WithExecution_same_caller: "same_caller c (WithExecution now i t p c)"
  by (simp add: WithExecution_def Let_def split: option.split) (simp add: same_caller_def)

lemma deadline_WithExecution:
  "deadline (WithExecution now i t p c) =
     (if t > 0 then Some (case deadline c of None \<Rightarrow> now + t | Some d \<Rightarrow> min d (now + t)) else deadline c)"
  by (simp add: WithExecution_def Let_def split: option.split)

text \<open>The context with its execution, before the budget and the metadata.\<close>

lemma executed_of:
  fixes parent eid :: string and t :: duration and now3 :: instant and p :: priority_class
  assumes "c0 = fst (start_of now1 sid uid i v w)" and "tid \<noteq> []"
  defines "c1 \<equiv> patch_request parent tid (WithExecution now3 eid t p c0)"
  shows "getRequestLayer c1 = Some
      \<lparr>rl_ExecutionID = eid, rl_ParentExecutionID = parent, rl_TraceID = tid,
       rl_Deadline = (if t > 0 then Some (now3 + t) else None), rl_Priority = p, rl_CostBudget = None,
       rl_Attempt = 1, rl_Metadata = []\<rparr> \<and>
    same_caller c0 c1 \<and> deadline c1 = (if t > 0 then Some (now3 + t) else None)"
proof -
  have "getRequestLayer (WithExecution now3 eid t p c0) = Some
      \<lparr>rl_ExecutionID = eid, rl_ParentExecutionID = [], rl_TraceID = ''tr-'' @ eid,
       rl_Deadline = (if t > 0 then Some (now3 + t) else None), rl_Priority = p, rl_CostBudget = None,
       rl_Attempt = 1, rl_Metadata = []\<rparr>"
    by (simp add: ctx_simps assms(1) start_of_simps GetCostBudget_def)
  then show ?thesis
    using assms(2) WithExecution_same_caller [of c0 now3 eid t p]
    by (auto simp: c1_def patch_request_def Let_def ctx_simps deadline_WithExecution start_of_simps assms(1))
qed

lemma budget_of:
  assumes "getRequestLayer c = Some r" and "rl_Metadata r = []" and "rl_CostBudget r = None"
    and "case b of None \<Rightarrow> True | Some b \<Rightarrow> is_float (cp_Spent b)"
  shows "case restore_budget b c w of (c', w') \<Rightarrow>
    \<exists>cb. getRequestLayer c' = Some (r\<lparr>rl_CostBudget := cb\<rparr>) \<and> same_caller c c' \<and> deadline c' = deadline c \<and>
      map_option (\<lambda>cb. (cb_Limit cb, Spent cb w', cb_Currency cb)) cb =
      map_option (\<lambda>b. (cp_Limit b, cp_Spent b, cp_Currency b)) b"
proof (cases b)
  case None
  then show ?thesis using assms(1,3) by (intro exI [of _ None] iffD2 [OF prod.case_eq_if]) (simp add: restore_budget_def)
next
  case (Some p)
  let ?cb = "\<lparr>cb_Limit = cp_Limit p, cb_spentBits = Some (length (cells w)), cb_Currency = cp_Currency p\<rparr>"
  have "restore_budget b c w = (WithCostBudget ?cb c, w\<lparr>cells := cells w @ [cp_Spent p]\<rparr>)"
    using assms(4) by (simp add: Some restore_budget_def NewCostBudget_def AddSpent_def fadd_def fround_float)
  moreover have "WithCostBudget ?cb c = WithValue keyRequest (VRequest (r\<lparr>rl_CostBudget := Some ?cb\<rparr>)) c"
    using assms(1,2) by (cases r) (simp add: WithCostBudget_def Let_def)
  ultimately show ?thesis
    by (simp add: ctx_simps) (intro exI [of _ "Some ?cb"], simp add: Some Spent_def)
qed

text \<open>The context a message is read back as, layer by layer, for any message that names an execution and a trace.\<close>

lemma FromProto_layers:
  assumes "pr_ExecutionID m \<noteq> []" and "pr_TraceID m \<noteq> []" and "distinct (map fst (pr_Metadata m))"
    and "metadata_size (pr_Metadata m) \<le> 4096"
    and spent: "case pr_CostBudget m of None \<Rightarrow> True | Some b \<Rightarrow> is_float (cp_Spent b)"
    and t: "t = parseDeadline now2 (pr_DeadlineUnixMs m)"
  obtains c' w' cb where "FromProto now1 now2 now3 m instanceID version w = (c', w')"
    and "getRequestLayer c' = Some \<lparr>rl_ExecutionID = pr_ExecutionID m, rl_ParentExecutionID = pr_ParentExecutionID m,
       rl_TraceID = pr_TraceID m, rl_Deadline = (if t > 0 then Some (now3 + t) else None),
       rl_Priority = mapIntToPriority (pr_Priority m), rl_CostBudget = cb, rl_Attempt = 1, rl_Metadata = pr_Metadata m\<rparr>"
    and "GetSessionID c' = pr_SessionID m" and "GetUserID c' = pr_UserID m"
    and "deadline c' = (if t > 0 then Some (now3 + t) else None)"
    and "map_option (\<lambda>cb. (cb_Limit cb, Spent cb w', cb_Currency cb)) cb =
     map_option (\<lambda>b. (cp_Limit b, cp_Spent b, cp_Currency b)) (pr_CostBudget m)"
proof -
  obtain c0 w0 where start: "start_of now1 (pr_SessionID m) (pr_UserID m) instanceID version w = (c0, w0)" by force
  have c0: "c0 = fst (start_of now1 (pr_SessionID m) (pr_UserID m) instanceID version w)" by (simp add: start)
  define c1 where "c1 = patch_request (pr_ParentExecutionID m) (pr_TraceID m)
    (WithExecution now3 (pr_ExecutionID m) t (mapIntToPriority (pr_Priority m)) c0)"
  note c1 = executed_of [OF c0 assms(2), of "pr_ParentExecutionID m" now3 "pr_ExecutionID m" t
      "mapIntToPriority (pr_Priority m)", folded c1_def]
  obtain c2 w2 where bud: "restore_budget (pr_CostBudget m) c1 w0 = (c2, w2)" by force
  from budget_of [OF conjunct1 [OF c1] _ _ spent, of w0] obtain cb where
    c2: "getRequestLayer c2 = Some (\<lparr>rl_ExecutionID = pr_ExecutionID m, rl_ParentExecutionID = pr_ParentExecutionID m,
       rl_TraceID = pr_TraceID m, rl_Deadline = (if t > 0 then Some (now3 + t) else None),
       rl_Priority = mapIntToPriority (pr_Priority m), rl_CostBudget = cb, rl_Attempt = 1, rl_Metadata = []\<rparr>)"
    "same_caller c1 c2" "deadline c2 = deadline c1"
    "map_option (\<lambda>cb. (cb_Limit cb, Spent cb w2, cb_Currency cb)) cb =
     map_option (\<lambda>b. (cp_Limit b, cp_Spent b, cp_Currency b)) (pr_CostBudget m)"
    by (auto simp: bud)
  note c3 = metadata_loop [OF c2(1), of "pr_Metadata m"]
  have "same_caller c0 (add_metadata (pr_Metadata m) c2)"
    using c1 c2(2) c3 assms(3,4) same_caller_trans by simp blast
  from same_caller_ids [OF this] start_of_simps(3,4) [of now1 "pr_SessionID m" "pr_UserID m" instanceID version w]
  show ?thesis
    using assms(1,3,4) c1 c2(3) c3
    by (intro that [OF _ _ _ _ _ c2(4), of "add_metadata (pr_Metadata m) c2"])
      (simp_all add: FromProto_def start Let_def t [symmetric] c1_def [symmetric] bud c0 [symmetric])
qed

text \<open>
  C25: a context survives its message.  For a context with an execution, a trace, a known priority and
  metadata within the bound, \<open>FromProto\<close> of \<open>ToProto\<close> has the same identifiers, priority, metadata and
  budget, spent part included.  Its deadline is recomputed from the two readings of the clock; one that
  has passed is dropped, so the copy has none.
\<close>
theorem proto_roundtrip:
  assumes "GetExecutionID c \<noteq> []" and "GetTraceID c \<noteq> []" and "GetPriority c \<in> set knownClasses" and "ctx_ok c"
    and "case GetCostBudget c of None \<Rightarrow> True | Some cb \<Rightarrow> is_float (Spent cb w)"
  shows "case FromProto now1 now2 now3 (ToProto c w) instanceID version w of (c', w') \<Rightarrow>
     GetSessionID c' = GetSessionID c \<and> GetUserID c' = GetUserID c \<and> GetExecutionID c' = GetExecutionID c \<and>
     GetParentExecutionID c' = GetParentExecutionID c \<and> GetTraceID c' = GetTraceID c \<and>
     GetPriority c' = GetPriority c \<and> GetMetadata k c' = GetMetadata k c \<and>
     map_option (\<lambda>cb. (cb_Limit cb, Spent cb w', cb_Currency cb)) (GetCostBudget c') =
       map_option (\<lambda>cb. (cb_Limit cb, Spent cb w, cb_Currency cb)) (GetCostBudget c) \<and>
     deadline c' =
       (let t = parseDeadline now2 (case deadline c of None \<Rightarrow> 0 | Some d \<Rightarrow> Milliseconds d)
        in if t > 0 then Some (now3 + t) else None)"
proof -
  have same: "pr_SessionID (ToProto c w) = GetSessionID c" "pr_UserID (ToProto c w) = GetUserID c"
    "pr_ExecutionID (ToProto c w) = GetExecutionID c" "pr_TraceID (ToProto c w) = GetTraceID c"
    "pr_ParentExecutionID (ToProto c w) = GetParentExecutionID c"
    "pr_DeadlineUnixMs (ToProto c w) = (case deadline c of None \<Rightarrow> 0 | Some d \<Rightarrow> Milliseconds d)"
    by (simp_all add: ToProto_def)
  have prio: "mapIntToPriority (pr_Priority (ToProto c w)) = GetPriority c"
    using assms(3) by (simp add: ToProto_def mapIntToPriority_inverse)
  have meta: "distinct (map fst (pr_Metadata (ToProto c w)))" "metadata_size (pr_Metadata (ToProto c w)) \<le> 4096"
    "map_of (pr_Metadata (ToProto c w)) k = GetMetadata k c"
    using assms(4) by (auto simp: ctx_ok_def request_ok_def GetMetadata_def ToProto_def copy_into_empty split: option.splits)
  have spent: "case pr_CostBudget (ToProto c w) of None \<Rightarrow> True | Some b \<Rightarrow> is_float (cp_Spent b)"
    using assms(5) by (simp add: ToProto_def split: option.splits)
  have named: "pr_ExecutionID (ToProto c w) \<noteq> []" "pr_TraceID (ToProto c w) \<noteq> []" using assms(1,2) by (simp_all add: same)
  obtain c' w' cb where made: "FromProto now1 now2 now3 (ToProto c w) instanceID version w = (c', w')"
    and layers: "getRequestLayer c' = Some \<lparr>rl_ExecutionID = GetExecutionID c, rl_ParentExecutionID = GetParentExecutionID c,
       rl_TraceID = GetTraceID c, rl_Deadline = deadline c', rl_Priority = GetPriority c, rl_CostBudget = cb, rl_Attempt = 1,
       rl_Metadata = pr_Metadata (ToProto c w)\<rparr>" "GetSessionID c' = GetSessionID c" "GetUserID c' = GetUserID c"
      "deadline c' = (let t = parseDeadline now2 (case deadline c of None \<Rightarrow> 0 | Some d \<Rightarrow> Milliseconds d)
        in if t > 0 then Some (now3 + t) else None)"
    and cb: "map_option (\<lambda>cb. (cb_Limit cb, Spent cb w', cb_Currency cb)) cb =
      map_option (\<lambda>b. (cp_Limit b, cp_Spent b, cp_Currency b)) (pr_CostBudget (ToProto c w))"
    by (rule FromProto_layers [OF named meta(1,2) spent refl, of now1 now2 now3 instanceID version w])
      (simp add: same prio Let_def)
  have "map_option (\<lambda>b. (cp_Limit b, cp_Spent b, cp_Currency b)) (pr_CostBudget (ToProto c w)) =
      map_option (\<lambda>cb. (cb_Limit cb, Spent cb w, cb_Currency cb)) (GetCostBudget c)"
    by (simp add: ToProto_def option.map_comp comp_def split: option.splits)
  then show ?thesis
    using layers(2,3,4) cb meta(3)
    by (simp add: made layers(1) GetExecutionID_def [of c'] GetParentExecutionID_def [of c'] GetTraceID_def [of c']
        GetPriority_def [of c'] GetMetadata_def [of _ c'] GetCostBudget_def [of c'])
qed

definition wire_budget :: cost_budget where
  "wire_budget = \<lparr>cb_Limit = 10, cb_spentBits = Some 0, cb_Currency = ''USD''\<rparr>"

definition wire_world :: world where
  "wire_world = initial_world\<lparr>cells := [1 / 2]\<rparr>"

definition wire_ctx :: ctx where
  "wire_ctx = WithCostBudget wire_budget (fst (WithMetadata ''k'' ''v''
     (WithExecution 0 ''e'' (5 * Second) PriorityClassHigh (fst (WithSession 0 ''s'' ''u'' (NewRootContext ''r'' ''1'') wire_world)))))"

lemma proto_roundtrip_witness:
  "case FromProto (1 * Second) (2 * Second) (2 * Second) (ToProto wire_ctx wire_world) ''i'' ''1'' wire_world of (c', w') \<Rightarrow>
     GetSessionID c' = ''s'' \<and> GetUserID c' = ''u'' \<and> GetExecutionID c' = ''e'' \<and> GetTraceID c' = ''tr-e'' \<and>
     GetPriority c' = PriorityClassHigh \<and> GetMetadata ''k'' c' = Some ''v'' \<and>
     map_option (\<lambda>cb. Spent cb w') (GetCostBudget c') = Some (1 / 2) \<and> deadline c' = Some (5 * Second)"
proof -
  have g: "GetSessionID wire_ctx = ''s''" "GetUserID wire_ctx = ''u''" "GetExecutionID wire_ctx = ''e''"
    "GetTraceID wire_ctx = ''tr-e''" "GetPriority wire_ctx = PriorityClassHigh" "GetMetadata ''k'' wire_ctx = Some ''v''"
    "GetCostBudget wire_ctx = Some wire_budget" "Spent wire_budget wire_world = 1 / 2" "fround (1 / 2) = 1 / 2"
    "deadline wire_ctx = Some (5 * Second)" "parseDeadline 2000000000 (Milliseconds 5000000000) = 3000000000"
    by code_simp+
  have "is_float (1 / 2)" using is_float_fround [of "1 / 2"] by (simp only: g(9))
  moreover have "PriorityClassHigh \<in> set knownClasses" by (simp add: knownClasses_def)
  moreover have "ctx_ok wire_ctx" by code_simp
  ultimately show ?thesis
    using proto_roundtrip [where c = wire_ctx and w = wire_world and ?now1.0 = "1 * Second" and ?now2.0 = "2 * Second" and
        ?now3.0 = "2 * Second" and instanceID = "''i''" and version = "''1''" and k = "''k''"]
    by (auto simp: g Let_def Second_def split: prod.splits)
qed

text \<open>
  Without an execution the message loses more: its trace, parent, priority and deadline are not read.
  A deadline that has passed comes back as none at all.
\<close>

lemma expired_deadline_dropped:
  "deadline (fst (FromProto now1 now2 now3 p i v w)) = None"
  if "parseDeadline now2 (pr_DeadlineUnixMs p) = 0" and "pr_Metadata p = []"
proof -
  have "deadline (fst (restore_budget b c w)) = deadline c" for b c w
    by (simp add: restore_budget_def NewCostBudget_def WithCostBudget_def Let_def split: option.split)
  moreover have "deadline (patch_request x y c) = deadline c" for x y c
    by (simp add: patch_request_def Let_def split: option.split)
  ultimately show ?thesis
    using that start_of_simps(2) [of now1 "pr_SessionID p" "pr_UserID p" i v w]
    by (auto simp: FromProto_def Let_def add_metadata_def deadline_WithExecution split: prod.split)
qed

end
