(* ===== verification/Runtime_Config.thy ===== *)
theory Runtime_Config
  imports Platform_Error Float64
begin

text \<open>
  \<open>core/config/manager.go\<close>: the configuration, its layers (defaults, file, environment, code), the
  interpolation of secrets and the validation.  The environment is a function from names to values, empty
  for a variable that is not set.  The file system and the YAML and JSON decoders are arguments.
\<close>

section \<open>Data\<close>

record concurrency_config =
  GlobalLimit :: int
  QueueSize :: int

record runtime_config =
  Environment :: string
  LogLevel :: string
  StartupTimeoutMS :: int
  ShutdownTimeoutMS :: int
  Concurrency :: concurrency_config

record provider_config =
  pc_Name :: string
  pc_Type :: string
  pc_APIKey :: string
  pc_TimeoutMS :: int

record lifecycle_config =
  RestartCooldownMS :: int
  AcceptWhenDegraded :: bool
  ExposeInternalErrors :: bool

record logging_config =
  lg_Level :: string
  lg_Format :: string
  lg_Sinks :: "string list"
  lg_FilePath :: string
  lg_OTLPEndpoint :: string
  lg_RedactionEnabled :: bool

record sampling_config =
  DefaultRate :: float64
  PriorityOverrides :: "(string \<times> float64) list"

record tracing_config =
  tr_Exporter :: string
  tr_Endpoint :: string
  tr_Sampling :: sampling_config

record metrics_config =
  mt_Exporter :: string
  mt_Endpoint :: string

record telemetry_config =
  Metrics :: metrics_config
  Tracing :: tracing_config

record config =
  Runtime :: runtime_config
  Lifecycle :: lifecycle_config
  Providers :: "provider_config list"
  MiddlewareOrder :: "string list"
  Logging :: logging_config
  Telemetry :: telemetry_config
  DebugMode :: bool
  DebugModeAcknowledgeProductionRisk :: bool

definition GetDefaultConfig :: config where
  "GetDefaultConfig =
     \<lparr>Runtime = \<lparr>Environment = ''development'', LogLevel = ''info'', StartupTimeoutMS = 10000, ShutdownTimeoutMS = 15000,
                 Concurrency = \<lparr>GlobalLimit = 10000, QueueSize = 5000\<rparr>\<rparr>,
      Lifecycle = \<lparr>RestartCooldownMS = 1000, AcceptWhenDegraded = True, ExposeInternalErrors = False\<rparr>,
      Providers = [],
      MiddlewareOrder = [''logging'', ''metrics''],
      Logging = \<lparr>lg_Level = ''info'', lg_Format = ''json'', lg_Sinks = [''stdout''], lg_FilePath = [], lg_OTLPEndpoint = [],
                 lg_RedactionEnabled = True\<rparr>,
      Telemetry =
        \<lparr>Metrics = \<lparr>mt_Exporter = ''prometheus'', mt_Endpoint = '':9090''\<rparr>,
         Tracing = \<lparr>tr_Exporter = ''otlp'', tr_Endpoint = ''https://collector.internal:4317'',
                    tr_Sampling = \<lparr>DefaultRate = fround (1 / 10),
                                   PriorityOverrides = [(''critical'', 1), (''high'', 1 / 2)]\<rparr>\<rparr>\<rparr>,
      DebugMode = False,
      DebugModeAcknowledgeProductionRisk = False\<rparr>"

section \<open>Strings\<close>

text \<open>\<open>strconv.Atoi\<close>: \<open>None\<close> for a syntax or a range error.\<close>

definition digit_of :: "char \<Rightarrow> int option" where
  "digit_of c = (let n = of_char c :: int in if 48 \<le> n \<and> n \<le> 57 then Some (n - 48) else None)"

fun digits_value :: "int \<Rightarrow> string \<Rightarrow> int option" where
  "digits_value acc [] = Some acc"
| "digits_value acc (c # cs) = (case digit_of c of None \<Rightarrow> None | Some d \<Rightarrow> digits_value (10 * acc + d) cs)"

definition in_range :: "int \<Rightarrow> int option" where
  "in_range n = (if int64 n then Some n else None)"

definition Atoi :: "string \<Rightarrow> int option" where
  "Atoi s =
     (case s of
        [] \<Rightarrow> None
      | c # cs \<Rightarrow>
          (let ds = (if c = CHR ''-'' \<or> c = CHR ''+'' then cs else s)
           in if ds = [] then None
              else case digits_value 0 ds of
                     None \<Rightarrow> None
                   | Some n \<Rightarrow> in_range (if c = CHR ''-'' then - n else n)))"

text \<open>The verb \<open>%q\<close>, exact on ASCII.\<close>

definition quote_char :: "char \<Rightarrow> string" where
  "quote_char c =
     (let n = of_char c :: nat
      in if c = CHR 0x22 then [CHR 0x5C, CHR 0x22]
         else if c = CHR 0x5C then [CHR 0x5C, CHR 0x5C]
         else if n = 7 then [CHR 0x5C, CHR ''a''] else if n = 8 then [CHR 0x5C, CHR ''b'']
         else if n = 9 then [CHR 0x5C, CHR ''t''] else if n = 10 then [CHR 0x5C, CHR ''n'']
         else if n = 11 then [CHR 0x5C, CHR ''v''] else if n = 12 then [CHR 0x5C, CHR ''f'']
         else if n = 13 then [CHR 0x5C, CHR ''r'']
         else if n < 32 \<or> n = 127 then [CHR 0x5C, CHR ''x''] @ hex_pad 2 n
         else [c])"

definition quoted :: "string \<Rightarrow> string" where
  "quoted s = [CHR 0x22] @ concat (map quote_char s) @ [CHR 0x22]"

text \<open>
  The expression that finds secrets: an opening mark, a name of at least one byte other than the
  closing brace, the brace.  \<open>secret_at\<close> matches it at the start of a string.
\<close>

definition secret_at :: "string \<Rightarrow> (string \<times> string) option" where
  "secret_at s =
     (if has_prefix ''${secret:'' s then
        (let t = drop (length ''${secret:'') s;
             key = takeWhile (\<lambda>c. c \<noteq> CHR ''}'') t;
             rest = dropWhile (\<lambda>c. c \<noteq> CHR ''}'') t
         in if key = [] \<or> rest = [] then None else Some (key, tl rest))
      else None)"

fun has_secret :: "string \<Rightarrow> bool" where
  "has_secret [] = False"
| "has_secret (c # cs) = (secret_at (c # cs) \<noteq> None \<or> has_secret cs)"

lemma secret_at_shorter: "secret_at s = Some (key, rest) \<Longrightarrow> length rest < length s"
proof -
  assume a: "secret_at s = Some (key, rest)"
  let ?t = "drop (length ''${secret:'') s"
  from a have r: "rest = tl (dropWhile (\<lambda>c. c \<noteq> CHR ''}'') ?t)" "dropWhile (\<lambda>c. c \<noteq> CHR ''}'') ?t \<noteq> []"
    by (auto simp: secret_at_def Let_def split: if_splits)
  then have "length rest < length (dropWhile (\<lambda>c. c \<noteq> CHR ''}'') ?t)" by simp
  also have "\<dots> \<le> length ?t" by (rule length_dropWhile_le)
  also have "\<dots> \<le> length s" by simp
  finally show ?thesis .
qed

function InterpolateSecrets :: "(string \<Rightarrow> string) \<Rightarrow> string \<Rightarrow> string" where
  "InterpolateSecrets env [] = []"
| "InterpolateSecrets env (c # cs) =
     (case secret_at (c # cs) of
        None \<Rightarrow> c # InterpolateSecrets env cs
      | Some (key, rest) \<Rightarrow>
          (let envVal = env key
           in (if envVal \<noteq> [] then envVal else ''${secret:'' @ key @ ''}'') @ InterpolateSecrets env rest))"
  by pat_completeness auto
termination
  by (relation "measure (\<lambda>(env, s). length s)") (auto dest: secret_at_shorter)

section \<open>Layers\<close>

record loader =
  ld_open :: "string \<Rightarrow> go_error option"
  ld_read :: "string \<Rightarrow> go_error + string"
  ld_yaml :: "string \<Rightarrow> config \<Rightarrow> go_error + config"
  ld_json :: "string \<Rightarrow> config \<Rightarrow> go_error + config"

definition loadFromFile :: "loader \<Rightarrow> string \<Rightarrow> config \<Rightarrow> go_error + config" where
  "loadFromFile ld filePath cfg =
     (if filePath = [] then Inr cfg
      else case ld_open ld filePath of
             Some err \<Rightarrow> Inl (NewError ErrCategoryConfig (''failed to open config file: '' @ filePath) False (Some err))
           | None \<Rightarrow>
               (case ld_read ld filePath of
                  Inl err \<Rightarrow> Inl (NewError ErrCategoryConfig ''failed to read config file'' False (Some err))
                | Inr data \<Rightarrow>
                    if has_suffix ''.yaml'' filePath \<or> has_suffix ''.yml'' filePath then
                      (case ld_yaml ld data cfg of
                         Inl err \<Rightarrow> Inl (NewError ErrCategoryConfig ''failed to parse YAML config file'' False (Some err))
                       | Inr cfg \<Rightarrow> Inr cfg)
                    else
                      (case ld_json ld data cfg of
                         Inl err \<Rightarrow> Inl (NewError ErrCategoryConfig ''failed to parse JSON config file'' False (Some err))
                       | Inr cfg \<Rightarrow> Inr cfg)))"

definition getEnvInt :: "(string \<Rightarrow> string) \<Rightarrow> string \<Rightarrow> int option" where
  "getEnvInt env key = (if env key = [] then None else Atoi (env key))"

text \<open>The three kinds of assignment to a field that the environment makes.\<close>

definition env_string :: "(string \<Rightarrow> string) \<Rightarrow> string \<Rightarrow> string \<Rightarrow> string" where
  "env_string env key old = (if env key \<noteq> [] then env key else old)"

definition env_int :: "(string \<Rightarrow> string) \<Rightarrow> string \<Rightarrow> int \<Rightarrow> int" where
  "env_int env key old = (case getEnvInt env key of Some val \<Rightarrow> val | None \<Rightarrow> old)"

definition env_bool :: "(string \<Rightarrow> string) \<Rightarrow> string \<Rightarrow> bool \<Rightarrow> bool" where
  "env_bool env key old = (if env key \<noteq> [] then to_lower (env key) = ''true'' else old)"

definition overrideFromEnv :: "(string \<Rightarrow> string) \<Rightarrow> config \<Rightarrow> config" where
  "overrideFromEnv env cfg =
     (let rt = Runtime cfg; cc = Concurrency rt; lc = Lifecycle cfg
      in cfg\<lparr>
        Runtime := rt\<lparr>
          Environment := env_string env ''RUNTIME_ENVIRONMENT'' (Environment rt),
          LogLevel := env_string env ''RUNTIME_LOG_LEVEL'' (LogLevel rt),
          StartupTimeoutMS := env_int env ''RUNTIME_STARTUP_TIMEOUT'' (StartupTimeoutMS rt),
          ShutdownTimeoutMS := env_int env ''RUNTIME_SHUTDOWN_TIMEOUT'' (ShutdownTimeoutMS rt),
          Concurrency := \<lparr>GlobalLimit = env_int env ''RUNTIME_GLOBAL_LIMIT'' (GlobalLimit cc),
                          QueueSize = env_int env ''RUNTIME_QUEUE_SIZE'' (QueueSize cc)\<rparr>\<rparr>,
        Lifecycle := \<lparr>
          RestartCooldownMS = env_int env ''LIFECYCLE_RESTART_COOLDOWN'' (RestartCooldownMS lc),
          AcceptWhenDegraded = env_bool env ''LIFECYCLE_ACCEPT_WHEN_DEGRADED'' (AcceptWhenDegraded lc),
          ExposeInternalErrors = env_bool env ''LIFECYCLE_EXPOSE_INTERNAL_ERRORS'' (ExposeInternalErrors lc)\<rparr>,
        DebugMode := env_bool env ''RUNTIME_DEBUG_MODE'' (DebugMode cfg),
        DebugModeAcknowledgeProductionRisk :=
          env_bool env ''RUNTIME_DEBUG_MODE_ACKNOWLEDGE_PRODUCTION_RISK'' (DebugModeAcknowledgeProductionRisk cfg)\<rparr>)"

text \<open>\<open>if new is not the zero value { old = new }\<close>.\<close>

definition override :: "'a \<Rightarrow> 'a \<Rightarrow> 'a \<Rightarrow> 'a" where
  "override zero new old = (if new \<noteq> zero then new else old)"

definition applyRuntimeOverrides :: "config \<Rightarrow> config \<Rightarrow> config" where
  "applyRuntimeOverrides cfg ov =
     (let rt = Runtime cfg; ort = Runtime ov
      in cfg\<lparr>Runtime := \<lparr>
          Environment = override [] (Environment ort) (Environment rt),
          LogLevel = override [] (LogLevel ort) (LogLevel rt),
          StartupTimeoutMS = override 0 (StartupTimeoutMS ort) (StartupTimeoutMS rt),
          ShutdownTimeoutMS = override 0 (ShutdownTimeoutMS ort) (ShutdownTimeoutMS rt),
          Concurrency = \<lparr>
            GlobalLimit = override 0 (GlobalLimit (Concurrency ort)) (GlobalLimit (Concurrency rt)),
            QueueSize = override 0 (QueueSize (Concurrency ort)) (QueueSize (Concurrency rt))\<rparr>\<rparr>\<rparr>)"

definition zero_lifecycle :: lifecycle_config where
  "zero_lifecycle = \<lparr>RestartCooldownMS = 0, AcceptWhenDegraded = False, ExposeInternalErrors = False\<rparr>"

definition applyLifecycleOverrides :: "config \<Rightarrow> config \<Rightarrow> config" where
  "applyLifecycleOverrides cfg ov =
     (let cfg = (if Lifecycle ov \<noteq> zero_lifecycle
                 then cfg\<lparr>Lifecycle := \<lparr>
                        RestartCooldownMS = override 0 (RestartCooldownMS (Lifecycle ov)) (RestartCooldownMS (Lifecycle cfg)),
                        AcceptWhenDegraded = AcceptWhenDegraded (Lifecycle ov),
                        ExposeInternalErrors = ExposeInternalErrors (Lifecycle ov)\<rparr>\<rparr>
                 else cfg)
      in cfg\<lparr>Providers := override [] (Providers ov) (Providers cfg),
             MiddlewareOrder := override [] (MiddlewareOrder ov) (MiddlewareOrder cfg)\<rparr>)"

definition applyLoggingOverrides :: "config \<Rightarrow> config \<Rightarrow> config" where
  "applyLoggingOverrides cfg ov =
     (let lg = Logging cfg; olg = Logging ov
      in cfg\<lparr>Logging := \<lparr>
          lg_Level = override [] (lg_Level olg) (lg_Level lg),
          lg_Format = override [] (lg_Format olg) (lg_Format lg),
          lg_Sinks = override [] (lg_Sinks olg) (lg_Sinks lg),
          lg_FilePath = override [] (lg_FilePath olg) (lg_FilePath lg),
          lg_OTLPEndpoint = override [] (lg_OTLPEndpoint olg) (lg_OTLPEndpoint lg),
          lg_RedactionEnabled = lg_RedactionEnabled olg\<rparr>\<rparr>)"

definition applyTelemetryOverrides :: "config \<Rightarrow> config \<Rightarrow> config" where
  "applyTelemetryOverrides cfg ov =
     (let m = Metrics (Telemetry cfg); om = Metrics (Telemetry ov);
          t = Tracing (Telemetry cfg); ot = Tracing (Telemetry ov)
      in cfg\<lparr>Telemetry := \<lparr>
          Metrics = \<lparr>mt_Exporter = override [] (mt_Exporter om) (mt_Exporter m),
                     mt_Endpoint = override [] (mt_Endpoint om) (mt_Endpoint m)\<rparr>,
          Tracing = \<lparr>
            tr_Exporter = override [] (tr_Exporter ot) (tr_Exporter t),
            tr_Endpoint = override [] (tr_Endpoint ot) (tr_Endpoint t),
            tr_Sampling = \<lparr>
              DefaultRate = override 0 (DefaultRate (tr_Sampling ot)) (DefaultRate (tr_Sampling t)),
              PriorityOverrides = override [] (PriorityOverrides (tr_Sampling ot)) (PriorityOverrides (tr_Sampling t))\<rparr>\<rparr>\<rparr>\<rparr>)"

definition applyCodeOverrides :: "config \<Rightarrow> config option \<Rightarrow> config" where
  "applyCodeOverrides cfg codeOverrides =
     (case codeOverrides of
        None \<Rightarrow> cfg
      | Some ov \<Rightarrow>
          (applyTelemetryOverrides (applyLoggingOverrides (applyLifecycleOverrides (applyRuntimeOverrides cfg ov) ov) ov) ov)
            \<lparr>DebugMode := DebugMode ov,
             DebugModeAcknowledgeProductionRisk := DebugModeAcknowledgeProductionRisk ov\<rparr>)"

section \<open>Validation\<close>

abbreviation when_text :: "bool \<Rightarrow> string \<Rightarrow> string list" where
  "when_text b msg \<equiv> (if b then [msg] else [])"

definition validateRuntime :: "config \<Rightarrow> string list \<Rightarrow> string list" where
  "validateRuntime c errs =
     (let rt = Runtime c; cc = Concurrency rt
      in errs @
         when_text (to_lower (LogLevel rt) \<notin> set [''debug'', ''info'', ''warn'', ''error'', ''fatal''])
           (''invalid log_level: '' @ quoted (LogLevel rt)) @
         when_text (StartupTimeoutMS rt \<le> 0)
           (''startup_timeout_ms must be positive, got: '' @ show_int (StartupTimeoutMS rt)) @
         when_text (ShutdownTimeoutMS rt \<le> 0)
           (''shutdown_timeout_ms must be positive, got: '' @ show_int (ShutdownTimeoutMS rt)) @
         when_text (GlobalLimit cc \<le> 0) (''global_limit must be positive, got: '' @ show_int (GlobalLimit cc)) @
         when_text (QueueSize cc < 0) (''queue_size must be non-negative, got: '' @ show_int (QueueSize cc)))"

definition validateLifecycle :: "config \<Rightarrow> string list \<Rightarrow> string list" where
  "validateLifecycle c errs =
     errs @ when_text (RestartCooldownMS (Lifecycle c) \<le> 0)
       (''restart_cooldown_ms must be positive, got: '' @ show_int (RestartCooldownMS (Lifecycle c)))"

fun validate_providers :: "nat \<Rightarrow> provider_config list \<Rightarrow> string list" where
  "validate_providers i [] = []"
| "validate_providers i (p # ps) =
     (let item = ''provider['' @ show_int (int i) @ '']''
      in when_text (pc_Name p = []) (item @ ''.name cannot be empty'') @
         when_text (pc_Type p = []) (item @ ''.type cannot be empty'') @
         when_text (has_secret (pc_APIKey p))
           (item @ '' API key secret placeholder '' @ quoted (pc_APIKey p) @ '' could not be resolved'')) @
     validate_providers (i + 1) ps"

definition validateProviders :: "config \<Rightarrow> string list \<Rightarrow> string list" where
  "validateProviders c errs = errs @ validate_providers 0 (Providers c)"

definition validateDebugMode :: "config \<Rightarrow> string list \<Rightarrow> string list" where
  "validateDebugMode c errs =
     errs @ when_text (DebugMode c \<and> to_lower (Environment (Runtime c)) = ''production'' \<and>
                       \<not> DebugModeAcknowledgeProductionRisk c)
       ''debug mode is enabled in production environment without acknowledgment of risk (debug_mode_acknowledge_production_risk: true)''"

definition Validate :: "config \<Rightarrow> go_error option" where
  "Validate c =
     (let errs = validateDebugMode c (validateProviders c (validateLifecycle c (validateRuntime c [])))
      in if length errs > 0
         then Some (NewError ErrCategoryConfig (''configuration validation failed: '' @ join_with ''; '' errs) False None)
         else None)"

definition LoadConfig :: "loader \<Rightarrow> (string \<Rightarrow> string) \<Rightarrow> string \<Rightarrow> config option \<Rightarrow> go_error + config" where
  "LoadConfig ld env filePath codeOverrides =
     (case loadFromFile ld filePath GetDefaultConfig of
        Inl err \<Rightarrow> Inl err
      | Inr cfg \<Rightarrow>
          let cfg = overrideFromEnv env cfg;
              cfg = applyCodeOverrides cfg codeOverrides;
              cfg = cfg\<lparr>Providers := map (\<lambda>p. p\<lparr>pc_APIKey := InterpolateSecrets env (pc_APIKey p)\<rparr>) (Providers cfg)\<rparr>
          in case Validate cfg of
               Some err \<Rightarrow> Inl err
             | None \<Rightarrow> Inr cfg)"

section \<open>What validation accepts\<close>

text \<open>The contract of a configuration that is used.\<close>

definition valid_provider :: "provider_config \<Rightarrow> bool" where
  "valid_provider p \<longleftrightarrow> pc_Name p \<noteq> [] \<and> pc_Type p \<noteq> [] \<and> \<not> has_secret (pc_APIKey p)"

definition valid_config :: "config \<Rightarrow> bool" where
  "valid_config c \<longleftrightarrow>
     to_lower (LogLevel (Runtime c)) \<in> {''debug'', ''info'', ''warn'', ''error'', ''fatal''} \<and>
     0 < StartupTimeoutMS (Runtime c) \<and> 0 < ShutdownTimeoutMS (Runtime c) \<and>
     0 < GlobalLimit (Concurrency (Runtime c)) \<and> 0 \<le> QueueSize (Concurrency (Runtime c)) \<and>
     0 < RestartCooldownMS (Lifecycle c) \<and>
     list_all valid_provider (Providers c) \<and>
     (DebugMode c \<longrightarrow> to_lower (Environment (Runtime c)) = ''production'' \<longrightarrow> DebugModeAcknowledgeProductionRisk c)"

lemma validate_providers_Nil: "validate_providers i ps = [] \<longleftrightarrow> list_all valid_provider ps"
  by (induction i ps rule: validate_providers.induct) (auto simp: Let_def valid_provider_def)

lemma no_errors_iff:
  "validateDebugMode c (validateProviders c (validateLifecycle c (validateRuntime c []))) = [] \<longleftrightarrow> valid_config c"
  unfolding validateDebugMode_def validateProviders_def validateLifecycle_def validateRuntime_def Let_def valid_config_def
  by (auto simp: validate_providers_Nil not_le not_less)

text \<open>
  \<open>Validate\<close> returns no error exactly for a configuration that keeps the contract: a known log
  level, positive timeouts, limit and cooldown, a queue that is not negative, named and typed providers
  whose keys hold no unresolved secret, and no debug mode in production unless it is acknowledged.
\<close>
theorem Validate_exact: "(Validate c = None) = valid_config c"
  by (simp add: Validate_def Let_def no_errors_iff)

section \<open>Secrets\<close>

lemma interpolate_plain: "\<not> has_secret s \<Longrightarrow> InterpolateSecrets env s = s"
proof (induction s)
  case (Cons c s)
  then have "secret_at (c # s) = None" by (cases "secret_at (c # s)") auto
  with Cons show ?case by simp
qed simp

lemma secret_at_plain: "c \<noteq> CHR ''$'' \<Longrightarrow> secret_at (c # cs) = None"
  by (simp add: secret_at_def)

lemma secret_at_placeholder:
  assumes "CHR ''}'' \<notin> set key" and "key \<noteq> []"
  shows "secret_at (''${secret:'' @ key @ CHR ''}'' # rest) = Some (key, rest)"
proof -
  have "takeWhile (\<lambda>c. c \<noteq> CHR ''}'') (key @ CHR ''}'' # rest) = key"
    "dropWhile (\<lambda>c. c \<noteq> CHR ''}'') (key @ CHR ''}'' # rest) = CHR ''}'' # rest"
    using assms(1) by (induction key) auto
  then show ?thesis using assms(2) by (simp add: secret_at_def)
qed

text \<open>A placeholder in the text is replaced by the variable's value, or kept when that is empty.\<close>

lemma interpolate_placeholder:
  assumes "CHR ''$'' \<notin> set pre" and "CHR ''}'' \<notin> set key" and "key \<noteq> []"
  shows "InterpolateSecrets env (pre @ ''${secret:'' @ key @ CHR ''}'' # rest) =
     pre @ (if env key \<noteq> [] then env key else ''${secret:'' @ key @ ''}'') @ InterpolateSecrets env rest"
  using assms(1)
proof (induction pre)
  case Nil
  show ?case using secret_at_placeholder [OF assms(2,3), of rest] by (simp add: Let_def)
next
  case (Cons c pre)
  then have "secret_at (c # x) = None" for x by (intro secret_at_plain) auto
  then show ?case using Cons by simp
qed

section \<open>Loading\<close>

lemma Category_Validate: "Validate c = Some e \<Longrightarrow> Category e = ErrCategoryConfig"
  by (auto simp: Validate_def Let_def split: if_splits)

lemma Category_loadFromFile: "loadFromFile ld path c = Inl e \<Longrightarrow> Category e = ErrCategoryConfig"
  by (auto simp: loadFromFile_def split: if_splits option.splits sum.splits)

text \<open>The value of a field: the code's unless that is zero, else the environment's, else the file's or the default.\<close>

definition by_code :: "config option \<Rightarrow> (config \<Rightarrow> 'a) \<Rightarrow> 'a \<Rightarrow> 'a \<Rightarrow> 'a" where
  "by_code ov f zero old = (case ov of None \<Rightarrow> old | Some c \<Rightarrow> if f c = zero then old else f c)"


text \<open>A loader without files, and overrides that set the log level only.\<close>

definition no_files :: loader where
  "no_files = \<lparr>ld_open = (\<lambda>_. Some (GoError ''no such file'')), ld_read = (\<lambda>_. Inl (GoError ''no such file'')),
     ld_yaml = (\<lambda>_ c. Inr c), ld_json = (\<lambda>_ c. Inr c)\<rparr>"

definition zero_config :: config where
  "zero_config =
     \<lparr>Runtime = \<lparr>Environment = [], LogLevel = [], StartupTimeoutMS = 0, ShutdownTimeoutMS = 0,
                 Concurrency = \<lparr>GlobalLimit = 0, QueueSize = 0\<rparr>\<rparr>,
      Lifecycle = zero_lifecycle, Providers = [], MiddlewareOrder = [],
      Logging = \<lparr>lg_Level = [], lg_Format = [], lg_Sinks = [], lg_FilePath = [], lg_OTLPEndpoint = [], lg_RedactionEnabled = False\<rparr>,
      Telemetry = \<lparr>Metrics = \<lparr>mt_Exporter = [], mt_Endpoint = []\<rparr>,
         Tracing = \<lparr>tr_Exporter = [], tr_Endpoint = [], tr_Sampling = \<lparr>DefaultRate = 0, PriorityOverrides = []\<rparr>\<rparr>\<rparr>,
      DebugMode = False, DebugModeAcknowledgeProductionRisk = False\<rparr>"

definition only_log_level :: config where
  "only_log_level = zero_config\<lparr>Runtime := (Runtime zero_config)\<lparr>LogLevel := ''warn''\<rparr>\<rparr>"

definition flags_of :: "go_error + config \<Rightarrow> (string \<times> bool \<times> bool) option" where
  "flags_of x = (case x of Inl _ \<Rightarrow> None
     | Inr c \<Rightarrow> Some (LogLevel (Runtime c), lg_RedactionEnabled (Logging c), DebugMode c))"

definition debug_env :: "string \<Rightarrow> string" where
  "debug_env key = (if key = ''RUNTIME_DEBUG_MODE'' then ''true'' else [])"

text \<open>
  Code overrides do more than they set.  Overrides that ask for a log level alone also clear
  the redaction flag, against the default, and the debug mode that the environment asks for.
\<close>
theorem overrides_reset_flags:
  "flags_of (LoadConfig no_files debug_env [] None) = Some (''info'', True, True) \<and>
   flags_of (LoadConfig no_files debug_env [] (Some only_log_level)) = Some (''warn'', False, False)"
  by (intro conjI; code_simp)

end
