(* ===== verification/Middleware.thy ===== *)
theory Middleware
  imports Execution Rt_Context Runtime_Config
begin

text \<open>
  \<open>core/middleware\<close>: the pipeline and the seven middlewares.  A handler takes a context, a request and
  the state, and returns a result and an error.  The state holds what the middlewares keep between
  calls: the cache, the rate limiter's buckets, the lines they log, the counters they increment, the
  clock as the sequence of its readings, and the state \<open>mw_core\<close> of the code they wrap.
\<close>

section \<open>Handlers\<close>

record token_bucket =
  tokens :: float64
  lastTick :: instant

datatype mw_effect = LogInfo string | CountInc string string string

record 'c mw_state =
  cache :: "string \<rightharpoonup> exec_result"
  buckets :: "string \<rightharpoonup> token_bucket"
  mw_effects :: "mw_effect list"
  clock :: "nat \<Rightarrow> instant"
  readings :: nat
  mw_world :: world
  mw_core :: 'c

type_synonym 'c answer = "(exec_result option \<times> go_error option) \<times> 'c mw_state"
type_synonym 'c handler = "ctx \<Rightarrow> request \<Rightarrow> 'c mw_state \<Rightarrow> 'c answer"

definition time_now :: "'c mw_state \<Rightarrow> instant \<times> 'c mw_state" where
  "time_now st = (clock st (readings st), st\<lparr>readings := readings st + 1\<rparr>)"

definition effect :: "mw_effect \<Rightarrow> 'c mw_state \<Rightarrow> 'c mw_state" where
  "effect e st = st\<lparr>mw_effects := mw_effects st @ [e]\<rparr>"

text \<open>The result by which a middleware turns a request away.\<close>

definition rejected :: "request \<Rightarrow> error_category \<Rightarrow> string \<Rightarrow> bool \<Rightarrow> exec_result" where
  "rejected req category message retryable =
     bare_result (rq_ID req) StatusFailed ExecStateFailed
       (Some \<lparr>ee_Category = category, ee_Message = message, ee_Retryable = retryable\<rparr>)"

section \<open>The pipeline\<close>

type_synonym capability = string

datatype failure_mode = FailClosed | FailOpen

record 'c middleware =
  mw_Name :: string
  mw_Dependencies :: "capability list"
  mw_Provides :: "capability list"
  mw_FailureMode :: failure_mode
  mw_Handle :: "ctx \<Rightarrow> request \<Rightarrow> 'c handler \<Rightarrow> 'c mw_state \<Rightarrow> 'c answer"

definition NewPipeline :: "'c middleware list \<Rightarrow> 'c middleware list" where
  "NewPipeline middlewares = middlewares"

definition PipelineRegister :: "'c middleware \<Rightarrow> 'c middleware list \<Rightarrow> 'c middleware list" where
  "PipelineRegister m p = p @ [m]"

text \<open>\<open>Validate\<close>: the loops over the dependencies, over the capabilities provided, over the chain.\<close>

fun check_dependencies :: "string \<Rightarrow> (capability \<Rightarrow> bool) \<Rightarrow> capability list \<Rightarrow> string option" where
  "check_dependencies name provided [] = None"
| "check_dependencies name provided (dep # deps) =
     (if \<not> provided dep
      then Some (''unsatisfied dependency: middleware '' @ name @ '' depends on capability '' @ dep @
                 '' which is not provided by any earlier middleware in the chain'')
      else check_dependencies name provided deps)"

fun add_capabilities :: "(capability \<Rightarrow> bool) \<Rightarrow> capability list \<Rightarrow> string + (capability \<Rightarrow> bool)" where
  "add_capabilities provided [] = Inr provided"
| "add_capabilities provided (prov # provs) =
     (if provided prov
      then Inl (''duplicate capability provider: capability '' @ prov @ '' is provided by multiple middlewares'')
      else add_capabilities (provided(prov := True)) provs)"

fun validate_loop :: "(capability \<Rightarrow> bool) \<Rightarrow> 'c middleware list \<Rightarrow> string option" where
  "validate_loop provided [] = None"
| "validate_loop provided (mw # mws) =
     (case check_dependencies (mw_Name mw) provided (mw_Dependencies mw) of
        Some err \<Rightarrow> Some err
      | None \<Rightarrow>
          (case add_capabilities provided (mw_Provides mw) of
             Inl err \<Rightarrow> Some err
           | Inr provided \<Rightarrow> validate_loop provided mws))"

definition PipelineValidate :: "'c middleware list \<Rightarrow> string option" where
  "PipelineValidate p = validate_loop (\<lambda>_. False) p"

text \<open>\<open>for i := len(p.middlewares) - 1; i >= 0; i--\<close>: \<open>i\<close> counts the middlewares that are left.\<close>

fun wrap_loop :: "nat \<Rightarrow> 'c middleware list \<Rightarrow> 'c handler \<Rightarrow> 'c handler" where
  "wrap_loop 0 p handler = handler"
| "wrap_loop (Suc i) p handler =
     (let mw = p ! i in wrap_loop i p (\<lambda>c req. mw_Handle mw c req handler))"

definition Wrap :: "'c middleware list \<Rightarrow> 'c handler \<Rightarrow> 'c handler" where
  "Wrap p coreHandler = wrap_loop (length p) p coreHandler"

section \<open>Authentication and authorization\<close>

type_synonym verifier = "string \<Rightarrow> go_error + (string \<times> string \<times> string entries)"

definition metadata_value :: "string \<Rightarrow> request \<Rightarrow> string" where
  "metadata_value key req =
     (case rq_Metadata req of None \<Rightarrow> [] | Some m \<Rightarrow> (case m key of None \<Rightarrow> [] | Some v \<Rightarrow> v))"

definition token_of :: "request \<Rightarrow> string" where
  "token_of req =
     (let token = metadata_value ''auth-token'' req
      in if token = [] then metadata_value ''Authorization'' req else token)"

definition AuthenticationHandle :: "verifier \<Rightarrow> ctx \<Rightarrow> request \<Rightarrow> 'c handler \<Rightarrow> 'c mw_state \<Rightarrow> 'c answer" where
  "AuthenticationHandle verify c req handler st =
     (let token = token_of req
      in if token = [] then ((Some (rejected req ErrCategoryAuth ''missing authentication token'' False), None), st)
         else case verify token of
                Inl err \<Rightarrow> ((Some (rejected req ErrCategoryAuth (''authentication failed: '' @ Error err) False), None), st)
              | Inr (userID, orgID, claims) \<Rightarrow> handler (WithUser userID orgID claims c) req st)"

definition AuthorizationHandle :: "ctx \<Rightarrow> request \<Rightarrow> 'c handler \<Rightarrow> 'c mw_state \<Rightarrow> 'c answer" where
  "AuthorizationHandle c req handler st =
     (let unknown = ((Some (rejected req ErrCategoryAuth ''unauthorized: user identity not found'' False), None), st)
      in case GetUserLayer c of
           None \<Rightarrow> unknown
         | Some ul \<Rightarrow>
             if ul_UserID ul = [] then unknown
             else
               let role = (case map_of (ul_Claims ul) ''role'' of Some r \<Rightarrow> r | None \<Rightarrow> [])
               in if rq_Priority req = PriorityClassCritical \<and> role \<noteq> ''admin''
                  then ((Some (rejected req ErrCategoryAuth
                           ''unauthorized: critical priority class requires admin privileges'' False), None), st)
                  else handler c req st)"

section \<open>Caching\<close>

definition cacheKey :: "string \<Rightarrow> string \<Rightarrow> any \<Rightarrow> string" where
  "cacheKey userID providerRef payload = userID @ '':'' @ providerRef @ '':'' @ show_any payload"

definition CachingHandle :: "ctx \<Rightarrow> request \<Rightarrow> 'c handler \<Rightarrow> 'c mw_state \<Rightarrow> 'c answer" where
  "CachingHandle c req handler st =
     (let key = cacheKey (GetUserID c) (rq_ProviderRef req) (rq_Payload req)
      in case cache st key of
           Some cachedRes \<Rightarrow> ((Some cachedRes, None), st)
         | None \<Rightarrow>
             (case handler c req st of
                ((res, err), st) \<Rightarrow>
                  ((res, err),
                   case (err, res) of
                     (None, Some r) \<Rightarrow> if er_Status r = StatusSucceeded then st\<lparr>cache := (cache st)(key \<mapsto> r)\<rparr> else st
                   | _ \<Rightarrow> st)))"

section \<open>Logging and counting\<close>

text \<open>\<open>Duration.String\<close>.\<close>

definition digits :: "nat \<Rightarrow> string" where
  "digits n = show_int (int n)"

definition frac_text :: "nat \<Rightarrow> nat \<Rightarrow> string" where
  "frac_text prec v =
     (let ds = digits (v mod 10 ^ prec);
          ds = replicate (prec - length ds) CHR ''0'' @ ds;
          ds = rev (dropWhile (\<lambda>c. c = CHR ''0'') (rev ds))
      in if ds = [] then [] else CHR ''.'' # ds)"

definition show_duration :: "duration \<Rightarrow> string" where
  "show_duration d =
     (let u = nat \<bar>d\<bar>;
          scaled = (\<lambda>prec. digits (u div 10 ^ prec) @ frac_text prec u);
          body =
            (if u = 0 then ''0s''
             else if u < 1000 then digits u @ ''ns''
             else if u < 1000000 then scaled 3 @ [CHR 0xC2, CHR 0xB5, CHR ''s'']
             else if u < 1000000000 then scaled 6 @ ''ms''
             else
               let s = u div 1000000000; m = s div 60; h = m div 60
               in (if h > 0 then digits h @ ''h'' else []) @ (if m > 0 then digits (m mod 60) @ ''m'' else []) @
                  digits (s mod 60) @ frac_text 9 u @ ''s'')
      in if d < 0 then CHR ''-'' # body else body)"

text \<open>\<open>has_logger\<close> and \<open>has_telemetry\<close> say that the interface value is not nil.\<close>

definition LoggingHandle :: "bool \<Rightarrow> ctx \<Rightarrow> request \<Rightarrow> 'c handler \<Rightarrow> 'c mw_state \<Rightarrow> 'c answer" where
  "LoggingHandle has_logger c req handler st =
     (let (start, st) = time_now st;
          st = (if has_logger then effect (LogInfo (''middleware: starting execution request '' @ rq_ID req)) st else st);
          ((res, err), st) = handler c req st;
          st = (if has_logger then
                  let (now, st) = time_now st;
                      status = (case res of None \<Rightarrow> ''Unknown'' | Some r \<Rightarrow> er_Status r)
                  in effect (LogInfo (''middleware: finished execution request '' @ rq_ID req @ '' in '' @
                       show_duration (time_sub now start) @ '' with status '' @ status)) st
                else st)
      in ((res, err), st))"

definition TelemetryHandle :: "bool \<Rightarrow> ctx \<Rightarrow> request \<Rightarrow> 'c handler \<Rightarrow> 'c mw_state \<Rightarrow> 'c answer" where
  "TelemetryHandle has_telemetry c req handler st =
     handler c req (if has_telemetry then effect (CountInc ''middleware_executions_total'' ''name'' ''Telemetry'') st else st)"

section \<open>The cost guard\<close>

text \<open>
  \<open>strconv.ParseFloat\<close> on decimal numerals: a sign, digits with at most one point, an exponent.  The
  forms that name infinities, NaN or hexadecimal numbers have no value here.  A number that rounds
  beyond the largest finite one is a range error.
\<close>

fun span_digits :: "int \<Rightarrow> nat \<Rightarrow> string \<Rightarrow> int \<times> nat \<times> string" where
  "span_digits acc n [] = (acc, n, [])"
| "span_digits acc n (c # cs) =
     (case digit_of c of None \<Rightarrow> (acc, n, c # cs) | Some d \<Rightarrow> span_digits (10 * acc + d) (n + 1) cs)"

definition scale10 :: "int \<Rightarrow> rat" where
  "scale10 e = (if 0 \<le> e then 10 ^ nat e else 1 / 10 ^ nat (- e))"

definition parse_exponent :: "string \<Rightarrow> int option" where
  "parse_exponent s =
     (case s of
        [] \<Rightarrow> Some 0
      | c # cs \<Rightarrow>
          if c \<noteq> CHR ''e'' \<and> c \<noteq> CHR ''E'' then None
          else
            let neg = (cs \<noteq> [] \<and> hd cs = CHR ''-'');
                ds = (if cs \<noteq> [] \<and> (hd cs = CHR ''-'' \<or> hd cs = CHR ''+'') then tl cs else cs)
            in case span_digits 0 0 ds of
                 (e, n, rest) \<Rightarrow> if n = 0 \<or> rest \<noteq> [] then None else Some (if neg then - e else e))"

definition max_float64 :: rat where
  "max_float64 = (2 ^ 53 - 1) * 2 ^ 971"

definition ParseFloat :: "string \<Rightarrow> float64 option" where
  "ParseFloat s =
     (let neg = (s \<noteq> [] \<and> hd s = CHR ''-'');
          t = (if s \<noteq> [] \<and> (hd s = CHR ''-'' \<or> hd s = CHR ''+'') then tl s else s);
          (ip, n, rest) = span_digits 0 0 t;
          (mant, total, frac, rest) =
            (if rest \<noteq> [] \<and> hd rest = CHR ''.'' then
               (case span_digits ip n (tl rest) of (m, k, r) \<Rightarrow> (m, k, k - n, r))
             else (ip, n, 0, rest))
      in if total = 0 then None
         else case parse_exponent rest of
                None \<Rightarrow> None
              | Some e \<Rightarrow>
                  let v = fround (of_int (if neg then - mant else mant) * scale10 (e - int frac))
                  in if \<bar>v\<bar> > max_float64 then None else Some v)"

definition CostGuardHandle :: "float64 \<Rightarrow> ctx \<Rightarrow> request \<Rightarrow> 'c handler \<Rightarrow> 'c mw_state \<Rightarrow> 'c answer" where
  "CostGuardHandle defaultEstimate c req handler st =
     (case GetCostBudget c of
        None \<Rightarrow> handler c req st
      | Some budget \<Rightarrow>
          let estimate =
                (case rq_Metadata req of
                   None \<Rightarrow> defaultEstimate
                 | Some m \<Rightarrow>
                     (case m ''cost_estimate'' of
                        None \<Rightarrow> defaultEstimate
                      | Some estStr \<Rightarrow>
                          (case ParseFloat estStr of Some parsed \<Rightarrow> parsed | None \<Rightarrow> defaultEstimate)))
          in if \<not> TryReserve estimate budget (mw_world st)
             then ((Some (rejected req ErrCategorySaturation ''cost budget exceeded'' False), None), st)
             else handler c req st)"

section \<open>Rate limiting\<close>

text \<open>\<open>Duration.Seconds\<close>: the whole seconds and the rest are converted apart.\<close>

definition Seconds :: "duration \<Rightarrow> float64" where
  "Seconds d =
     (let sec = (if 0 \<le> d then d div Second else - ((- d) div Second)); nsec = d - sec * Second
      in fadd (fround (of_int sec)) (fdiv (fround (of_int nsec)) 1000000000))"

text \<open>The bucket after its refill at \<open>now\<close>.\<close>

definition refill :: "float64 \<Rightarrow> float64 \<Rightarrow> instant \<Rightarrow> token_bucket \<Rightarrow> token_bucket" where
  "refill rate capacity now b =
     (let elapsed = Seconds (time_sub now (lastTick b));
          t = fadd (tokens b) (fmul elapsed rate)
      in \<lparr>tokens = (if t > capacity then capacity else t), lastTick = now\<rparr>)"

definition RateLimitingHandle :: "float64 \<Rightarrow> float64 \<Rightarrow> ctx \<Rightarrow> request \<Rightarrow> 'c handler \<Rightarrow> 'c mw_state \<Rightarrow> 'c answer" where
  "RateLimitingHandle rate capacity c req handler st =
     (let userID = GetUserID c
      in if userID = [] then handler c req st
         else
           let (bucket, st) =
                 (case buckets st userID of
                    Some b \<Rightarrow> (b, st)
                  | None \<Rightarrow> let (now, st) = time_now st in (\<lparr>tokens = capacity, lastTick = now\<rparr>, st));
               (now, st) = time_now st;
               bucket = refill rate capacity now bucket
           in if tokens bucket < 1 then
                ((Some (rejected req ErrCategorySaturation ''rate limit exceeded'' True), None),
                 st\<lparr>buckets := (buckets st)(userID \<mapsto> bucket)\<rparr>)
              else
                handler c req
                  (st\<lparr>buckets := (buckets st)(userID \<mapsto> bucket\<lparr>tokens := fsub (tokens bucket) 1\<rparr>)\<rparr>))"

section \<open>The middlewares of the repository\<close>

text \<open>A constructor keeps its arguments in the closure of \<open>mw_Handle\<close>; the maps it makes are in the state.\<close>

definition AuthenticationMiddleware :: "verifier \<Rightarrow> 'c middleware" where [simp]:
  "AuthenticationMiddleware verify =
     \<lparr>mw_Name = ''Authentication'', mw_Dependencies = [], mw_Provides = [''authenticated''],
      mw_FailureMode = FailClosed, mw_Handle = AuthenticationHandle verify\<rparr>"

text \<open>A nil verifier is \<open>None\<close>; \<open>Inl\<close> is the panic.\<close>

definition NewAuthenticationMiddleware :: "verifier option \<Rightarrow> string + 'c middleware" where
  "NewAuthenticationMiddleware verifier =
     (case verifier of
        None \<Rightarrow> Inl ''NewAuthenticationMiddleware: verifier function cannot be nil''
      | Some verify \<Rightarrow> Inr (AuthenticationMiddleware verify))"

definition AuthorizationMiddleware :: "'c middleware" where [simp]:
  "AuthorizationMiddleware =
     \<lparr>mw_Name = ''Authorization'', mw_Dependencies = [''authenticated''], mw_Provides = [''authorized''],
      mw_FailureMode = FailClosed, mw_Handle = AuthorizationHandle\<rparr>"

definition CachingMiddleware :: "'c middleware" where [simp]:
  "CachingMiddleware =
     \<lparr>mw_Name = ''Caching'', mw_Dependencies = [''authorized''], mw_Provides = [''cache_checked''],
      mw_FailureMode = FailOpen, mw_Handle = CachingHandle\<rparr>"

definition CostGuardMiddleware :: "float64 \<Rightarrow> 'c middleware" where [simp]:
  "CostGuardMiddleware defaultEstimate =
     \<lparr>mw_Name = ''CostGuard'', mw_Dependencies = [''authenticated''], mw_Provides = [''budget_reserved''],
      mw_FailureMode = FailClosed, mw_Handle = CostGuardHandle defaultEstimate\<rparr>"

definition LoggingMiddleware :: "bool \<Rightarrow> 'c middleware" where [simp]:
  "LoggingMiddleware has_logger =
     \<lparr>mw_Name = ''Logging'', mw_Dependencies = [], mw_Provides = [],
      mw_FailureMode = FailOpen, mw_Handle = LoggingHandle has_logger\<rparr>"

definition TelemetryMiddleware :: "bool \<Rightarrow> 'c middleware" where [simp]:
  "TelemetryMiddleware has_telemetry =
     \<lparr>mw_Name = ''Telemetry'', mw_Dependencies = [], mw_Provides = [],
      mw_FailureMode = FailOpen, mw_Handle = TelemetryHandle has_telemetry\<rparr>"

definition RateLimitingMiddleware :: "float64 \<Rightarrow> float64 \<Rightarrow> 'c middleware" where [simp]:
  "RateLimitingMiddleware rate capacity =
     \<lparr>mw_Name = ''RateLimiting'', mw_Dependencies = [''authenticated''], mw_Provides = [''rate_limit_checked''],
      mw_FailureMode = FailOpen, mw_Handle = RateLimitingHandle rate capacity\<rparr>"

datatype std_middleware =
    MwAuthentication verifier
  | MwAuthorization
  | MwCaching
  | MwCostGuard float64
  | MwLogging bool
  | MwTelemetry bool
  | MwRateLimiting float64 float64

fun std :: "std_middleware \<Rightarrow> 'c middleware" where
  "std (MwAuthentication verify) = AuthenticationMiddleware verify"
| "std MwAuthorization = AuthorizationMiddleware"
| "std MwCaching = CachingMiddleware"
| "std (MwCostGuard estimate) = CostGuardMiddleware estimate"
| "std (MwLogging has_logger) = LoggingMiddleware has_logger"
| "std (MwTelemetry has_telemetry) = TelemetryMiddleware has_telemetry"
| "std (MwRateLimiting rate capacity) = RateLimitingMiddleware rate capacity"

end
