(* ===== verification/Middleware_Laws.thy ===== *)
theory Middleware_Laws
  imports Middleware Exec_Attempts
begin

text \<open>
  What the pipeline of \<open>Middleware\<close> guarantees: the order of the calls, what validation accepts, that
  no middleware calls its successor twice, and that nothing passes an authentication without a token.
\<close>

section \<open>The chain\<close>

lemma wrap_loop_append: "i \<le> length p \<Longrightarrow> wrap_loop i (p @ q) handler = wrap_loop i p handler"
  by (induction i arbitrary: handler) (auto simp: nth_append Let_def)

lemma wrap_loop_foldr: "wrap_loop (length p) p handler = foldr (\<lambda>mw h c req. mw_Handle mw c req h) p handler"
proof (induction p arbitrary: handler rule: rev_induct)
  case (snoc mw p)
  then show ?case by (simp add: wrap_loop_append nth_append Let_def)
qed simp

lemma Wrap_Nil [simp]: "Wrap [] core = core"
  and Wrap_Cons [simp]: "Wrap (mw # p) core = (\<lambda>c req. mw_Handle mw c req (Wrap p core))"
  unfolding Wrap_def wrap_loop_foldr by simp_all

lemma Wrap_append: "Wrap (p @ q) core = Wrap p (Wrap q core)"
  by (induction p) simp_all

section \<open>Validation\<close>

lemma check_dependencies_None: "check_dependencies name provided deps = None \<longleftrightarrow> (\<forall>d\<in>set deps. provided d)"
  by (induction deps) auto

lemma add_capabilities_Inr:
  "add_capabilities provided provs = Inr provided' \<longleftrightarrow>
     distinct provs \<and> (\<forall>c\<in>set provs. \<not> provided c) \<and> provided' = (\<lambda>c. provided c \<or> c \<in> set provs)"
proof (induction provs arbitrary: provided)
  case (Cons prov provs)
  have "(\<lambda>c. (provided(prov := True)) c \<or> c \<in> set provs) = (\<lambda>c. provided c \<or> c \<in> set (prov # provs))"
    by auto
  moreover have "(\<forall>c\<in>set provs. \<not> (provided(prov := True)) c) \<longleftrightarrow> prov \<notin> set provs \<and> (\<forall>c\<in>set provs. \<not> provided c)"
    by auto
  ultimately show ?case using Cons.IH [of "provided(prov := True)"] by (cases "provided prov") (simp_all add: fun_upd_def conj_ac)
qed auto

lemma add_capabilities_Inl:
  "add_capabilities provided provs = Inl e \<Longrightarrow> \<not> (distinct provs \<and> (\<forall>c\<in>set provs. \<not> provided c))"
  using add_capabilities_Inr [of provided provs] by auto

text \<open>Well-formed chains: each middleware's dependencies are provided earlier, every capability once.\<close>

fun ordered_from :: "capability list \<Rightarrow> 'c middleware list \<Rightarrow> bool" where
  "ordered_from seen [] = True"
| "ordered_from seen (mw # mws) =
     (set (mw_Dependencies mw) \<subseteq> set seen \<and> distinct (mw_Provides mw) \<and> set (mw_Provides mw) \<inter> set seen = {} \<and>
      ordered_from (seen @ mw_Provides mw) mws)"

lemma validate_loop_None: "validate_loop (\<lambda>c. c \<in> set seen) p = None \<longleftrightarrow> ordered_from seen p"
proof (induction p arbitrary: seen)
  case (Cons mw p)
  show ?case
  proof (cases "add_capabilities (\<lambda>c. c \<in> set seen) (mw_Provides mw)")
    case (Inl e)
    from add_capabilities_Inl [OF Inl] show ?thesis by (auto simp: Inl split: option.split)
  next
    case (Inr seen')
    then have ok: "distinct (mw_Provides mw)" "set (mw_Provides mw) \<inter> set seen = {}"
      and seen': "seen' = (\<lambda>c. c \<in> set seen \<or> c \<in> set (mw_Provides mw))"
      unfolding add_capabilities_Inr by auto
    have "seen' = (\<lambda>c. c \<in> set (seen @ mw_Provides mw))" unfolding seen' by auto
    then have rest: "validate_loop seen' p = None \<longleftrightarrow> ordered_from (seen @ mw_Provides mw) p" by (simp only: Cons.IH)
    have deps: "check_dependencies (mw_Name mw) (\<lambda>c. c \<in> set seen) (mw_Dependencies mw) = None \<longleftrightarrow>
        set (mw_Dependencies mw) \<subseteq> set seen"
      by (auto simp: check_dependencies_None)
    show ?thesis
    proof (cases "check_dependencies (mw_Name mw) (\<lambda>c. c \<in> set seen) (mw_Dependencies mw)")
      case None
      then show ?thesis using ok rest deps by (simp add: Inr)
    next
      case (Some e)
      then show ?thesis using deps by simp
    qed
  qed
qed simp

lemma ordered_from_iff:
  "distinct seen \<Longrightarrow> ordered_from seen p \<longleftrightarrow>
     distinct (seen @ concat (map mw_Provides p)) \<and>
     (\<forall>i<length p. set (mw_Dependencies (p ! i)) \<subseteq> set (seen @ concat (map mw_Provides (take i p))))"
proof (induction p arbitrary: seen)
  case (Cons mw p)
  have split: "(\<forall>i<length (mw # p). P i) \<longleftrightarrow> P 0 \<and> (\<forall>i<length p. P (Suc i))" for P
    by (auto simp: less_Suc_eq_0_disj)
  show ?case
  proof (cases "distinct (seen @ mw_Provides mw)")
    case True
    from Cons.IH [OF this] True show ?thesis unfolding split by auto
  next
    case False
    then show ?thesis using Cons.prems by auto
  qed
qed simp

text \<open>
  C35: \<open>Validate\<close> accepts exactly the chains in which no capability is provided twice and every
  dependency of a middleware is provided by an earlier one.
\<close>
theorem PipelineValidate_exact:
  "(PipelineValidate p = None) =
     (distinct (concat (map mw_Provides p)) \<and>
      list_all (\<lambda>i. set (mw_Dependencies (p ! i)) \<subseteq> set (concat (map mw_Provides (take i p)))) [0..<length p])"
  using validate_loop_None [of "[]" p] ordered_from_iff [of "[]" p]
  by (auto simp: PipelineValidate_def list_all_iff)

section \<open>At most one call of the successor\<close>

text \<open>
  What a middleware may do with its successor: answer in its place, or call it once, with the same
  request and a context and state of its choice, return its result and error, and change the state afterwards.
\<close>

datatype 'c decision =
    Answered "'c answer"
  | PassOn ctx "'c mw_state" "exec_result option \<times> go_error option \<Rightarrow> 'c mw_state \<Rightarrow> 'c mw_state"

definition decided :: "'c decision \<Rightarrow> request \<Rightarrow> 'c handler \<Rightarrow> 'c answer" where
  "decided d req handler =
     (case d of
        Answered a \<Rightarrow> a
      | PassOn c st after \<Rightarrow> (case handler c req st of (res, st') \<Rightarrow> (res, after res st')))"

locale gate =
  fixes handle :: "ctx \<Rightarrow> request \<Rightarrow> 'c handler \<Rightarrow> 'c mw_state \<Rightarrow> 'c answer"
  assumes decides: "\<exists>d. \<forall>handler. handle c req handler st = decided d req handler"
begin

text \<open>A caller sees the gate's own answer, or the successor's.\<close>

lemma answer_from:
  "(\<exists>a. \<forall>handler. handle c req handler st = a) \<or>
   (\<exists>c' st'. \<forall>handler. fst (handle c req handler st) = fst (handler c' req st'))"
proof -
  obtain d where d: "\<forall>handler. handle c req handler st = decided d req handler" using decides by blast
  show ?thesis
  proof (cases d)
    case (Answered a)
    with d show ?thesis by (auto simp: decided_def)
  next
    case (PassOn c' st' after)
    with d have "\<forall>handler. fst (handle c req handler st) = fst (handler c' req st')"
      by (auto simp: decided_def split: prod.split)
    then show ?thesis by blast
  qed
qed

end

lemma gate_Answered: "(\<And>handler. f handler = a) \<Longrightarrow> \<exists>d. \<forall>handler. f handler = decided d req handler"
  by (intro exI [of _ "Answered a"]) (simp add: decided_def)

lemma gate_PassOn: "(\<And>handler. f handler = handler c req st) \<Longrightarrow> \<exists>d. \<forall>handler. f handler = decided d req handler"
  by (intro exI [of _ "PassOn c st (\<lambda>_ st. st)"]) (simp add: decided_def)

lemma gate_compose:
  assumes "gate h1" and "gate h2"
  shows "gate (\<lambda>c req handler. h1 c req (\<lambda>c req. h2 c req handler))"
proof
  fix c req st
  obtain d where d: "\<And>handler. h1 c req handler st = decided d req handler"
    using gate.decides [OF assms(1)] by metis
  show "\<exists>d. \<forall>handler. h1 c req (\<lambda>c req. h2 c req handler) st = decided d req handler"
  proof (cases d)
    case (Answered a)
    then show ?thesis by (intro gate_Answered [of _ a]) (simp add: d decided_def)
  next
    case (PassOn c' st' after)
    obtain d2 where d2: "\<And>handler. h2 c' req handler st' = decided d2 req handler"
      using gate.decides [OF assms(2)] by metis
    show ?thesis
    proof (cases d2)
      case (Answered a)
      then show ?thesis
        by (intro gate_Answered [of _ "case a of (res, st'') \<Rightarrow> (res, after res st'')"])
          (simp add: d PassOn d2 decided_def)
    next
      case (PassOn c2 st2 after2)
      then show ?thesis
        by (intro exI [of _ "PassOn c2 st2 (\<lambda>res st. after res (after2 res st))"])
          (simp add: d \<open>d = PassOn c' st' after\<close> d2 decided_def split: prod.split)
    qed
  qed
qed

interpretation pass: gate "\<lambda>c req handler. handler c req"
  by unfold_locales (rule gate_PassOn, simp)

interpretation authentication: gate "AuthenticationHandle verify" for verify
proof
  fix c and req :: request and st :: "'c mw_state"
  show "\<exists>d. \<forall>handler. AuthenticationHandle verify c req handler st = decided d req handler"
  proof (cases "token_of req = []")
    case True
    then show ?thesis by (intro gate_Answered) (simp add: AuthenticationHandle_def)
  next
    case False
    then show ?thesis
    proof (cases "verify (token_of req)")
      case (Inl err)
      then show ?thesis using False by (intro gate_Answered) (simp add: AuthenticationHandle_def)
    next
      case (Inr r)
      then show ?thesis
        using False by (cases r) (intro gate_PassOn, simp add: AuthenticationHandle_def)
    qed
  qed
qed

interpretation authorization: gate AuthorizationHandle
proof
  fix c and req :: request and st :: "'c mw_state"
  let ?role = "\<lambda>ul. case map_of (ul_Claims ul) ''role'' of Some r \<Rightarrow> r | None \<Rightarrow> []"
  consider (none) "GetUserLayer c = None"
    | (some) ul where "GetUserLayer c = Some ul" by (cases "GetUserLayer c") auto
  then show "\<exists>d. \<forall>handler. AuthorizationHandle c req handler st = decided d req handler"
  proof cases
    case none
    then show ?thesis by (intro gate_Answered) (simp add: AuthorizationHandle_def Let_def)
  next
    case some
    define a where "a = (if ul_UserID ul = [] then rejected req ErrCategoryAuth ''unauthorized: user identity not found'' False
        else rejected req ErrCategoryAuth ''unauthorized: critical priority class requires admin privileges'' False)"
    have handle: "AuthorizationHandle c req handler st =
        (if ul_UserID ul = [] \<or> rq_Priority req = PriorityClassCritical \<and> ?role ul \<noteq> ''admin''
         then ((Some a, None), st) else handler c req st)" for handler
      by (auto simp: AuthorizationHandle_def some a_def Let_def)
    show ?thesis
    proof (cases "ul_UserID ul = [] \<or> rq_Priority req = PriorityClassCritical \<and> ?role ul \<noteq> ''admin''")
      case True
      then show ?thesis by (intro gate_Answered) (simp only: handle if_True)
    next
      case False
      then show ?thesis by (intro gate_PassOn) (simp only: handle if_False)
    qed
  qed
qed

interpretation caching: gate CachingHandle
proof
  fix c and req :: request and st :: "'c mw_state"
  let ?key = "cacheKey (GetUserID c) (rq_ProviderRef req) (rq_Payload req)"
  show "\<exists>d. \<forall>handler. CachingHandle c req handler st = decided d req handler"
  proof (cases "cache st ?key")
    case (Some r)
    then show ?thesis by (intro gate_Answered) (simp add: CachingHandle_def)
  next
    case None
    then show ?thesis
      by (intro exI [of _ "PassOn c st (\<lambda>(res, err) st. case (err, res) of
            (None, Some r) \<Rightarrow> if er_Status r = StatusSucceeded then st\<lparr>cache := (cache st)(?key \<mapsto> r)\<rparr> else st
          | _ \<Rightarrow> st)"])
        (simp add: CachingHandle_def decided_def Let_def split: prod.split)
  qed
qed

interpretation costguard: gate "CostGuardHandle estimate" for estimate
proof
  fix c and req :: request and st :: "'c mw_state"
  show "\<exists>d. \<forall>handler. CostGuardHandle estimate c req handler st = decided d req handler"
  proof (cases "GetCostBudget c")
    case None
    then show ?thesis by (intro gate_PassOn) (simp add: CostGuardHandle_def)
  next
    case (Some b)
    define e where "e = (case rq_Metadata req of None \<Rightarrow> estimate
       | Some m \<Rightarrow> (case m ''cost_estimate'' of None \<Rightarrow> estimate
           | Some estStr \<Rightarrow> (case ParseFloat estStr of Some parsed \<Rightarrow> parsed | None \<Rightarrow> estimate)))"
    have handle: "CostGuardHandle estimate c req handler st =
        (if \<not> TryReserve e b (mw_world st)
         then ((Some (rejected req ErrCategorySaturation ''cost budget exceeded'' False), None), st)
         else handler c req st)" for handler
      by (simp add: CostGuardHandle_def Some e_def)
    show ?thesis
      by (cases "TryReserve e b (mw_world st)") (intro gate_PassOn, simp add: handle, intro gate_Answered, simp add: handle)
  qed
qed

interpretation logging: gate "LoggingHandle has_logger" for has_logger
proof
  fix c and req :: request and st :: "'c mw_state"
  let ?start = "clock st (readings st)"
  let ?st = "if has_logger then effect (LogInfo (''middleware: starting execution request '' @ rq_ID req)) (snd (time_now st))
             else snd (time_now st)"
  let ?after = "\<lambda>(res, err) st. if has_logger then
        let (now, st) = time_now st; status = (case res of None \<Rightarrow> ''Unknown'' | Some r \<Rightarrow> er_Status r)
        in effect (LogInfo (''middleware: finished execution request '' @ rq_ID req @ '' in '' @
             show_duration (time_sub now ?start) @ '' with status '' @ status)) st else st"
  have "LoggingHandle has_logger c req handler st = decided (PassOn c ?st ?after) req handler" for handler
    by (simp add: LoggingHandle_def decided_def time_now_def Let_def split: prod.split)
  then show "\<exists>d. \<forall>handler. LoggingHandle has_logger c req handler st = decided d req handler" by blast
qed

interpretation counting: gate "TelemetryHandle has_telemetry" for has_telemetry
  by unfold_locales (rule gate_PassOn, simp add: TelemetryHandle_def)

interpretation ratelimiting: gate "RateLimitingHandle rate capacity" for rate capacity
proof
  fix c and req :: request and st :: "'c mw_state"
  show "\<exists>d. \<forall>handler. RateLimitingHandle rate capacity c req handler st = decided d req handler"
  proof (cases "GetUserID c = []")
    case True
    then show ?thesis by (intro gate_PassOn) (simp add: RateLimitingHandle_def)
  next
    case False
    define bst where "bst = (case buckets st (GetUserID c) of Some b \<Rightarrow> (b, st)
        | None \<Rightarrow> let (now, st) = time_now st in (\<lparr>tokens = capacity, lastTick = now\<rparr>, st))"
    define b where "b = refill rate capacity (clock (snd bst) (readings (snd bst))) (fst bst)"
    define st' where "st' = snd (time_now (snd bst))"
    have handle: "RateLimitingHandle rate capacity c req handler st =
        (if tokens b < 1
         then ((Some (rejected req ErrCategorySaturation ''rate limit exceeded'' True), None),
               st'\<lparr>buckets := (buckets st')(GetUserID c \<mapsto> b)\<rparr>)
         else handler c req (st'\<lparr>buckets := (buckets st')(GetUserID c \<mapsto> b\<lparr>tokens := fsub (tokens b) 1\<rparr>)\<rparr>))" for handler
      using False
      by (simp add: RateLimitingHandle_def bst_def [symmetric] b_def st'_def time_now_def Let_def split: prod.split)
    show ?thesis
      by (cases "tokens b < 1") (intro gate_Answered, simp add: handle, intro gate_PassOn, simp add: handle)
  qed
qed

lemma std_gate: "gate (mw_Handle (std m))"
  by (cases m)
    (simp_all add: authentication.gate_axioms authorization.gate_axioms caching.gate_axioms costguard.gate_axioms
      logging.gate_axioms counting.gate_axioms ratelimiting.gate_axioms)

lemma Wrap_gate: "gate (\<lambda>c req handler. Wrap (map std ms) handler c req)"
proof (induction ms)
  case Nil
  then show ?case using pass.gate_axioms by simp
next
  case (Cons m ms)
  from gate_compose [OF std_gate [of m] Cons.IH] show ?case by simp
qed

text \<open>
  C16: whatever middlewares are chained, one run of the chain calls the core handler at most once, with
  the request unchanged, and answers with the core's own result and error, or without calling it.
\<close>
theorem pipeline_calls_core_once:
  "\<exists>d. \<forall>core. Wrap (map std ms) core c req st = decided d req core"
  using gate.decides [OF Wrap_gate] by blast

section \<open>Authentication\<close>

text \<open>A state in which nothing has happened yet.\<close>

definition idle :: "unit mw_state" where
  "idle = \<lparr>cache = Map.empty, buckets = Map.empty, mw_effects = [], clock = (\<lambda>_. 0), readings = 0,
     mw_world = initial_world, mw_core = ()\<rparr>"

text \<open>The middlewares that a chain may have before its authentication.\<close>

fun observes :: "std_middleware \<Rightarrow> bool" where
  "observes (MwLogging _) = True"
| "observes (MwTelemetry _) = True"
| "observes _ = False"

fun authenticates :: "std_middleware \<Rightarrow> bool" where
  "authenticates (MwAuthentication _) = True"
| "authenticates _ = False"

lemma observes_passes:
  "observes m \<Longrightarrow> \<exists>st'. fst (mw_Handle (std m) c req handler st) = fst (handler c req st')"
proof (cases m)
  case (MwLogging has_logger)
  let ?st = "if has_logger then effect (LogInfo (''middleware: starting execution request '' @ rq_ID req)) (snd (time_now st))
             else snd (time_now st)"
  have "fst (mw_Handle (std m) c req handler st) = fst (handler c req ?st)"
    by (simp add: MwLogging LoggingHandle_def time_now_def Let_def split: prod.split)
  then show ?thesis by blast
next
  case (MwTelemetry has_telemetry)
  then show ?thesis by (simp add: TelemetryHandle_def) blast
qed simp_all

lemma observes_append:
  "list_all observes ms \<Longrightarrow> \<exists>st'. fst (Wrap (map std ms @ p) core c req st) = fst (Wrap p core c req st')"
proof (induction ms arbitrary: st)
  case (Cons m ms)
  then obtain st1 where "fst (Wrap (map std (m # ms) @ p) core c req st) = fst (Wrap (map std ms @ p) core c req st1)"
    using observes_passes [of m c req "Wrap (map std ms @ p) core" st] by auto
  with Cons show ?case by auto
qed auto

lemma needs_authentication:
  "\<not> observes m \<Longrightarrow> \<not> authenticates m \<Longrightarrow> ''authenticated'' \<in> set (mw_Dependencies (std m)) \<or> ''authorized'' \<in> set (mw_Dependencies (std m))"
  by (cases m) auto

lemma provides_capability:
  "''authenticated'' \<in> set (mw_Provides (std m)) \<Longrightarrow> authenticates m"
  "''authorized'' \<in> set (mw_Provides (std m)) \<Longrightarrow> \<not> observes m \<and> \<not> authenticates m"
  by (cases m; simp)+

text \<open>In an ordered chain the first middleware that does not merely observe authenticates.\<close>

lemma first_authenticates:
  assumes "ordered_from seen (map std ms :: 'c middleware list)" and "''authenticated'' \<notin> set seen" and "''authorized'' \<notin> set seen"
    and "\<not> list_all observes ms"
  shows "\<exists>pre verify post. ms = pre @ MwAuthentication verify # post \<and> list_all observes pre"
  using assms
proof (induction ms arbitrary: seen)
  case (Cons m ms)
  show ?case
  proof (cases "observes m")
    case True
    then have "mw_Provides (std m :: 'c middleware) = []" by (cases m) auto
    with Cons.prems True have "ordered_from seen (map std ms :: 'c middleware list)" "\<not> list_all observes ms" by auto
    with Cons.IH [of seen] Cons.prems obtain pre verify post where "ms = pre @ MwAuthentication verify # post" "list_all observes pre"
      by auto
    then show ?thesis using True by (intro exI [of _ "m # pre"]) auto
  next
    case False
    with Cons.prems have "authenticates m" using needs_authentication [of m] by (cases "authenticates m") auto
    then show ?thesis by (cases m) (auto intro: exI [of _ "[]"])
  qed
qed simp

text \<open>
  C26: no token, no execution.  In a validated chain that does more than observe, a request without an
  authentication token is turned away with an authentication error, whatever the core handler is.
\<close>
theorem unauthenticated_rejected:
  assumes "PipelineValidate (map std ms :: 'c middleware list) = None" and "\<not> list_all observes ms" and "token_of req = []"
  shows "fst (Wrap (map std ms) core c req (st :: 'c mw_state)) =
     (Some (rejected req ErrCategoryAuth ''missing authentication token'' False), None)"
proof -
  have "ordered_from [] (map std ms :: 'c middleware list)"
    using assms(1) validate_loop_None [of "[]" "map std ms :: 'c middleware list"] by (simp add: PipelineValidate_def)
  with first_authenticates [of "[]" ms] assms(2) obtain pre verify post
    where ms: "ms = pre @ MwAuthentication verify # post" "list_all observes pre" by auto
  from observes_append [OF ms(2), of "map std (MwAuthentication verify # post)" core c req st] show ?thesis
    using assms(3) by (auto simp: ms(1) AuthenticationHandle_def)
qed

lemma unauthenticated_rejected_witness:
  "fst (Wrap (map std [MwLogging True, MwAuthentication (\<lambda>_. Inr (''u'', [], [])), MwAuthorization, MwCaching])
      (\<lambda>c req st. ((Some (bare_result ''e'' StatusSucceeded ExecStateSucceeded None), None), st)) Background
      (sample_request ''e'') idle) =
   (Some (rejected (sample_request ''e'') ErrCategoryAuth ''missing authentication token'' False), None)"
  by (rule unauthenticated_rejected) (code_simp, simp, simp add: token_of_def metadata_value_def sample_request_def)

section \<open>The cache\<close>

text \<open>
  A successful answer of the core handler is kept, and every later request with the same key gets that
  answer, the first request's ID included, without a call of the core.  The key joins the user, the
  provider and the payload with colons, so two users can have the same key.
\<close>
theorem cached_answer_reused:
  assumes "cache st (cacheKey (GetUserID c) (rq_ProviderRef req) (rq_Payload req)) = None"
    and "core c req st = ((Some r, None), st')" and "er_Status r = StatusSucceeded"
    and "cacheKey (GetUserID c2) (rq_ProviderRef req2) (rq_Payload req2) =
         cacheKey (GetUserID c) (rq_ProviderRef req) (rq_Payload req)"
  shows "(case CachingHandle c req core st of
           (first, st1) \<Rightarrow> first = (Some r, None) \<and> CachingHandle c2 req2 core2 st1 = ((Some r, None), st1))"
  using assms by (simp add: CachingHandle_def)

lemma cached_answer_reused_witness:
  "let alice = WithUser ''a:b'' ''o'' [] Background; eve = WithUser ''a'' ''o'' [] Background;
       req = (sample_request ''e1'')\<lparr>rq_ProviderRef := ''c''\<rparr>; req2 = (sample_request ''e2'')\<lparr>rq_ProviderRef := ''b:c''\<rparr>;
       r = bare_result ''e1'' StatusSucceeded ExecStateSucceeded None
   in GetUserID alice \<noteq> GetUserID eve \<and>
      (case CachingHandle alice req (\<lambda>c req st. ((Some r, None), st)) idle of
         (first, st1) \<Rightarrow> first = (Some r, None) \<and>
           CachingHandle eve req2 (\<lambda>c req st. ((None, Some (GoError ''core'')), st)) st1 = ((Some r, None), st1))"
  unfolding Let_def
proof (rule conjI)
  show "GetUserID (WithUser ''a:b'' ''o'' [] Background) \<noteq> GetUserID (WithUser ''a'' ''o'' [] Background)"
    by (simp add: accessor_defs WithUser_def WithValue_def ctx_keys)
qed (rule cached_answer_reused,
  simp_all add: idle_def cacheKey_def sample_request_def bare_result_def accessor_defs WithUser_def WithValue_def ctx_keys)

text \<open>A failure is never kept.\<close>

lemma failures_not_cached:
  assumes "core c req st = ((res, err), st')" and "cache st' = cache st"
    and "err \<noteq> None \<or> (case res of None \<Rightarrow> True | Some r \<Rightarrow> er_Status r \<noteq> StatusSucceeded)"
  shows "cache (snd (CachingHandle c req core st)) = cache st"
  using assms by (cases "cache st (cacheKey (GetUserID c) (rq_ProviderRef req) (rq_Payload req))"; cases err; cases res)
    (simp_all add: CachingHandle_def)

end
