(* ===== verification/Rate_Limit.thy ===== *)
theory Rate_Limit
  imports Middleware Exec_Attempts
begin

text \<open>
  How many requests of one user the token bucket of \<open>core/middleware/ratelimit.go\<close> lets through, rounding included.
\<close>

section \<open>One bucket\<close>

lemma ulp_nonneg: "0 \<le> ulp" by (simp add: ulp_def)

lemma Seconds_bounds:
  assumes "0 \<le> d"
  shows "0 \<le> Seconds d" "Seconds d \<le> of_int d / 1000000000 * (1 + ulp) ^ 2"
proof -
  define sec where "sec = d div Second"
  define nsec where "nsec = d - sec * Second"
  have S: "Seconds d = fround (fround (of_int sec) + fround (fround (of_int nsec) / 1000000000))"
    using assms by (simp add: Seconds_def sec_def nsec_def fadd_def fdiv_def Let_def)
  have sec: "0 \<le> sec" using assms by (simp add: sec_def Second_def Milliseconds_def pos_imp_zdiv_nonneg_iff)
  have nsec_eq: "nsec = d mod 1000000000"
    by (simp add: nsec_def sec_def Second_def minus_div_mult_eq_mod)
  then have nsec: "0 \<le> nsec" "nsec < 1000000000" by simp_all
  have "d = sec * 1000000000 + nsec" by (simp add: nsec_def Second_def)
  then have d: "of_int d = of_int sec * 1000000000 + (of_int nsec :: rat)"
    by (metis of_int_add of_int_mult of_int_numeral)
  have n: "fround (of_int nsec) = of_int nsec" using nsec by (intro fround_float is_float_int) simp
  have a: "0 \<le> fround (of_int sec)" "fround (of_int sec) \<le> of_int sec * (1 + ulp)"
    using sec by (auto intro: fround_nonneg fround_le)
  have b: "0 \<le> fround (of_int nsec / 1000000000)" "fround (of_int nsec / 1000000000) \<le> of_int nsec / 1000000000 * (1 + ulp)"
    using nsec by (simp_all only: fround_nonneg fround_le divide_nonneg_pos of_int_0_le_iff zero_less_numeral)
  show "0 \<le> Seconds d" unfolding S n using a b by (intro fround_nonneg) simp
  have "Seconds d \<le> (fround (of_int sec) + fround (of_int nsec / 1000000000)) * (1 + ulp)"
    unfolding S n using a b by (intro fround_le) simp
  also have "\<dots> \<le> (of_int sec * (1 + ulp) + of_int nsec / 1000000000 * (1 + ulp)) * (1 + ulp)"
    using a b ulp_nonneg by (intro mult_right_mono add_mono) auto
  also have "\<dots> = of_int d / 1000000000 * (1 + ulp) ^ 2"
    unfolding d by (simp add: power2_eq_square field_simps)
  finally show "Seconds d \<le> of_int d / 1000000000 * (1 + ulp) ^ 2" .
qed

text \<open>A bucket that holds between 0 and \<open>capacity\<close> tokens.\<close>

definition bucket_ok :: "float64 \<Rightarrow> token_bucket \<Rightarrow> bool" where
  "bucket_ok capacity b \<longleftrightarrow> 0 \<le> tokens b \<and> tokens b \<le> capacity"

lemma refill_ok:
  assumes "bucket_ok capacity b" and "0 \<le> rate" and "lastTick b \<le> now"
  shows "bucket_ok capacity (refill rate capacity now b)"
    and "tokens (refill rate capacity now b) \<le>
         tokens b + of_int (now - lastTick b) / 1000000000 * rate * (1 + ulp) ^ 3 + 2 * capacity * ulp"
proof -
  define d where "d = time_sub now (lastTick b)"
  define inc where "inc = fmul (Seconds d) rate"
  have d: "0 \<le> d" "d \<le> now - lastTick b"
    using assms(3) by (auto simp: d_def time_sub_def max_int64_def min_int64_def)
  have cap: "0 \<le> capacity" "0 \<le> tokens b" "tokens b \<le> capacity" using assms(1) by (auto simp: bucket_ok_def)
  note sec = Seconds_bounds [OF d(1)]
  have inc0: "0 \<le> inc" using sec assms(2) by (simp add: inc_def fmul_def fround_nonneg)
  have "inc \<le> Seconds d * rate * (1 + ulp)" using sec assms(2) by (simp add: inc_def fmul_def fround_le)
  also have "\<dots> \<le> of_int d / 1000000000 * (1 + ulp) ^ 2 * rate * (1 + ulp)"
    using sec assms(2) ulp_nonneg by (intro mult_right_mono) auto
  also have "\<dots> = of_int d / 1000000000 * (rate * (1 + ulp) ^ 3)" by (simp add: power2_eq_square power3_eq_cube)
  also have "\<dots> \<le> of_int (now - lastTick b) / 1000000000 * (rate * (1 + ulp) ^ 3)"
    using d assms(2) ulp_nonneg by (intro mult_right_mono divide_right_mono) (auto simp del: of_int_diff)
  finally have inc: "inc \<le> of_int (now - lastTick b) / 1000000000 * rate * (1 + ulp) ^ 3" by (simp add: mult.assoc)
  have t: "tokens (refill rate capacity now b) = min capacity (fround (tokens b + inc))"
    by (auto simp: refill_def Let_def fadd_def inc_def d_def)
  have "0 \<le> fround (tokens b + inc)" using inc0 cap by (intro fround_nonneg) simp
  then show "bucket_ok capacity (refill rate capacity now b)" using cap by (simp add: bucket_ok_def t)
  have "tokens (refill rate capacity now b) \<le> tokens b + inc + 2 * capacity * ulp"
  proof (cases "inc \<le> capacity")
    case True
    have "fround (tokens b + inc) \<le> tokens b + inc + (tokens b + inc) * ulp"
      using fround_le [of "tokens b + inc"] inc0 cap by (simp add: algebra_simps)
    moreover have "(tokens b + inc) * ulp \<le> 2 * capacity * ulp"
      using True cap ulp_nonneg by (intro mult_right_mono) auto
    ultimately show ?thesis by (simp add: t)
  next
    case False
    then have "tokens (refill rate capacity now b) \<le> tokens b + inc" using cap by (simp add: t)
    moreover have "0 \<le> 2 * capacity * ulp" using cap ulp_nonneg by simp
    ultimately show ?thesis by linarith
  qed
  with inc show "tokens (refill rate capacity now b) \<le>
         tokens b + of_int (now - lastTick b) / 1000000000 * rate * (1 + ulp) ^ 3 + 2 * capacity * ulp"
    by linarith
qed

lemma take_ok:
  assumes "bucket_ok capacity b" and "1 \<le> tokens b" and "is_float capacity"
  shows "bucket_ok capacity (b\<lparr>tokens := fsub (tokens b) 1\<rparr>)"
    and "fsub (tokens b) 1 \<le> tokens b - 1 + capacity * ulp"
proof -
  have le: "fsub (tokens b) 1 \<le> (tokens b - 1) * (1 + ulp)" using assms(2) by (simp add: fsub_def fround_le)
  have "(tokens b - 1) * ulp \<le> capacity * ulp"
    using assms ulp_nonneg by (intro mult_right_mono) (auto simp: bucket_ok_def)
  with le show le': "fsub (tokens b) 1 \<le> tokens b - 1 + capacity * ulp" by (simp add: algebra_simps)
  have "0 \<le> fsub (tokens b) 1" using assms(2) by (simp add: fsub_def fround_nonneg)
  moreover have "fsub (tokens b) 1 \<le> capacity"
    using fround_mono [of "tokens b - 1" capacity] assms fround_float [of capacity] by (simp add: fsub_def bucket_ok_def)
  ultimately show "bucket_ok capacity (b\<lparr>tokens := fsub (tokens b) 1\<rparr>)" by (simp add: bucket_ok_def)
qed

section \<open>A burst of requests\<close>

text \<open>The requests of one user in turn; the core handler counts its calls.\<close>

definition counted :: "nat handler" where
  "counted c req st = ((None, None), st\<lparr>mw_core := mw_core st + 1\<rparr>)"

fun burst :: "float64 \<Rightarrow> float64 \<Rightarrow> ctx \<Rightarrow> request list \<Rightarrow> nat mw_state \<Rightarrow> nat mw_state" where
  "burst rate capacity c [] st = st"
| "burst rate capacity c (req # reqs) st = burst rate capacity c reqs (snd (RateLimitingHandle rate capacity c req counted st))"

definition slack :: "float64 \<Rightarrow> rat" where
  "slack capacity = 3 * capacity * ulp"

lemma limited_step:
  assumes "GetUserID c \<noteq> []" and "buckets st (GetUserID c) = Some b" and "bucket_ok capacity b" and "is_float capacity"
    and "0 \<le> rate" and "lastTick b \<le> clock st (readings st)"
  obtains st' b' where "snd (RateLimitingHandle rate capacity c req counted st) = st'"
    and "buckets st' (GetUserID c) = Some b'" and "bucket_ok capacity b'" and "lastTick b' = clock st (readings st)"
    and "clock st' = clock st" and "readings st' = readings st + 1"
    and "of_nat (mw_core st') + tokens b' \<le> of_nat (mw_core st) + tokens b +
         of_int (clock st (readings st) - lastTick b) / 1000000000 * rate * (1 + ulp) ^ 3 + slack capacity"
proof -
  let ?now = "clock st (readings st)"
  define r where "r = refill rate capacity ?now b"
  note r = refill_ok [OF assms(3,5,6), folded r_def]
  have tick: "lastTick r = ?now" by (simp add: r_def refill_def Let_def)
  have cap: "0 \<le> capacity * ulp" using assms(3) ulp_nonneg by (simp add: bucket_ok_def)
  show ?thesis
  proof (cases "tokens r < 1")
    case True
    show ?thesis
      by (rule that [OF refl, of r]) (use assms(1,2) True r tick cap in
        \<open>simp_all add: RateLimitingHandle_def time_now_def r_def [symmetric] slack_def\<close>)
  next
    case False
    note t = take_ok [OF r(1) _ assms(4)]
    show ?thesis
      by (rule that [OF refl, of "r\<lparr>tokens := fsub (tokens r) 1\<rparr>"]) (use assms(1,2) False r t tick in
        \<open>simp_all add: RateLimitingHandle_def time_now_def counted_def r_def [symmetric] slack_def\<close>)
  qed
qed

lemma burst_bound:
  assumes "GetUserID c \<noteq> []" and "is_float capacity" and "0 \<le> rate" and "mono (clock st)"
    and "buckets st (GetUserID c) = Some b" and "bucket_ok capacity b" and "lastTick b \<le> clock st (readings st)"
  shows "of_nat (mw_core (burst rate capacity c reqs st)) \<le> of_nat (mw_core st) + tokens b +
     of_int (clock st (readings st + length reqs) - lastTick b) / 1000000000 * rate * (1 + ulp) ^ 3 + of_nat (length reqs) * slack capacity"
  using assms(4-)
proof (induction reqs arbitrary: st b)
  case Nil
  then show ?case using assms(3) ulp_nonneg by (auto simp: bucket_ok_def)
next
  case (Cons req reqs)
  obtain st' b' where st': "snd (RateLimitingHandle rate capacity c req counted st) = st'"
    "buckets st' (GetUserID c) = Some b'" "bucket_ok capacity b'" "lastTick b' = clock st (readings st)"
    "clock st' = clock st" "readings st' = readings st + 1"
    "of_nat (mw_core st') + tokens b' \<le> of_nat (mw_core st) + tokens b +
         of_int (clock st (readings st) - lastTick b) / 1000000000 * rate * (1 + ulp) ^ 3 + slack capacity"
    using limited_step [OF assms(1) Cons.prems(2,3) assms(2,3) Cons.prems(4)] by metis
  have "of_nat (mw_core (burst rate capacity c reqs st')) \<le> of_nat (mw_core st') + tokens b' +
     of_int (clock st' (readings st' + length reqs) - lastTick b') / 1000000000 * rate * (1 + ulp) ^ 3 + of_nat (length reqs) * slack capacity"
    using Cons.prems(1) st'(2-6) by (intro Cons.IH) (auto intro: monoD)
  moreover define k where "k = rate * (1 + ulp) ^ 3 / 1000000000"
  ultimately show ?case using st' by (simp add: k_def [symmetric] algebra_simps add_divide_distrib diff_divide_distrib)
qed

lemma first_request:
  assumes "GetUserID c \<noteq> []" and "buckets st (GetUserID c) = None"
  shows "RateLimitingHandle rate capacity c req core st =
     RateLimitingHandle rate capacity c req core
       (st\<lparr>readings := readings st + 1,
           buckets := (buckets st)(GetUserID c \<mapsto> \<lparr>tokens = capacity, lastTick = clock st (readings st)\<rparr>)\<rparr>)"
  using assms by (simp add: RateLimitingHandle_def time_now_def Let_def)



end
