(* ===== verification/Exec_Context.thy ===== *)
theory Exec_Context
  imports Context_Laws
begin

text \<open>
  \<open>core/execution/context.go\<close>: the correlation identifiers and the budget as the execution package
  attaches and reads them, over the layers of \<open>Rt_Context\<close>.  Its functions have the names of that
  package's and carry the prefix \<open>exec_\<close> here; a budget is the bare \<open>float64\<close> limit.
\<close>

section \<open>Operations\<close>

definition keyTraceID :: ctx_key where "keyTraceID = ExecKey ''trace_id''"
definition keySessionID :: ctx_key where "keySessionID = ExecKey ''session_id''"
definition keyUserID :: ctx_key where "keyUserID = ExecKey ''user_id''"
definition keyCostBudget :: ctx_key where "keyCostBudget = ExecKey ''cost_budget''"

lemmas exec_keys = keyTraceID_def keySessionID_def keyUserID_def keyCostBudget_def

text \<open>The value under a key of the package and under the plain string.\<close>

definition with_both :: "ctx_key \<Rightarrow> ctx_key \<Rightarrow> string \<Rightarrow> ctx \<Rightarrow> ctx" where
  "with_both k plain s c = (if s \<noteq> [] then WithValue plain (VStr s) (WithValue k (VStr s) c) else c)"

definition WithCorrelationIDs :: "instant \<Rightarrow> string \<Rightarrow> string \<Rightarrow> string \<Rightarrow> ctx \<Rightarrow> world \<Rightarrow> ctx \<times> world" where
  "WithCorrelationIDs now traceID sessionID userID parent w =
     (let (parent, w) =
            (if sessionID \<noteq> [] then WithSession now sessionID userID parent w
             else if userID \<noteq> [] then (WithUser userID [] [] parent, w)
             else (parent, w));
          parent = with_both keyTraceID compatTraceID traceID parent;
          parent = with_both keySessionID compatSessionID sessionID parent;
          parent = with_both keyUserID compatUserID userID parent
      in (parent, w))"

definition exec_WithCostBudget :: "float64 \<Rightarrow> ctx \<Rightarrow> world \<Rightarrow> ctx \<times> world" where
  "exec_WithCostBudget budget parent w =
     (let (cb, w) = NewCostBudget budget ''USD'' w
      in (WithValue keyCostBudget (VFloat budget) (WithCostBudget cb parent), w))"

text \<open>The two fallbacks of a getter: the package's own key, then the plain string.\<close>

definition fallback :: "ctx_key \<Rightarrow> string \<Rightarrow> ctx \<Rightarrow> string" where
  "fallback k plain c = (case vals c k of Some (VStr s) \<Rightarrow> s | _ \<Rightarrow> str_value (StrKey plain) c)"

definition exec_GetTraceID :: "ctx \<Rightarrow> string" where
  "exec_GetTraceID c = (if GetTraceID c \<noteq> [] then GetTraceID c else fallback keyTraceID ''trace_id'' c)"

definition exec_GetSessionID :: "ctx \<Rightarrow> string" where
  "exec_GetSessionID c = (if GetSessionID c \<noteq> [] then GetSessionID c else fallback keySessionID ''session_id'' c)"

definition exec_GetUserID :: "ctx \<Rightarrow> string" where
  "exec_GetUserID c = (if GetUserID c \<noteq> [] then GetUserID c else fallback keyUserID ''user_id'' c)"

definition exec_GetCostBudget :: "ctx \<Rightarrow> float64" where
  "exec_GetCostBudget c =
     (case GetCostBudget c of
        Some cb \<Rightarrow> cb_Limit cb
      | None \<Rightarrow> (case vals c keyCostBudget of Some (VFloat v) \<Rightarrow> v | _ \<Rightarrow> 0))"

section \<open>What a reader gets back\<close>

text \<open>What the parent already says of the trace and of the user, and what wins over the new identifiers.\<close>

definition own_trace :: "ctx \<Rightarrow> string" where
  "own_trace c = (case getRequestLayer c of Some r \<Rightarrow> rl_TraceID r | None \<Rightarrow> [])"

definition own_user :: "ctx \<Rightarrow> string" where
  "own_user c = (case GetUserLayer c of Some ul \<Rightarrow> ul_UserID ul | None \<Rightarrow> [])"

lemma exec_key_neq [ctx_simps]:
  "ExecKey s \<noteq> keyRequest" "ExecKey s \<noteq> keySession" "ExecKey s \<noteq> keyUser" "ExecKey s \<noteq> keyRuntime"
  "keyRequest \<noteq> ExecKey s" "keySession \<noteq> ExecKey s" "keyUser \<noteq> ExecKey s" "keyRuntime \<noteq> ExecKey s"
  by (simp_all add: ctx_keys)

lemma layers_with_both [ctx_simps]:
  "getRequestLayer (with_both (ExecKey i) (StrKey j) s c) = getRequestLayer c"
  "session_layer_of (with_both (ExecKey i) (StrKey j) s c) = session_layer_of c"
  "GetUserLayer (with_both (ExecKey i) (StrKey j) s c) = GetUserLayer c"
  by (simp_all add: with_both_def ctx_simps)

lemma values_with_both:
  "s \<noteq> [] \<Longrightarrow> vals (with_both k k' s c) k = (if k = k' then Some (VStr s) else vals (WithValue k (VStr s) c) k)"
  "s \<noteq> [] \<Longrightarrow> str_value k' (with_both k k' s c) = s"
  "q \<noteq> k \<Longrightarrow> q \<noteq> k' \<Longrightarrow> vals (with_both k k' s c) q = vals c q"
  "q \<noteq> k \<Longrightarrow> q \<noteq> k' \<Longrightarrow> str_value q (with_both k k' s c) = str_value q c"
  by (simp_all add: with_both_def ctx_simps)

lemma layers_WithSession [ctx_simps]:
  "session_layer_of (fst (WithSession now s u c w)) =
     Some \<lparr>sl_SessionID = s, sl_UserID = u, sl_State = fst (GetOrCreate now s w)\<rparr>"
  "GetUserLayer (fst (WithSession now s u c w)) = GetUserLayer c"
  by (simp_all add: WithSession_def Let_def ctx_simps split: prod.split)

lemma tagged_ctx:
  "fst (WithCorrelationIDs now t (s # ss) u c w) =
     with_both keyUserID compatUserID u (with_both keySessionID compatSessionID (s # ss)
       (with_both keyTraceID compatTraceID t (fst (WithSession now (s # ss) u c w))))"
  by (simp add: WithCorrelationIDs_def Let_def split: prod.split)

text \<open>The layers of the tagged context, and its values.\<close>

lemma correlation_layers:
  "getRequestLayer (fst (WithCorrelationIDs now t (s # ss) u c w)) = getRequestLayer c"
  "session_layer_of (fst (WithCorrelationIDs now t (s # ss) u c w)) =
     Some \<lparr>sl_SessionID = s # ss, sl_UserID = u, sl_State = fst (GetOrCreate now (s # ss) w)\<rparr>"
  "GetUserLayer (fst (WithCorrelationIDs now t (s # ss) u c w)) = GetUserLayer c"
  by (simp_all add: tagged_ctx exec_keys ctx_simps)

lemma correlation_values:
  "vals (fst (WithCorrelationIDs now (t # ts) (s # ss) (u # us) c w)) keyTraceID = Some (VStr (t # ts))"
  "str_value (StrKey ''trace_id'') (fst (WithCorrelationIDs now (t # ts) (s # ss) (u # us) c w)) = t # ts"
  "vals (fst (WithCorrelationIDs now (t # ts) (s # ss) (u # us) c w)) keyUserID = Some (VStr (u # us))"
  by (simp_all add: tagged_ctx values_with_both exec_keys compat_keys)

text \<open>
  The identifiers that a request is tagged with.  The session read back is the one given.  A trace
  gives way to that of an execution the parent belongs to, and a user given together with a session
  gives way to a user the parent was authenticated as.
\<close>
theorem correlation_ids:
  "let c' = fst (WithCorrelationIDs now (t # ts) (s # ss) (u # us) c w)
   in exec_GetSessionID c' = s # ss \<and>
      exec_GetTraceID c' = (if own_trace c = [] then t # ts else own_trace c) \<and>
      exec_GetUserID c' = (if own_user c = [] then u # us else own_user c)"
  by (auto simp: Let_def exec_GetSessionID_def GetSessionID_def exec_GetTraceID_def GetTraceID_def exec_GetUserID_def GetUserID_def
      own_trace_def own_user_def fallback_def correlation_layers correlation_values split: option.split)

lemma correlation_user_alone: "exec_GetUserID (fst (WithCorrelationIDs now t [] (u # us) c w)) = u # us"
  by (simp add: WithCorrelationIDs_def with_both_def WithUser_def exec_GetUserID_def GetUserID_def exec_keys ctx_simps)

lemma no_ids_no_change: "WithCorrelationIDs now [] [] [] c w = (c, w)"
  by (simp add: WithCorrelationIDs_def with_both_def)

text \<open>The limit of a budget, and a budget of its own for each call.\<close>

lemma exec_budget: "exec_GetCostBudget (fst (exec_WithCostBudget b c w)) = b"
  by (simp add: exec_GetCostBudget_def exec_WithCostBudget_def NewCostBudget_def WithCostBudget_def GetCostBudget_def exec_keys ctx_simps)

end
