(* ===== verification/Logger.thy ===== *)
theory Logger
  imports Exec_Context Platform_Error Bounded_Buffer
begin

text \<open>
  \<open>core/telemetry/logger.go\<close>: levels, fields and their enrichment, expansion and redaction, the queue
  between the callers and the goroutine that writes, and the sinks.  A panic is \<open>Inl\<close> its message.
  The layout of times and \<open>json.Marshal\<close> are arguments of the sinks.
\<close>

section \<open>Levels\<close>

datatype log_level = LevelDebug | LevelInfo | LevelWarn | LevelError | LevelFatal

fun level_number :: "log_level \<Rightarrow> nat" where
  "level_number LevelDebug = 0"
| "level_number LevelInfo = 1"
| "level_number LevelWarn = 2"
| "level_number LevelError = 3"
| "level_number LevelFatal = 4"

lemma level_number_inj: "level_number l = level_number l' \<Longrightarrow> l = l'"
  by (cases l; cases l') simp_all

instantiation log_level :: linorder
begin

definition less_eq_log_level :: "log_level \<Rightarrow> log_level \<Rightarrow> bool" where
  "less_eq_log_level l l' \<longleftrightarrow> level_number l \<le> level_number l'"

definition less_log_level :: "log_level \<Rightarrow> log_level \<Rightarrow> bool" where
  "less_log_level l l' \<longleftrightarrow> level_number l < level_number l'"

instance
  by standard (auto simp: less_eq_log_level_def less_log_level_def level_number_inj)

end

fun level_name :: "log_level \<Rightarrow> string" where
  "level_name LevelDebug = ''DEBUG''"
| "level_name LevelInfo = ''INFO''"
| "level_name LevelWarn = ''WARN''"
| "level_name LevelError = ''ERROR''"
| "level_name LevelFatal = ''FATAL''"

definition ParseLevel :: "string \<Rightarrow> log_level" where
  "ParseLevel s =
     (let l = to_lower s
      in if l = ''debug'' then LevelDebug
         else if l = ''warn'' then LevelWarn
         else if l = ''error'' then LevelError
         else if l = ''fatal'' then LevelFatal
         else LevelInfo)"

lemma ParseLevel_level_name: "ParseLevel (level_name l) = l"
  by (cases l; hypsubst; code_simp)

section \<open>Fields\<close>

datatype field_value = FAny any | FErr go_error

record field =
  fd_Key :: string
  fd_Value :: field_value
  fd_IsSensitive :: bool
  fd_IsError :: bool

definition plain_field :: "string \<Rightarrow> any \<Rightarrow> field" where
  "plain_field key v = \<lparr>fd_Key = key, fd_Value = FAny v, fd_IsSensitive = False, fd_IsError = False\<rparr>"

definition SensitiveField :: "string \<Rightarrow> field_value \<Rightarrow> field" where
  "SensitiveField key v = \<lparr>fd_Key = key, fd_Value = v, fd_IsSensitive = True, fd_IsError = False\<rparr>"

definition ErrorField :: "field_value \<Rightarrow> field" where
  "ErrorField err = \<lparr>fd_Key = ''error'', fd_Value = err, fd_IsSensitive = False, fd_IsError = True\<rparr>"

definition show_value :: "field_value \<Rightarrow> string" where
  "show_value v = (case v of FAny a \<Rightarrow> show_any a | FErr e \<Rightarrow> Error e)"

subsection \<open>Enrichment\<close>

fun hasField :: "field list \<Rightarrow> string \<Rightarrow> bool" where
  "hasField [] key = False"
| "hasField (f # fs) key = (if fd_Key f = key then True else hasField fs key)"

definition addEnrichedField :: "field list \<Rightarrow> field list \<Rightarrow> string \<Rightarrow> string \<Rightarrow> field list" where
  "addEnrichedField enriched entryFields key val =
     (if hasField entryFields key then enriched
      else if val \<noteq> [] then enriched @ [plain_field key (AStr val)]
      else enriched)"

text \<open>A nil context is \<open>None\<close>.\<close>

definition enrich :: "ctx option \<Rightarrow> field list \<Rightarrow> field list" where
  "enrich c entryFields =
     (case c of
        None \<Rightarrow> entryFields
      | Some c \<Rightarrow>
          let enriched = addEnrichedField [] entryFields ''trace_id'' (GetTraceID c);
              enriched = addEnrichedField enriched entryFields ''session_id'' (GetSessionID c);
              enriched = addEnrichedField enriched entryFields ''execution_id'' (GetExecutionID c);
              enriched = (if \<not> hasField entryFields ''attempt_number''
                          then enriched @ [plain_field ''attempt_number'' (AInt (GetAttemptNumber c))] else enriched);
              enriched = addEnrichedField enriched entryFields ''user_id'' (GetUserID c);
              enriched = (if \<not> hasField entryFields ''tenant_id'' then
                            (case GetUserLayer c of
                               None \<Rightarrow> enriched
                             | Some ul \<Rightarrow>
                                 if ul_OrgID ul \<noteq> [] then enriched @ [plain_field ''tenant_id'' (AStr (ul_OrgID ul))]
                                 else enriched)
                          else enriched)
          in enriched @ entryFields)"

subsection \<open>Expansion of errors\<close>

definition expandSingleError :: "go_error \<Rightarrow> field list" where
  "expandSingleError err =
     (case err of
        PlatformError category message retryable cause \<Rightarrow>
          [plain_field ''error.category'' (AStr category),
           plain_field ''error.retryable'' (ABool retryable),
           plain_field ''error.message'' (AStr message)] @
          (case cause of None \<Rightarrow> [] | Some e \<Rightarrow> [plain_field ''error.cause'' (AStr (Error e))])
      | GoError _ \<Rightarrow>
          [plain_field ''error.category'' (AStr ''internal''),
           plain_field ''error.retryable'' (ABool False),
           plain_field ''error.message'' (AStr (Error err))])"

fun expandErrors :: "field list \<Rightarrow> field list" where
  "expandErrors [] = []"
| "expandErrors (f # fs) =
     (case fd_Value f of
        FErr err \<Rightarrow> if fd_IsError f \<or> fd_Key f = ''error'' then expandSingleError err else [f]
      | FAny _ \<Rightarrow> [f]) @ expandErrors fs"

subsection \<open>Redaction\<close>

text \<open>The test that the logger, the spans and the metrics share.\<close>

definition sensitive_name :: "string \<Rightarrow> bool" where
  "sensitive_name key =
     (let keyLower = to_lower key
      in keyLower = ''api_key'' \<or> keyLower = ''secret'' \<or> keyLower = ''password'' \<or> keyLower = ''authorization'' \<or>
         str_contains ''key'' keyLower \<or> str_contains ''secret'' keyLower)"

definition sensitive_in :: "ctx option \<Rightarrow> string \<Rightarrow> bool" where
  "sensitive_in c key = (sensitive_name key \<or> (case c of None \<Rightarrow> False | Some c \<Rightarrow> IsSensitiveKey key c))"

definition redacted_text :: field_value where
  "redacted_text = FAny (AStr ''[REDACTED]'')"

definition redact_field :: "ctx option \<Rightarrow> field \<Rightarrow> field" where
  "redact_field c f =
     (if fd_IsSensitive f \<or> sensitive_in c (fd_Key f)
      then \<lparr>fd_Key = fd_Key f, fd_Value = redacted_text, fd_IsSensitive = True, fd_IsError = False\<rparr>
      else f)"

definition redact :: "ctx option \<Rightarrow> field list \<Rightarrow> field list" where
  "redact c fs = map (redact_field c) fs"

section \<open>Sinks\<close>

record log_entry =
  le_Timestamp :: instant
  le_Level :: log_level
  le_Message :: string
  le_Fields :: "field list"

text \<open>The object that a sink marshals: a field replaces an earlier one of the same key.\<close>

definition json_object :: "(instant \<Rightarrow> string) \<Rightarrow> log_entry \<Rightarrow> (string \<rightharpoonup> field_value)" where
  "json_object rfc3339nano e =
     fold (\<lambda>f m. m(fd_Key f \<mapsto> fd_Value f)) (le_Fields e)
       (Map.empty
         (''timestamp'' \<mapsto> FAny (AStr (rfc3339nano (le_Timestamp e))),
          ''level'' \<mapsto> FAny (AStr (level_name (le_Level e))),
          ''message'' \<mapsto> FAny (AStr (le_Message e))))"

definition fields_part :: "field list \<Rightarrow> string" where
  "fields_part fs =
     (if fs = [] then []
      else '' {'' @ join_with '', '' (map (\<lambda>f. fd_Key f @ ''='' @ show_value (fd_Value f)) fs) @ ''}'')"

fun level_color :: "log_level \<Rightarrow> string" where
  "level_color LevelDebug = CHR 0x1B # ''[36m''"
| "level_color LevelInfo = CHR 0x1B # ''[32m''"
| "level_color LevelWarn = CHR 0x1B # ''[33m''"
| "level_color LevelError = CHR 0x1B # ''[31m''"
| "level_color LevelFatal = CHR 0x1B # ''[35m''"

text \<open>The process environment of the sinks: \<open>$TERM\<close>, the three layouts of a time, the marshaller.\<close>

record sink_env =
  sv_TERM :: string
  sv_rfc3339 :: "instant \<Rightarrow> string"
  sv_rfc3339nano :: "instant \<Rightarrow> string"
  sv_layout :: "instant \<Rightarrow> string"
  sv_marshal :: "(string \<rightharpoonup> field_value) \<Rightarrow> go_error + string"

definition stdout_text :: "sink_env \<Rightarrow> log_entry \<Rightarrow> string" where
  "stdout_text sv e =
     (let colors = (if sv_TERM sv \<noteq> ''dumb'' then (level_color (le_Level e), CHR 0x1B # ''[0m'') else ([], []))
      in sv_layout sv (le_Timestamp e) @ '' '' @ fst colors @ ''['' @ level_name (le_Level e) @ '']'' @ snd colors @ '' '' @
         le_Message e @ fields_part (le_Fields e))"

definition file_text :: "sink_env \<Rightarrow> log_entry \<Rightarrow> string" where
  "file_text sv e =
     sv_layout sv (le_Timestamp e) @ '' ['' @ level_name (le_Level e) @ ''] '' @ le_Message e @ fields_part (le_Fields e)"

text \<open>A sink with what it has written, its latest line last.\<close>

datatype log_sink =
    StdoutSink (sink_isJSON: bool) (sink_lines: "string list")
  | FileSink (sink_path: string) (sink_isJSON: bool) (sink_lines: "string list")
  | OTLPSink (sink_endpoint: string) (sink_records: "log_entry list")

definition NewStdoutSink :: "bool \<Rightarrow> log_sink" where
  "NewStdoutSink isJSON = StdoutSink isJSON []"

text \<open>\<open>can_open\<close> says whether \<open>os.OpenFile\<close> succeeds; nobody reads its error.\<close>

definition NewFileSink :: "(string \<Rightarrow> bool) \<Rightarrow> string \<Rightarrow> bool \<Rightarrow> log_sink option" where
  "NewFileSink can_open path isJSON = (if \<not> can_open path then None else Some (FileSink path isJSON []))"

definition NewOTLPSink :: "string \<Rightarrow> log_sink" where
  "NewOTLPSink endpoint = OTLPSink endpoint []"

text \<open>What a write returns, and the lines or records after it.\<close>

definition StdoutSink_Write :: "sink_env \<Rightarrow> bool \<Rightarrow> log_entry \<Rightarrow> string list \<Rightarrow> go_error option \<times> string list" where
  "StdoutSink_Write sv isJSON e ls =
     (if isJSON then
        (case sv_marshal sv (json_object (sv_rfc3339nano sv) e) of
           Inl err \<Rightarrow> (Some err, ls)
         | Inr data \<Rightarrow> (None, ls @ [data]))
      else (None, ls @ [stdout_text sv e]))"

definition FileSink_Write :: "sink_env \<Rightarrow> bool \<Rightarrow> log_entry \<Rightarrow> string list \<Rightarrow> go_error option \<times> string list" where
  "FileSink_Write sv isJSON e ls =
     (if isJSON then
        (case sv_marshal sv (json_object (sv_rfc3339nano sv) e) of
           Inl err \<Rightarrow> (Some err, ls)
         | Inr data \<Rightarrow> (None, ls @ [data]))
      else (None, ls @ [file_text sv e]))"

definition OTLPSink_Write :: "log_entry \<Rightarrow> log_entry list \<Rightarrow> go_error option \<times> log_entry list" where
  "OTLPSink_Write e records = (None, records @ [e])"

lemma OTLPSink_Write_snd [simp]: "snd (OTLPSink_Write e records) = records @ [e]"
  by (simp add: OTLPSink_Write_def)

text \<open>The registry drops the error of a write.\<close>

fun sink_write :: "sink_env \<Rightarrow> log_entry \<Rightarrow> log_sink \<Rightarrow> log_sink" where
  "sink_write sv e (StdoutSink isJSON ls) = StdoutSink isJSON (snd (StdoutSink_Write sv isJSON e ls))"
| "sink_write sv e (FileSink path isJSON ls) = FileSink path isJSON (snd (FileSink_Write sv isJSON e ls))"
| "sink_write sv e (OTLPSink endpoint records) = OTLPSink endpoint (snd (OTLPSink_Write e records))"

fun GetRecords :: "log_sink \<Rightarrow> log_entry list" where
  "GetRecords (OTLPSink endpoint records) = records"
| "GetRecords _ = []"

section \<open>The queue\<close>

definition queueSize :: nat where "queueSize = 5000"

record log_registry =
  sinks :: "log_sink list"
  log_queue :: "log_entry list"
  dropped :: nat
  closeCh_closed :: bool
  queue_closed :: bool

definition globalRegistry :: log_registry where
  "globalRegistry = \<lparr>sinks = [], log_queue = [], dropped = 0, closeCh_closed = False, queue_closed = False\<rparr>"

definition RegisterLogSink :: "log_sink \<Rightarrow> log_registry \<Rightarrow> log_registry" where
  "RegisterLogSink s r = r\<lparr>sinks := sinks r @ [s]\<rparr>"

definition ClearLogSinks :: "log_registry \<Rightarrow> log_registry" where
  "ClearLogSinks r = r\<lparr>sinks := []\<rparr>"

text \<open>What the goroutine \<open>processQueue\<close> does with an entry, and when \<open>closeCh\<close> is closed.\<close>

definition write_all :: "sink_env \<Rightarrow> log_entry \<Rightarrow> log_registry \<Rightarrow> log_registry" where
  "write_all sv e r = r\<lparr>sinks := map (sink_write sv e) (sinks r)\<rparr>"

definition process_entry :: "sink_env \<Rightarrow> log_registry \<Rightarrow> log_registry" where
  "process_entry sv r = (case log_queue r of [] \<Rightarrow> r | e # q \<Rightarrow> write_all sv e (r\<lparr>log_queue := q\<rparr>))"

definition process_close :: "sink_env \<Rightarrow> log_registry \<Rightarrow> log_registry" where
  "process_close sv r = fold (write_all sv) (log_queue r) (r\<lparr>queue_closed := True, log_queue := []\<rparr>)"

text \<open>The caller returns when the goroutine has; a second call closes a closed channel.\<close>

definition ShutdownLogging :: "sink_env \<Rightarrow> log_registry \<Rightarrow> string + log_registry" where
  "ShutdownLogging sv r =
     (if closeCh_closed r then Inl ''close of closed channel''
      else Inr (process_close sv (r\<lparr>closeCh_closed := True\<rparr>)))"

text \<open>The channel operations of a caller, in turn: offer, make room, offer again.\<close>

definition offer :: "log_entry \<Rightarrow> log_registry \<Rightarrow> string + (bool \<times> log_registry)" where
  "offer e r =
     (if queue_closed r then Inl ''send on closed channel''
      else if length (log_queue r) < queueSize then Inr (True, r\<lparr>log_queue := log_queue r @ [e]\<rparr>)
      else Inr (False, r))"

definition evict :: "log_registry \<Rightarrow> log_registry" where
  "evict r = (case log_queue r of [] \<Rightarrow> if queue_closed r then r\<lparr>dropped := dropped r + 1\<rparr> else r
     | _ # q \<Rightarrow> r\<lparr>log_queue := q, dropped := dropped r + 1\<rparr>)"

definition droppable :: "log_level \<Rightarrow> bool" where
  "droppable l \<longleftrightarrow> l = LevelDebug \<or> l = LevelInfo"

section \<open>Logging\<close>

text \<open>\<open>now\<close> reads the clock; \<open>exited\<close> is the status \<open>exitFunc\<close> was called with.\<close>

record logging =
  currentLogLevel :: log_level
  registry :: log_registry
  log_stderr :: "string list"
  exited :: "int option"

definition boot_logging :: logging where
  "boot_logging = \<lparr>currentLogLevel = LevelInfo, registry = globalRegistry, log_stderr = [], exited = None\<rparr>"

definition SetGlobalLogLevel :: "log_level \<Rightarrow> logging \<Rightarrow> logging" where
  "SetGlobalLogLevel level lg = lg\<lparr>currentLogLevel := level\<rparr>"

definition GetGlobalLogLevel :: "logging \<Rightarrow> log_level" where
  "GetGlobalLogLevel lg = currentLogLevel lg"

definition saturated_line :: "sink_env \<Rightarrow> instant \<Rightarrow> string" where
  "saturated_line sv now =
     ''{\"timestamp\":\"'' @ sv_rfc3339 sv now @ ''\",\"level\":\"ERROR\",\"message\":\"logging queue saturated, dropping log\"}''"

text \<open>The entry that a call makes of its fields.\<close>

definition make_entry :: "instant \<Rightarrow> ctx option \<Rightarrow> log_level \<Rightarrow> string \<Rightarrow> field list \<Rightarrow> field list \<Rightarrow> log_entry" where
  "make_entry now c level msg own fs =
     (let allFields = enrich c own @ fs;
          allFields = expandErrors allFields;
          allFields = redact c allFields
      in \<lparr>le_Timestamp = now, le_Level = level, le_Message = msg, le_Fields = allFields\<rparr>)"

definition submit_entry :: "sink_env \<Rightarrow> instant \<Rightarrow> log_entry \<Rightarrow> logging \<Rightarrow> string + logging" where
  "submit_entry sv now e lg =
     (case offer e (registry lg) of
        Inl panic \<Rightarrow> Inl panic
      | Inr (True, r) \<Rightarrow> Inr (lg\<lparr>registry := r\<rparr>)
      | Inr (False, r) \<Rightarrow>
          if droppable (le_Level e) then Inr (lg\<lparr>registry := r\<lparr>dropped := dropped r + 1\<rparr>\<rparr>)
          else
            (case offer e (evict r) of
               Inl panic \<Rightarrow> Inl panic
             | Inr (True, r) \<Rightarrow> Inr (lg\<lparr>registry := r\<rparr>)
             | Inr (False, r) \<Rightarrow> Inr (lg\<lparr>registry := r, log_stderr := log_stderr lg @ [saturated_line sv now]\<rparr>)))"

text \<open>A logger is its fields; \<open>clone\<close> copies them, so that \<open>With\<close> leaves the logger it is called on.\<close>

definition NewPlatformLogger :: "field list" where
  "NewPlatformLogger = []"

definition clone_logger :: "field list \<Rightarrow> field list" where
  "clone_logger l = l"

definition With :: "field list \<Rightarrow> field list \<Rightarrow> field list" where
  "With fs l = clone_logger l @ fs"

definition log_call ::
  "sink_env \<Rightarrow> instant \<Rightarrow> ctx option \<Rightarrow> log_level \<Rightarrow> string \<Rightarrow> field list \<Rightarrow> field list \<Rightarrow> logging \<Rightarrow> string + logging" where
  "log_call sv now c level msg fs l lg =
     (if level < GetGlobalLogLevel lg then Inr lg
      else
        case submit_entry sv now (make_entry now c level msg l fs) lg of
          Inl panic \<Rightarrow> Inl panic
        | Inr lg \<Rightarrow>
            if level = LevelFatal then
              (case ShutdownLogging sv (registry lg) of
                 Inl panic \<Rightarrow> Inl panic
               | Inr r \<Rightarrow> Inr (lg\<lparr>registry := r, exited := Some 1\<rparr>))
            else Inr lg)"

text \<open>The methods of the interface, one per level.\<close>

definition logDebug ::
  "sink_env \<Rightarrow> instant \<Rightarrow> ctx option \<Rightarrow> string \<Rightarrow> field list \<Rightarrow> field list \<Rightarrow> logging \<Rightarrow> string + logging" where
  "logDebug sv now c msg fs l lg = log_call sv now c LevelDebug msg fs l lg"

definition logInfo ::
  "sink_env \<Rightarrow> instant \<Rightarrow> ctx option \<Rightarrow> string \<Rightarrow> field list \<Rightarrow> field list \<Rightarrow> logging \<Rightarrow> string + logging" where
  "logInfo sv now c msg fs l lg = log_call sv now c LevelInfo msg fs l lg"

definition logWarn ::
  "sink_env \<Rightarrow> instant \<Rightarrow> ctx option \<Rightarrow> string \<Rightarrow> field list \<Rightarrow> field list \<Rightarrow> logging \<Rightarrow> string + logging" where
  "logWarn sv now c msg fs l lg = log_call sv now c LevelWarn msg fs l lg"

definition logError ::
  "sink_env \<Rightarrow> instant \<Rightarrow> ctx option \<Rightarrow> string \<Rightarrow> field list \<Rightarrow> field list \<Rightarrow> logging \<Rightarrow> string + logging" where
  "logError sv now c msg fs l lg = log_call sv now c LevelError msg fs l lg"

definition logFatal ::
  "sink_env \<Rightarrow> instant \<Rightarrow> ctx option \<Rightarrow> string \<Rightarrow> field list \<Rightarrow> field list \<Rightarrow> logging \<Rightarrow> string + logging" where
  "logFatal sv now c msg fs l lg = log_call sv now c LevelFatal msg fs l lg"

definition NewJSONLogger :: "string \<Rightarrow> logging \<Rightarrow> field list \<times> logging" where
  "NewJSONLogger levelName lg = (NewPlatformLogger, SetGlobalLogLevel (ParseLevel levelName) lg)"

end
