(* ===== verification/Logger_Laws.thy ===== *)
theory Logger_Laws
  imports Logger "HOL-Library.Sublist"
begin

text \<open>
  What \<open>Logger\<close> promises: what a log line can depend on, which entries a full queue gives up, what
  becomes of an entry when callers and the writing goroutine interleave, and what a fatal call leaves.
\<close>

section \<open>Secrecy\<close>

text \<open>The fields that the expansion takes apart, and those whose value the redaction replaces.\<close>

definition expands :: "field \<Rightarrow> bool" where
  "expands f = (case fd_Value f of FErr _ \<Rightarrow> fd_IsError f \<or> fd_Key f = ''error'' | FAny _ \<Rightarrow> False)"

definition secret :: "ctx option \<Rightarrow> field \<Rightarrow> bool" where
  "secret c f = ((fd_IsSensitive f \<or> sensitive_in c (fd_Key f)) \<and> \<not> expands f)"

text \<open>Two fields that an observer of the log must not tell apart.\<close>

definition alike :: "ctx option \<Rightarrow> field \<Rightarrow> field \<Rightarrow> bool" where
  "alike c f g = (f = g \<or> fd_Key f = fd_Key g \<and> secret c f \<and> secret c g)"

lemma expandErrors_append: "expandErrors (fs @ gs) = expandErrors fs @ expandErrors gs"
  by (induction fs) auto

lemma expandErrors_secret: "secret c f \<Longrightarrow> expandErrors (f # fs) = f # expandErrors fs"
  by (auto simp: secret_def expands_def split: field_value.splits if_splits)

lemma redact_alike: "alike c f g \<Longrightarrow> redact c (expandErrors (f # fs)) = redact c (expandErrors (g # fs))"
proof (cases "f = g")
  case False
  moreover assume "alike c f g"
  ultimately have fg: "fd_Key f = fd_Key g" "secret c f" "secret c g" by (auto simp: alike_def)
  then have "redact_field c f = redact_field c g" by (auto simp: redact_field_def secret_def)
  then show ?thesis unfolding redact_def expandErrors_secret [OF fg(2)] expandErrors_secret [OF fg(3)] by simp
qed simp

lemma redact_alikes: "list_all2 (alike c) fs gs \<Longrightarrow> redact c (expandErrors fs) = redact c (expandErrors gs)"
proof (induction rule: list_all2_induct)
  case (Cons f fs g gs)
  have "redact c (expandErrors (f # fs)) = redact c (expandErrors [f]) @ redact c (expandErrors fs)"
    by (simp add: redact_def)
  also have "\<dots> = redact c (expandErrors [g]) @ redact c (expandErrors gs)"
    using redact_alike [OF Cons.hyps(1), of "[]"] Cons.IH by simp
  also have "\<dots> = redact c (expandErrors (g # gs))" by (simp add: redact_def)
  finally show ?case .
qed simp

lemma hasField_alikes: "list_all2 (alike c) fs gs \<Longrightarrow> hasField fs k = hasField gs k"
  by (induction rule: list_all2_induct) (auto simp: alike_def)

text \<open>Enrichment looks at the keys alone.\<close>

lemma enrich_alikes:
  assumes "list_all2 (alike d) fs gs"
  obtains pre where "enrich c fs = pre @ fs" and "enrich c gs = pre @ gs"
proof -
  note same = hasField_alikes [OF assms]
  show ?thesis
  proof (cases c)
    case None
    then show ?thesis using that [of "[]"] by (simp add: enrich_def)
  next
    case (Some x)
    then show ?thesis by (intro that) (simp_all add: enrich_def same addEnrichedField_def Let_def)
  qed
qed

lemma make_entry_alikes:
  assumes "list_all2 (alike c) own own'" and "list_all2 (alike c) fs fs'"
  shows "make_entry now c level msg own fs = make_entry now c level msg own' fs'"
proof -
  obtain pre where "enrich c own = pre @ own" "enrich c own' = pre @ own'" using enrich_alikes [OF assms(1)] .
  then show ?thesis
    using redact_alikes [OF assms(1)] redact_alikes [OF assms(2)]
    by (simp add: make_entry_def expandErrors_append) (simp add: redact_def)
qed

text \<open>
  C21: a secret does not reach the log.  Two calls whose fields differ only in the values of fields that
  are marked sensitive, or whose keys are, leave the same queue, sinks and counters, unless the value is
  an error that the logger takes apart.
\<close>
theorem log_secrecy:
  assumes "list_all2 (alike c) own own'" and "list_all2 (alike c) fs fs'"
  shows "log_call sv now c level msg fs own lg = log_call sv now c level msg fs' own' lg"
  unfolding log_call_def make_entry_alikes [OF assms] ..

text \<open>Sinks whose lines are empty.\<close>

definition plain_sinks :: sink_env where
  "plain_sinks = \<lparr>sv_TERM = ''dumb'', sv_rfc3339 = (\<lambda>_. []), sv_rfc3339nano = (\<lambda>_. []), sv_layout = (\<lambda>_. []),
     sv_marshal = (\<lambda>_. Inr [])\<rparr>"

lemma log_secrecy_witness:
  "log_call plain_sinks 0 (Some (WithSensitiveKey ''pin'' Background)) LevelError ''m''
      [plain_field ''Api_Key'' (AStr ''sk-1''), plain_field ''pin'' (AInt 1), SensitiveField ''note'' (FAny (AStr ''a''))]
      NewPlatformLogger boot_logging =
   log_call plain_sinks 0 (Some (WithSensitiveKey ''pin'' Background)) LevelError ''m''
      [plain_field ''Api_Key'' (AStr ''other''), plain_field ''pin'' (AInt 2), SensitiveField ''note'' (FAny ANil)]
      NewPlatformLogger boot_logging"
proof (rule log_secrecy)
  have k: "sensitive_name ''Api_Key''" "IsSensitiveKey ''pin'' (WithSensitiveKey ''pin'' Background)" by code_simp+
  show "list_all2 (alike (Some (WithSensitiveKey ''pin'' Background)))
      [plain_field ''Api_Key'' (AStr ''sk-1''), plain_field ''pin'' (AInt 1), SensitiveField ''note'' (FAny (AStr ''a''))]
      [plain_field ''Api_Key'' (AStr ''other''), plain_field ''pin'' (AInt 2), SensitiveField ''note'' (FAny ANil)]"
    by (simp add: alike_def secret_def expands_def plain_field_def SensitiveField_def sensitive_in_def k)
qed (simp add: NewPlatformLogger_def)

text \<open>The exception is real: the text of an error in a field marked sensitive is logged.\<close>

lemma sensitive_error_leaks:
  "let f = (ErrorField (FErr (GoError ''dsn=root:pw'')))\<lparr>fd_IsSensitive := True\<rparr>;
       e = make_entry 0 (Some (WithSensitiveKey ''error'' Background)) LevelError ''m'' [] [f]
   in List.find (\<lambda>f. fd_Key f = ''error.message'') (le_Fields e) = Some (plain_field ''error.message'' (AStr ''dsn=root:pw''))"
  by code_simp

text \<open>A field can take the place of the entry's own level in the JSON object.\<close>

lemma field_hides_level:
  "json_object rfc (make_entry 0 None LevelFatal ''m'' [] [plain_field ''level'' (AStr ''DEBUG'')]) ''level'' =
     Some (FAny (AStr ''DEBUG''))"
proof -
  have "redact None [plain_field ''level'' (AStr ''DEBUG'')] = [plain_field ''level'' (AStr ''DEBUG'')]" by code_simp
  then show ?thesis by (simp add: make_entry_def json_object_def enrich_def plain_field_def)
qed

section \<open>A full queue\<close>

definition push_log :: "log_entry \<Rightarrow> log_entry list \<Rightarrow> log_entry list" where
  "push_log e q =
     (if length q < queueSize then q @ [e]
      else if droppable (le_Level e) then q else tl q @ [e])"

interpretation logq: bounded_buffer push_log queueSize
proof
  fix q :: "log_entry list" and e assume "length q \<le> queueSize"
  then show "length (push_log e q) \<le> queueSize" by (cases q) (auto simp: push_log_def queueSize_def)
next
  fix q :: "log_entry list" and e
  have "subseq (tl q) q" by (cases q) auto
  then show "subseq (push_log e q) (q @ [e])" by (auto simp: push_log_def intro: list_emb_append_mono)
qed (simp add: push_log_def)

fun submit_all :: "sink_env \<Rightarrow> instant \<Rightarrow> log_entry list \<Rightarrow> logging \<Rightarrow> string + logging" where
  "submit_all sv now [] lg = Inr lg"
| "submit_all sv now (e # es) lg = (case submit_entry sv now e lg of Inl p \<Rightarrow> Inl p | Inr lg \<Rightarrow> submit_all sv now es lg)"

lemma submit_entry_push:
  assumes "\<not> queue_closed (registry lg)" and "length (log_queue (registry lg)) \<le> queueSize"
  obtains lg' where "submit_entry sv now e lg = Inr lg'" and "log_queue (registry lg') = push_log e (log_queue (registry lg))"
    and "\<not> queue_closed (registry lg')" and "log_stderr lg' = log_stderr lg"
    and "length (log_queue (registry lg')) + dropped (registry lg') = length (log_queue (registry lg)) + dropped (registry lg) + 1"
proof (cases "length (log_queue (registry lg)) < queueSize")
  case True
  with assms that show ?thesis by (simp add: submit_entry_def offer_def push_log_def)
next
  case False
  with assms(2) obtain x q where q: "log_queue (registry lg) = x # q" "length q < queueSize"
    by (cases "log_queue (registry lg)") (auto simp: queueSize_def)
  with False assms that show ?thesis
    by (cases "droppable (le_Level e)") (simp_all add: submit_entry_def offer_def push_log_def evict_def)
qed

text \<open>The entries that are never turned away: from WARN upwards.\<close>

abbreviation high :: "log_entry \<Rightarrow> bool" where
  "high e \<equiv> \<not> droppable (le_Level e)"

lemma suffix_tl: "suffix (tl xs) xs"
  by (cases xs) (auto intro: suffix_ConsI)

lemma suffix_filter: "suffix xs ys \<Longrightarrow> suffix (filter P xs) (filter P ys)"
  by (auto simp: suffix_def)

lemma push_high: "suffix (filter high (push_log e q)) (filter high (q @ [e]))"
  using suffix_filter [OF suffix_tl [of q], of high]
  by (auto simp: push_log_def suffix_def)

lemma fold_push_high: "suffix (filter high (fold push_log es q)) (filter high (q @ es))"
proof (induction es arbitrary: q)
  case (Cons e es)
  have "suffix (filter high (fold push_log es (push_log e q))) (filter high (push_log e q @ es))" by (rule Cons.IH)
  also have "suffix (filter high (push_log e q @ es)) (filter high ((q @ [e]) @ es))"
    using push_high [of e q] by (auto simp: suffix_def)
  finally show ?case by simp
qed simp

lemma submit_all_push:
  assumes "\<not> queue_closed (registry lg)" and "length (log_queue (registry lg)) \<le> queueSize"
  obtains lg' where "submit_all sv now es lg = Inr lg'" and "log_queue (registry lg') = fold push_log es (log_queue (registry lg))"
    and "log_stderr lg' = log_stderr lg"
    and "length (log_queue (registry lg')) + dropped (registry lg') =
         length (log_queue (registry lg)) + dropped (registry lg) + length es"
  using assms
proof (induction es arbitrary: lg thesis)
  case Nil
  then show ?case by simp
next
  case (Cons e es)
  obtain lg1 where lg1: "submit_entry sv now e lg = Inr lg1" "log_queue (registry lg1) = push_log e (log_queue (registry lg))"
    "\<not> queue_closed (registry lg1)" "log_stderr lg1 = log_stderr lg"
    "length (log_queue (registry lg1)) + dropped (registry lg1) = length (log_queue (registry lg)) + dropped (registry lg) + 1"
    using submit_entry_push [OF Cons.prems(2,3)] by metis
  have "length (log_queue (registry lg1)) \<le> queueSize" using logq.push_bounded [OF Cons.prems(3)] lg1(2) by simp
  then obtain lg2 where "submit_all sv now es lg1 = Inr lg2" "log_queue (registry lg2) = fold push_log es (log_queue (registry lg1))"
    "log_stderr lg2 = log_stderr lg1"
    "length (log_queue (registry lg2)) + dropped (registry lg2) = length (log_queue (registry lg1)) + dropped (registry lg1) + length es"
    using Cons.IH lg1(3) by metis
  with lg1 Cons.prems(1) show ?case by simp
qed

text \<open>
  C36: what a queue that nobody empties holds after any entries.  It has at most 5000 of them, in the order
  they came; of the warnings and errors it has the newest; every other entry is counted as dropped, none
  goes to the standard error, and while there is room nothing is lost.
\<close>
theorem full_queue_policy:
  "case submit_all sv now es boot_logging of
     Inl panic \<Rightarrow> False
   | Inr lg \<Rightarrow>
       let q = log_queue (registry lg)
       in length q \<le> 5000 \<and> subseq q es \<and> suffix (filter high q) (filter high es) \<and>
          length q + dropped (registry lg) = length es \<and> log_stderr lg = [] \<and> (if length es \<le> 5000 then q = es else True)"
proof -
  have boot: "\<not> queue_closed (registry boot_logging)" "log_queue (registry boot_logging) = []"
    "dropped (registry boot_logging) = 0" "log_stderr boot_logging = []"
    by (simp_all add: boot_logging_def globalRegistry_def)
  obtain lg where lg: "submit_all sv now es boot_logging = Inr lg" "log_queue (registry lg) = fold push_log es []"
    "log_stderr lg = []" "length (log_queue (registry lg)) + dropped (registry lg) = length es"
    using submit_all_push [of boot_logging sv now es] by (auto simp: boot)
  show ?thesis
    using lg logq.fold_bounded [of "[]" es] logq.fold_order [of es "[]"] logq.fold_room [of "[]" es] fold_push_high [of es "[]"]
    by (simp add: queueSize_def)
qed

text \<open>An old error makes room for a new warning while newer, less severe entries stay.\<close>

lemma older_error_evicted:
  assumes "length infos + 1 = queueSize"
  shows "push_log w (err # infos) = (if droppable (le_Level w) then err # infos else infos @ [w])"
  using assms by (simp add: push_log_def)

section \<open>Callers and the writing goroutine\<close>

text \<open>
  The channel operations of \<open>log\<close> one by one, each a step of the caller \<open>r\<close>, among the steps of other
  callers and of \<open>processQueue\<close>.
\<close>

datatype caller = Quiet | Offering log_entry | Evicting log_entry | Retrying log_entry

record log_machine =
  lm_logging :: logging
  lm_caller :: "nat \<Rightarrow> caller"

datatype log_op = OpLog nat log_entry | OpOffer nat | OpEvict nat | OpRetry nat | OpProcess

definition with_registry :: "log_registry \<Rightarrow> log_machine \<Rightarrow> log_machine" where
  "with_registry r m = m\<lparr>lm_logging := (lm_logging m)\<lparr>registry := r\<rparr>\<rparr>"

definition set_caller :: "nat \<Rightarrow> caller \<Rightarrow> log_machine \<Rightarrow> log_machine" where
  "set_caller r pc m = m\<lparr>lm_caller := (lm_caller m)(r := pc)\<rparr>"

text \<open>\<open>None\<close>: the step is not the caller's next, or panics.\<close>

fun log_step :: "sink_env \<Rightarrow> instant \<Rightarrow> log_op \<Rightarrow> log_machine \<Rightarrow> log_machine option" where
  "log_step sv now (OpLog r e) m = (if lm_caller m r = Quiet then Some (set_caller r (Offering e) m) else None)"
| "log_step sv now (OpOffer r) m =
     (case lm_caller m r of
        Offering e \<Rightarrow>
          (case offer e (registry (lm_logging m)) of
             Inl _ \<Rightarrow> None
           | Inr (True, q) \<Rightarrow> Some (set_caller r Quiet (with_registry q m))
           | Inr (False, q) \<Rightarrow>
               if droppable (le_Level e) then Some (set_caller r Quiet (with_registry (q\<lparr>dropped := dropped q + 1\<rparr>) m))
               else Some (set_caller r (Evicting e) m))
      | _ \<Rightarrow> None)"
| "log_step sv now (OpEvict r) m =
     (case lm_caller m r of
        Evicting e \<Rightarrow> Some (set_caller r (Retrying e) (with_registry (evict (registry (lm_logging m))) m))
      | _ \<Rightarrow> None)"
| "log_step sv now (OpRetry r) m =
     (case lm_caller m r of
        Retrying e \<Rightarrow>
          (case offer e (registry (lm_logging m)) of
             Inl _ \<Rightarrow> None
           | Inr (True, q) \<Rightarrow> Some (set_caller r Quiet (with_registry q m))
           | Inr (False, q) \<Rightarrow>
               Some (set_caller r Quiet
                 (m\<lparr>lm_logging := (lm_logging m)\<lparr>log_stderr := log_stderr (lm_logging m) @ [saturated_line sv now]\<rparr>\<rparr>)))
      | _ \<Rightarrow> None)"
| "log_step sv now OpProcess m = Some (with_registry (process_entry sv (registry (lm_logging m))) m)"

fun log_run :: "sink_env \<Rightarrow> instant \<Rightarrow> log_op list \<Rightarrow> log_machine \<Rightarrow> log_machine option" where
  "log_run sv now [] m = Some m"
| "log_run sv now (op # ops) m = (case log_step sv now op m of None \<Rightarrow> None | Some m' \<Rightarrow> log_run sv now ops m')"

text \<open>With one OTLP sink, whose records show what was written.\<close>

definition observed_logging :: log_machine where
  "observed_logging =
     \<lparr>lm_logging = boot_logging\<lparr>registry := RegisterLogSink (OTLPSink ''otlp'' []) globalRegistry\<rparr>, lm_caller = (\<lambda>_. Quiet)\<rparr>"

fun written :: "log_sink list \<Rightarrow> log_entry list" where
  "written [OTLPSink endpoint records] = records"
| "written _ = []"

definition busy :: "log_machine \<Rightarrow> nat set" where
  "busy m = {r. lm_caller m r \<noteq> Quiet}"

definition log_inv :: "nat \<Rightarrow> log_machine \<Rightarrow> bool" where
  "log_inv n m \<longleftrightarrow>
     (let r = registry (lm_logging m)
      in finite (busy m) \<and> length (log_queue r) \<le> queueSize \<and> \<not> queue_closed r \<and>
         (\<exists>recs. sinks r = [OTLPSink ''otlp'' recs]) \<and>
         n = length (written (sinks r)) + length (log_queue r) + dropped r + length (log_stderr (lm_logging m)) + card (busy m))"

lemma busy_simps [simp]:
  "busy (m\<lparr>lm_logging := lg\<rparr>) = busy m"
  "busy (with_registry q m) = busy m"
  "busy (set_caller r pc m) = (if pc = Quiet then busy m - {r} else insert r (busy m))"
  by (auto simp: busy_def with_registry_def set_caller_def)

lemma registry_simps [simp]:
  "lm_logging (set_caller r pc m) = lm_logging m"
  "lm_logging (with_registry q m) = (lm_logging m)\<lparr>registry := q\<rparr>"
  by (simp_all add: with_registry_def set_caller_def)

lemma card_done: "finite (busy m) \<Longrightarrow> lm_caller m r \<noteq> Quiet \<Longrightarrow> card (busy m - {r}) = card (busy m) - 1 \<and> 0 < card (busy m)"
  by (auto simp: busy_def card_gt_0_iff)

lemma busy_insert: "lm_caller m r \<noteq> Quiet \<Longrightarrow> insert r (busy m) = busy m"
  by (auto simp: busy_def)

lemma card_start: "finite (busy m) \<Longrightarrow> lm_caller m r = Quiet \<Longrightarrow> card (insert r (busy m)) = Suc (card (busy m))"
  by (simp add: busy_def)

fun submissions :: "log_op \<Rightarrow> nat" where
  "submissions (OpLog r e) = 1"
| "submissions _ = 0"

lemma log_inv_step:
  assumes "log_inv n m" and "log_step sv now op m = Some m'"
  shows "log_inv (n + submissions op) m'"
proof (cases op)
  case (OpLog r e)
  with assms show ?thesis by (auto simp: log_inv_def Let_def card_start split: if_splits)
next
  case (OpOffer r)
  with assms obtain e where e: "lm_caller m r = Offering e" by (auto split: caller.splits)
  with card_done [of m r] assms OpOffer show ?thesis
    by (auto simp: log_inv_def Let_def offer_def busy_insert split: if_splits)
next
  case (OpEvict r)
  with assms obtain e where e: "lm_caller m r = Evicting e" by (auto split: caller.splits)
  with assms OpEvict show ?thesis
    by (auto simp: log_inv_def Let_def evict_def busy_insert split: list.splits)
next
  case (OpRetry r)
  with assms obtain e where e: "lm_caller m r = Retrying e" by (auto split: caller.splits)
  with card_done [of m r] assms OpRetry show ?thesis
    by (auto simp: log_inv_def Let_def offer_def split: if_splits)
next
  case OpProcess
  with assms show ?thesis
    by (auto simp: log_inv_def Let_def process_entry_def write_all_def split: list.splits)
qed

lemma log_inv_run: "log_inv n m \<Longrightarrow> log_run sv now ops m = Some m' \<Longrightarrow> log_inv (n + sum_list (map submissions ops)) m'"
proof (induction ops arbitrary: n m)
  case (Cons op ops)
  then obtain m1 where m1: "log_step sv now op m = Some m1" "log_run sv now ops m1 = Some m'" by (auto split: option.splits)
  from Cons.IH [OF log_inv_step [OF Cons.prems(1) m1(1)] m1(2)] show ?case by (simp add: add.assoc)
qed simp

text \<open>
  C22: no entry is lost without trace.  However callers and the writing goroutine interleave, every entry
  that a caller began to log is written, waiting, counted as dropped, reported on the standard error or
  still in its caller's hands, and the queue never holds more than 5000.
\<close>
theorem log_accounted:
  "case log_run sv now ops observed_logging of
     None \<Rightarrow> True
   | Some m \<Rightarrow>
       let r = registry (lm_logging m)
       in length (log_queue r) \<le> 5000 \<and>
          sum_list (map submissions ops) =
            length (written (sinks r)) + length (log_queue r) + dropped r + length (log_stderr (lm_logging m)) + card (busy m)"
proof (cases "log_run sv now ops observed_logging")
  case (Some m)
  have "log_inv 0 observed_logging"
    by (simp add: log_inv_def observed_logging_def boot_logging_def RegisterLogSink_def globalRegistry_def busy_def)
  from log_inv_run [OF this Some] show ?thesis by (simp add: Some log_inv_def Let_def queueSize_def)
qed simp

section \<open>Shutting down\<close>

lemma fold_write_all:
  "fold (write_all sv) es r = r\<lparr>sinks := map (\<lambda>s. fold (sink_write sv) es s) (sinks r)\<rparr>"
  by (induction es arbitrary: r) (simp_all add: write_all_def)

lemma shutdown_result:
  "\<not> closeCh_closed r \<Longrightarrow> ShutdownLogging sv r =
     Inr (r\<lparr>sinks := map (\<lambda>s. fold (sink_write sv) (log_queue r) s) (sinks r), log_queue := [], closeCh_closed := True,
            queue_closed := True\<rparr>)"
  by (simp add: ShutdownLogging_def process_close_def fold_write_all)

text \<open>
  A fatal call writes everything that waits, its own entry last, and exits.  When \<open>exitFunc\<close> does
  not end the process, as in a test, every further call at an enabled level panics, and so does a second shutdown.
\<close>
theorem fatal_flushes:
  assumes "\<not> closeCh_closed (registry lg)" and "\<not> queue_closed (registry lg)"
    and "length (log_queue (registry lg)) < queueSize"
  shows "case log_call sv now c LevelFatal msg fs own lg of
     Inl panic \<Rightarrow> False
   | Inr lg' \<Rightarrow>
       exited lg' = Some 1 \<and> log_queue (registry lg') = [] \<and>
       sinks (registry lg') =
         map (\<lambda>s. fold (sink_write sv) (log_queue (registry lg) @ [make_entry now c LevelFatal msg own fs]) s) (sinks (registry lg)) \<and>
       log_call sv now2 c2 LevelFatal msg2 fs2 own2 lg' = Inl ''send on closed channel'' \<and>
       ShutdownLogging sv (registry lg') = Inl ''close of closed channel''"
proof -
  have "\<not> LevelFatal < l" for l by (cases l) (simp_all add: less_log_level_def)
  with assms show ?thesis
    by (simp add: log_call_def submit_entry_def offer_def shutdown_result ShutdownLogging_def [of sv "_ \<lparr>closeCh_closed := True\<rparr>"])
      (simp add: ShutdownLogging_def)
qed

lemma fatal_flushes_witness:
  "case log_call plain_sinks 5 None LevelFatal ''bye'' [] NewPlatformLogger (lm_logging observed_logging) of
     Inl panic \<Rightarrow> False
   | Inr lg' \<Rightarrow>
       exited lg' = Some 1 \<and> log_queue (registry lg') = [] \<and>
       sinks (registry lg') = [OTLPSink ''otlp'' [make_entry 5 None LevelFatal ''bye'' [] []]] \<and>
       log_call plain_sinks 6 None LevelFatal ''again'' [] [] lg' = Inl ''send on closed channel'' \<and>
       ShutdownLogging plain_sinks (registry lg') = Inl ''close of closed channel''"
  using fatal_flushes [of "lm_logging observed_logging" plain_sinks 5 None "''bye''" "[]" "[]" 6 None "''again''" "[]" "[]"]
  by (simp add: observed_logging_def boot_logging_def RegisterLogSink_def globalRegistry_def NewPlatformLogger_def queueSize_def
      split: sum.splits)

end
