(* ===== verification/Telemetry.thy ===== *)
theory Telemetry
  imports Logger Execution
begin

text \<open>
  \<open>core/telemetry/telemetry.go\<close>: trace identifiers and their header, sampling, metrics and spans.
  Random bytes and the draw of \<open>mathrand.Float64\<close> are arguments.  A span's attributes are a Go map
  that the span and its finished record share: both hold its index in \<open>span_attrs\<close>.
\<close>

section \<open>Trace identifiers\<close>

definition formatTraceID :: "string \<Rightarrow> string" where
  "formatTraceID raw =
     (let raw = trim_prefix ''tr-'' raw;
          raw = filter (\<lambda>c. c \<noteq> CHR ''-'') raw
      in if length raw > 32 then take 32 raw
         else if length raw < 32 then raw @ replicate (32 - length raw) CHR ''0''
         else raw)"

definition hex_encode :: "nat list \<Rightarrow> string" where
  "hex_encode bytes = concat (map (hex_pad 2) bytes)"

text \<open>\<open>bytes\<close> are those that the random source gives.\<close>

definition generateID :: "nat list \<Rightarrow> string" where
  "generateID bytes = hex_encode bytes"

definition span_of :: "ctx \<Rightarrow> span_context option" where
  "span_of c = (case vals c SpanContextKey of Some (VSpan sc) \<Rightarrow> Some sc | _ \<Rightarrow> None)"

definition InjectW3C :: "ctx \<Rightarrow> string" where
  "InjectW3C c =
     (case span_of c of
        None \<Rightarrow>
          let tid = GetTraceID c
          in if tid \<noteq> [] then ''00-'' @ formatTraceID tid @ ''-0000000000000000-01'' else []
      | Some sc \<Rightarrow>
          ''00-'' @ formatTraceID (sc_TraceID sc) @ ''-'' @ sc_SpanID sc @ ''-'' @ hex_pad 2 (sc_TraceFlags sc))"

definition hex_digit :: "char \<Rightarrow> nat option" where
  "hex_digit c =
     (let n = of_char c :: nat
      in if 48 \<le> n \<and> n \<le> 57 then Some (n - 48)
         else if 97 \<le> n \<and> n \<le> 102 then Some (n - 87)
         else if 65 \<le> n \<and> n \<le> 70 then Some (n - 55)
         else None)"

text \<open>\<open>hex.DecodeString\<close> of two characters.\<close>

definition hex_byte :: "string \<Rightarrow> nat option" where
  "hex_byte s =
     (case s of
        [a, b] \<Rightarrow> (case (hex_digit a, hex_digit b) of (Some x, Some y) \<Rightarrow> Some (16 * x + y) | _ \<Rightarrow> None)
      | _ \<Rightarrow> None)"

definition ExtractW3C :: "string \<Rightarrow> span_context option" where
  "ExtractW3C traceparent =
     (if traceparent = [] then None
      else
        let parts = split_on CHR ''-'' traceparent
        in if length parts < 4 then None
           else Some \<lparr>sc_TraceID = parts ! 1, sc_SpanID = parts ! 2,
                      sc_TraceFlags = (case hex_byte (parts ! 3) of Some f \<Rightarrow> f | None \<Rightarrow> 0)\<rparr>)"

section \<open>Global settings\<close>

record tel_globals =
  globalDebugMode :: bool
  globalSampleRate :: float64
  priorityOverrides :: "string \<rightharpoonup> float64"

definition boot_globals :: tel_globals where
  "boot_globals = \<lparr>globalDebugMode = False, globalSampleRate = fround (1 / 10),
     priorityOverrides = [''critical'' \<mapsto> 1, ''high'' \<mapsto> 1 / 2]\<rparr>"

definition SetDebugMode :: "bool \<Rightarrow> tel_globals \<Rightarrow> tel_globals" where
  "SetDebugMode enabled g = g\<lparr>globalDebugMode := enabled\<rparr>"

definition SetGlobalSamplingRate :: "float64 \<Rightarrow> tel_globals \<Rightarrow> tel_globals" where
  "SetGlobalSamplingRate rate g = g\<lparr>globalSampleRate := rate\<rparr>"

definition SetPriorityOverride :: "string \<Rightarrow> float64 \<Rightarrow> tel_globals \<Rightarrow> tel_globals" where
  "SetPriorityOverride priority rate g = g\<lparr>priorityOverrides := (priorityOverrides g)(to_lower priority \<mapsto> rate)\<rparr>"

definition GetPriorityOverride :: "string \<Rightarrow> tel_globals \<Rightarrow> float64 option" where
  "GetPriorityOverride priority g = priorityOverrides g (to_lower priority)"

definition IsDebugModeEnabled :: "tel_globals \<Rightarrow> bool" where
  "IsDebugModeEnabled g = globalDebugMode g"

definition GetGlobalSamplingRate :: "tel_globals \<Rightarrow> float64" where
  "GetGlobalSamplingRate g = globalSampleRate g"

definition shouldSampleTrace :: "float64 \<Rightarrow> ctx \<Rightarrow> tel_globals \<Rightarrow> bool" where
  "shouldSampleTrace draw c g =
     (if IsDebugModeEnabled g then True
      else
        let rate = GetGlobalSamplingRate g;
            rate = (case priorityOverrides g (to_lower (GetPriority c)) of Some r \<Rightarrow> r | None \<Rightarrow> rate)
        in if rate \<ge> 1 then True
           else if rate \<le> 0 then False
           else draw < rate)"

section \<open>Metrics\<close>

datatype metric_type = MetricTypeCounter | MetricTypeHistogram | MetricTypeGauge

fun metric_type_name :: "metric_type \<Rightarrow> string" where
  "metric_type_name MetricTypeCounter = ''COUNTER''"
| "metric_type_name MetricTypeHistogram = ''HISTOGRAM''"
| "metric_type_name MetricTypeGauge = ''GAUGE''"

record metric_value =
  mv_Name :: string
  mv_Type :: metric_type
  mv_Value :: float64
  mv_Labels :: "string \<rightharpoonup> string"
  mv_Time :: instant
  mv_TraceID :: string
  mv_SessionID :: string
  mv_ExecutionID :: string
  mv_Attempt :: int
  mv_UserID :: string

record finished_span =
  fs_name :: string
  fs_duration :: duration
  fs_attributes :: nat
  fs_time :: instant

text \<open>An exporter is what it was given; the world is there for the cost budgets.\<close>

record telemetry =
  metrics :: "metric_value list"
  finishedSpans :: "finished_span list"
  span_attrs :: "(string \<rightharpoonup> any) list"
  exporters :: "metric_value list list"
  tel_world :: world

definition NewInMemoryTelemetry :: "metric_value list list \<Rightarrow> world \<Rightarrow> telemetry" where
  "NewInMemoryTelemetry exps w = \<lparr>metrics = [], finishedSpans = [], span_attrs = [], exporters = exps, tel_world = w\<rparr>"

definition RegisterMetricsExporter :: "metric_value list \<Rightarrow> telemetry \<Rightarrow> telemetry" where
  "RegisterMetricsExporter e t = t\<lparr>exporters := exporters t @ [e]\<rparr>"

type_synonym label = "string \<times> string"

definition label_map :: "ctx \<Rightarrow> label list \<Rightarrow> (string \<rightharpoonup> string)" where
  "label_map c labels =
     fold (\<lambda>(k, v) m. m(k \<mapsto> if sensitive_in (Some c) k then ''[REDACTED]'' else v)) labels Map.empty"

definition recordMetric ::
  "instant \<Rightarrow> ctx \<Rightarrow> string \<Rightarrow> metric_type \<Rightarrow> float64 \<Rightarrow> label list \<Rightarrow> telemetry \<Rightarrow> telemetry" where
  "recordMetric now c name mtype value labels t =
     (let mv = \<lparr>mv_Name = name, mv_Type = mtype, mv_Value = value, mv_Labels = label_map c labels, mv_Time = now,
                mv_TraceID = GetTraceID c, mv_SessionID = GetSessionID c, mv_ExecutionID = GetExecutionID c,
                mv_Attempt = GetAttemptNumber c, mv_UserID = GetUserID c\<rparr>
      in t\<lparr>metrics := metrics t @ [mv], exporters := map (\<lambda>e. e @ [mv]) (exporters t)\<rparr>)"

definition CounterAdd :: "instant \<Rightarrow> string \<Rightarrow> ctx \<Rightarrow> float64 \<Rightarrow> label list \<Rightarrow> telemetry \<Rightarrow> telemetry" where
  "CounterAdd now name c value labels t = recordMetric now c name MetricTypeCounter value labels t"

definition CounterInc :: "instant \<Rightarrow> string \<Rightarrow> ctx \<Rightarrow> label list \<Rightarrow> telemetry \<Rightarrow> telemetry" where
  "CounterInc now name c labels t = CounterAdd now name c 1 labels t"

definition HistogramObserve :: "instant \<Rightarrow> string \<Rightarrow> ctx \<Rightarrow> float64 \<Rightarrow> label list \<Rightarrow> telemetry \<Rightarrow> telemetry" where
  "HistogramObserve now name c value labels t = recordMetric now c name MetricTypeHistogram value labels t"

definition GaugeSet :: "instant \<Rightarrow> string \<Rightarrow> ctx \<Rightarrow> float64 \<Rightarrow> label list \<Rightarrow> telemetry \<Rightarrow> telemetry" where
  "GaugeSet now name c value labels t = recordMetric now c name MetricTypeGauge value labels t"

definition provider_or_unknown :: "string \<Rightarrow> string" where
  "provider_or_unknown p = (if p = [] then ''unknown'' else p)"

text \<open>\<open>now\<close> gives the readings of the clock, one per metric.\<close>

definition RecordTokenUsage :: "(nat \<Rightarrow> instant) \<Rightarrow> ctx \<Rightarrow> token_usage \<Rightarrow> string \<Rightarrow> telemetry \<Rightarrow> telemetry" where
  "RecordTokenUsage now c usage prov t =
     (let add = (\<lambda>i n kind. CounterAdd (now i) ''token_usage_total'' c (fround (of_int n))
                   [(''provider'', provider_or_unknown prov), (''token_type'', kind)]);
          t = add 0 (PromptTokens usage) ''prompt'' t;
          t = add 1 (CompletionTokens usage) ''completion'' t
      in add 2 (TotalTokens usage) ''total'' t)"

definition RecordCost :: "instant \<Rightarrow> ctx \<Rightarrow> float64 \<Rightarrow> string \<Rightarrow> telemetry \<Rightarrow> telemetry" where
  "RecordCost now c amountUSD prov t =
     (let t = CounterAdd now ''cost_recorded_total_usd'' c amountUSD [(''provider'', provider_or_unknown prov)] t
      in case GetCostBudget c of
           None \<Rightarrow> t
         | Some budget \<Rightarrow> t\<lparr>tel_world := AddSpent amountUSD budget (tel_world t)\<rparr>)"

definition GetMetrics :: "telemetry \<Rightarrow> metric_value list" where
  "GetMetrics t = metrics t"

definition GetFinishedSpans :: "telemetry \<Rightarrow> finished_span list" where
  "GetFinishedSpans t = finishedSpans t"

definition ClearMetrics :: "telemetry \<Rightarrow> telemetry" where
  "ClearMetrics t = t\<lparr>metrics := [], finishedSpans := []\<rparr>"

section \<open>Spans\<close>

record span =
  sp_name :: string
  sp_ctx :: ctx
  sp_startTime :: instant
  sp_attributes :: nat
  sp_sampled :: bool

definition SetAttribute :: "span \<Rightarrow> string \<Rightarrow> any \<Rightarrow> telemetry \<Rightarrow> telemetry" where
  "SetAttribute s key value t =
     t\<lparr>span_attrs := (span_attrs t)[sp_attributes s := (span_attrs t ! sp_attributes s)
         (key \<mapsto> if sensitive_in (Some (sp_ctx s)) key then AStr ''[REDACTED]'' else value)]\<rparr>"

definition recordSpanEnd :: "instant \<Rightarrow> string \<Rightarrow> duration \<Rightarrow> nat \<Rightarrow> telemetry \<Rightarrow> telemetry" where
  "recordSpanEnd now name dur attrs t =
     t\<lparr>finishedSpans := finishedSpans t @
         [\<lparr>fs_name = name, fs_duration = dur, fs_attributes = attrs, fs_time = now\<rparr>]\<rparr>"

definition EndSpan :: "instant \<Rightarrow> instant \<Rightarrow> span \<Rightarrow> telemetry \<Rightarrow> telemetry" where
  "EndSpan now1 now2 s t =
     (if \<not> sp_sampled s then t
      else recordSpanEnd now2 (sp_name s) (time_sub now1 (sp_startTime s)) (sp_attributes s) t)"

definition resolveTraceID :: "nat list \<Rightarrow> ctx \<Rightarrow> string" where
  "resolveTraceID bytes c =
     (case span_of c of
        Some parentSC \<Rightarrow> sc_TraceID parentSC
      | None \<Rightarrow> if GetTraceID c \<noteq> [] then formatTraceID (GetTraceID c) else generateID bytes)"

definition set_if :: "span \<Rightarrow> string \<Rightarrow> string \<Rightarrow> telemetry \<Rightarrow> telemetry" where
  "set_if s key v t = (if v \<noteq> [] then SetAttribute s key (AStr v) t else t)"

definition enrichSpanAttributes :: "ctx \<Rightarrow> span \<Rightarrow> span_context \<Rightarrow> telemetry \<Rightarrow> telemetry" where
  "enrichSpanAttributes c s sc t =
     (let t = SetAttribute s ''trace_id'' (AStr (sc_TraceID sc)) t;
          t = SetAttribute s ''span_id'' (AStr (sc_SpanID sc)) t;
          t = (case span_of c of None \<Rightarrow> t | Some p \<Rightarrow> SetAttribute s ''parent_span_id'' (AStr (sc_SpanID p)) t);
          t = set_if s ''session_id'' (GetSessionID c) t;
          t = set_if s ''execution_id'' (GetExecutionID c) t;
          t = SetAttribute s ''attempt_number'' (AInt (GetAttemptNumber c)) t;
          t = set_if s ''user_id'' (GetUserID c) t
      in case GetUserLayer c of None \<Rightarrow> t | Some ul \<Rightarrow> set_if s ''tenant_id'' (ul_OrgID ul) t)"

definition StartSpan ::
  "nat list \<Rightarrow> nat list \<Rightarrow> float64 \<Rightarrow> instant \<Rightarrow> tel_globals \<Rightarrow> ctx \<Rightarrow> string \<Rightarrow> telemetry \<Rightarrow> (ctx \<times> span) \<times> telemetry" where
  "StartSpan bytes16 bytes8 draw now g c name t =
     (let sampled = shouldSampleTrace draw c g;
          sc = \<lparr>sc_TraceID = resolveTraceID bytes16 c, sc_SpanID = generateID bytes8,
                sc_TraceFlags = (if sampled then 1 else 0)\<rparr>;
          derivedCtx = WithValue SpanContextKey (VSpan sc) c;
          s = \<lparr>sp_name = name, sp_ctx = derivedCtx, sp_startTime = now, sp_attributes = length (span_attrs t),
               sp_sampled = sampled\<rparr>;
          t = enrichSpanAttributes c s sc (t\<lparr>span_attrs := span_attrs t @ [Map.empty]\<rparr>)
      in ((derivedCtx, s), t))"

end
