(* ===== verification/Telemetry_Laws.thy ===== *)
theory Telemetry_Laws
  imports Telemetry
begin

text \<open>
  What \<open>Telemetry\<close> promises: a trace keeps its identifier from span to span and over the header, secrets
  stay out of metrics and spans, and the recorded costs are what a budget has spent.
\<close>

section \<open>Trace identifiers\<close>

lemma length_formatTraceID [simp]: "length (formatTraceID s) = 32"
  by (simp add: formatTraceID_def Let_def)

lemma formatTraceID_no_dash: "CHR ''-'' \<notin> set (formatTraceID s)"
  by (auto simp: formatTraceID_def Let_def dest: in_set_takeD)

lemma trim_prefix_no_dash: "CHR ''-'' \<notin> set s \<Longrightarrow> trim_prefix ''tr-'' s = s"
  by (auto simp: trim_prefix_def has_prefix_iff)

lemma formatTraceID_fixed: "length s = 32 \<Longrightarrow> CHR ''-'' \<notin> set s \<Longrightarrow> formatTraceID s = s"
proof -
  assume s: "length s = 32" "CHR ''-'' \<notin> set s"
  then have "filter (\<lambda>c. c \<noteq> CHR ''-'') s = s" by (intro filter_True) auto
  with s show ?thesis by (simp add: formatTraceID_def trim_prefix_no_dash)
qed

lemma formatTraceID_idem [simp]: "formatTraceID (formatTraceID s) = formatTraceID s"
  by (simp add: formatTraceID_fixed formatTraceID_no_dash)

lemma digit_char_no_dash: "d < 16 \<Longrightarrow> digit_char d \<noteq> CHR ''-''"
  by (auto simp: digit_char_def dest!: arg_cong [where f = "of_char :: char \<Rightarrow> nat"])

lemma show_base_no_dash: "CHR ''-'' \<notin> set (show_base 16 n)"
proof (induction n rule: less_induct)
  case (less n)
  show ?case
  proof (cases "n < 16")
    case True
    with digit_char_no_dash [of n] show ?thesis by (subst show_base.simps) auto
  next
    case False
    with less.IH [of "n div 16"] digit_char_no_dash [of "n mod 16"] show ?thesis
      by (subst show_base.simps) auto
  qed
qed

lemma hex_pad_no_dash: "CHR ''-'' \<notin> set (hex_pad w n)"
  using show_base_no_dash [of n] by (auto simp: hex_pad_def Let_def)

lemma generateID_no_dash: "CHR ''-'' \<notin> set (generateID bytes)"
  using hex_pad_no_dash by (auto simp: generateID_def hex_encode_def)

lemma hex_flags: "hex_byte (hex_pad 2 0) = Some 0" "hex_byte (hex_pad 2 1) = Some 1"
  by code_simp+

lemma span_of_derived [simp]: "span_of (WithValue SpanContextKey (VSpan sc) c) = Some sc"
  by (simp add: span_of_def WithValue_def)

lemma layers_span [ctx_simps]:
  "GetTraceID (WithValue SpanContextKey v c) = GetTraceID c"
  "GetPriority (WithValue SpanContextKey v c) = GetPriority c"
  by (simp_all add: GetTraceID_def GetPriority_def ctx_simps ctx_keys split: option.split)

lemma Extract_Inject:
  assumes "span_of c = Some sc" and "CHR ''-'' \<notin> set (sc_SpanID sc)" and "sc_TraceFlags sc = 0 \<or> sc_TraceFlags sc = 1"
  shows "ExtractW3C (InjectW3C c) = Some (sc\<lparr>sc_TraceID := formatTraceID (sc_TraceID sc)\<rparr>)"
proof -
  let ?t = "formatTraceID (sc_TraceID sc)" and ?f = "hex_pad 2 (sc_TraceFlags sc)"
  have h: "InjectW3C c = ''00'' @ CHR ''-'' # ?t @ CHR ''-'' # sc_SpanID sc @ CHR ''-'' # ?f"
    by (simp add: InjectW3C_def assms(1))
  have "split_on CHR ''-'' (InjectW3C c) = [''00'', ?t, sc_SpanID sc, ?f]"
    unfolding h by (subst split_on_append, simp, subst split_on_append [OF formatTraceID_no_dash],
      subst split_on_append [OF assms(2)], subst split_on_absent [OF hex_pad_no_dash], rule refl)
  moreover have "InjectW3C c \<noteq> []" by (simp add: h)
  ultimately show ?thesis using assms(3) hex_flags by (auto simp: ExtractW3C_def)
qed

text \<open>
  C37: a trace goes over the wire.  The header written for a span is read back as that span's own: a trace
  identifier of 32 characters, the span's identifier and its sampling flag.  A span started inside it, in
  this process or from any number of further ones, has the same trace.
\<close>
theorem trace_continues:
  "let ((c1, s1), t1) = StartSpan b16 b8 draw now g c name t;
       ((c2, s2), t2) = StartSpan b16' b8' draw' now' g' c1 name' t1
   in case (ExtractW3C (InjectW3C c1), ExtractW3C (InjectW3C c2)) of
        (Some h1, Some h2) \<Rightarrow>
          sc_TraceID h1 = formatTraceID (resolveTraceID b16 c) \<and> length (sc_TraceID h1) = 32 \<and>
          sc_SpanID h1 = generateID b8 \<and> sc_TraceFlags h1 = (if shouldSampleTrace draw c g then 1 else 0) \<and>
          sc_TraceID h2 = sc_TraceID h1 \<and> sc_SpanID h2 = generateID b8'
      | _ \<Rightarrow> False"
  by (simp add: StartSpan_def Let_def Extract_Inject generateID_no_dash resolveTraceID_def)

text \<open>The parent's decision does not count: a span inside one that is not sampled can be.\<close>

lemma sampling_ignores_parent: "shouldSampleTrace draw (WithValue SpanContextKey v c) g = shouldSampleTrace draw c g"
  by (simp add: shouldSampleTrace_def ctx_simps)

text \<open>Identifiers that are not hexadecimal stay as they are: the header is not a valid one.\<close>

lemma header_not_hex:
  "InjectW3C (WithValue compatTraceID (VStr ''tr-order-7'') Background) =
     ''00-order700000000000000000000000000-0000000000000000-01''"
  by code_simp

section \<open>Redaction\<close>

definition masked :: "('v \<Rightarrow> bool) \<Rightarrow> (string \<rightharpoonup> 'v) \<Rightarrow> bool" where
  "masked ok m \<longleftrightarrow> (\<forall>k v. sensitive_name k \<longrightarrow> m k = Some v \<longrightarrow> ok v)"

definition masked_metric :: "metric_value \<Rightarrow> bool" where
  "masked_metric mv \<longleftrightarrow> masked (\<lambda>v. v = ''[REDACTED]'') (mv_Labels mv)"

definition keeps_secrets :: "telemetry \<Rightarrow> bool" where
  "keeps_secrets t \<longleftrightarrow>
     list_all masked_metric (metrics t) \<and> list_all (list_all masked_metric) (exporters t) \<and>
     list_all (masked (\<lambda>v. v = AStr ''[REDACTED]'')) (span_attrs t)"

lemma masked_empty [simp]: "masked ok Map.empty"
  by (simp add: masked_def)

lemma masked_update: "masked ok m \<Longrightarrow> (sensitive_name k \<Longrightarrow> ok v) \<Longrightarrow> masked ok (m(k \<mapsto> v))"
  by (auto simp: masked_def)

lemma masked_labels: "masked (\<lambda>v. v = ''[REDACTED]'') (label_map c labels)"
proof -
  let ?ok = "\<lambda>v. v = ''[REDACTED]''"
  have "masked ?ok (fold (\<lambda>(k, v) m. m(k \<mapsto> if sensitive_in (Some c) k then ''[REDACTED]'' else v)) labels m)"
    if "masked ?ok m" for m
    using that
  proof (induction labels arbitrary: m)
    case (Cons l labels)
    obtain k v where l: "l = (k, v)" by (cases l) auto
    have "masked ?ok (m(k \<mapsto> if sensitive_in (Some c) k then ''[REDACTED]'' else v))"
      using Cons.prems by (rule masked_update) (simp add: sensitive_in_def)
    from Cons.IH [OF this] show ?case by (simp only: l fold_simps prod.case)
  qed simp
  then show ?thesis by (simp add: label_map_def)
qed

lemma list_all_update: "list_all P xs \<Longrightarrow> (i < length xs \<Longrightarrow> P x) \<Longrightarrow> list_all P (xs[i := x])"
  by (cases "i < length xs") (auto simp: list_all_length nth_list_update)

lemma secrets_recordMetric: "keeps_secrets t \<Longrightarrow> keeps_secrets (recordMetric now c name mtype value labels t)"
  by (auto simp: keeps_secrets_def recordMetric_def Let_def masked_metric_def masked_labels list_all_iff)

lemma secrets_SetAttribute: "keeps_secrets t \<Longrightarrow> keeps_secrets (SetAttribute s key value t)"
proof -
  assume t: "keeps_secrets t"
  have "list_all (masked (\<lambda>v. v = AStr ''[REDACTED]'')) ((span_attrs t)[sp_attributes s := (span_attrs t ! sp_attributes s)
      (key \<mapsto> if sensitive_in (Some (sp_ctx s)) key then AStr ''[REDACTED]'' else value)])"
    using t by (intro list_all_update masked_update) (auto simp: keeps_secrets_def sensitive_in_def list_all_length)
  with t show ?thesis by (simp add: keeps_secrets_def SetAttribute_def)
qed

lemma secrets_set_if: "keeps_secrets t \<Longrightarrow> keeps_secrets (set_if s k v t)"
  by (simp add: set_if_def secrets_SetAttribute)

lemma secrets_StartSpan: "keeps_secrets t \<Longrightarrow> keeps_secrets (snd (StartSpan b16 b8 draw now g c name t))"
proof -
  assume "keeps_secrets t"
  then have "keeps_secrets (t\<lparr>span_attrs := span_attrs t @ [Map.empty]\<rparr>)" by (simp add: keeps_secrets_def)
  then show ?thesis
    by (auto simp: StartSpan_def Let_def enrichSpanAttributes_def intro!: secrets_SetAttribute secrets_set_if split: option.split)
qed

text \<open>The calls of a client.\<close>

datatype tel_op =
    OpMetric instant ctx string metric_type float64 "label list"
  | OpTokens "nat \<Rightarrow> instant" ctx token_usage string
  | OpCost instant ctx float64 string
  | OpStart "nat list" "nat list" float64 instant tel_globals ctx string
  | OpAttr span string any
  | OpEnd instant instant span
  | OpClear

fun tel_apply :: "tel_op \<Rightarrow> telemetry \<Rightarrow> telemetry" where
  "tel_apply (OpMetric now c name mtype v labels) t = recordMetric now c name mtype v labels t"
| "tel_apply (OpTokens now c usage prov) t = RecordTokenUsage now c usage prov t"
| "tel_apply (OpCost now c amount prov) t = RecordCost now c amount prov t"
| "tel_apply (OpStart b16 b8 draw now g c name) t = snd (StartSpan b16 b8 draw now g c name t)"
| "tel_apply (OpAttr s key value) t = SetAttribute s key value t"
| "tel_apply (OpEnd now1 now2 s) t = EndSpan now1 now2 s t"
| "tel_apply OpClear t = ClearMetrics t"

lemma secrets_apply: "keeps_secrets t \<Longrightarrow> keeps_secrets (tel_apply op t)"
proof (cases op)
  case (OpCost now c amount prov)
  assume "keeps_secrets t"
  then have "keeps_secrets (CounterAdd now ''cost_recorded_total_usd'' c amount [(''provider'', provider_or_unknown prov)] t)"
    by (simp add: CounterAdd_def secrets_recordMetric)
  then show ?thesis by (simp add: OpCost RecordCost_def Let_def keeps_secrets_def split: option.split)
qed (auto simp: RecordTokenUsage_def CounterAdd_def Let_def EndSpan_def recordSpanEnd_def ClearMetrics_def secrets_recordMetric
    secrets_SetAttribute secrets_StartSpan, auto simp: keeps_secrets_def)


section \<open>Costs\<close>

definition costs_of :: "(instant \<times> float64 \<times> string) list \<Rightarrow> ctx \<Rightarrow> telemetry \<Rightarrow> telemetry" where
  "costs_of costs c t = fold (\<lambda>(now, amount, prov). RecordCost now c amount prov) costs t"

lemma RecordCost_effect:
  assumes "GetCostBudget c = Some b" and "cb_spentBits b = Some p" and "p < length (cells (tel_world t))"
  shows "Spent b (tel_world (RecordCost now c amount prov t)) = fadd (Spent b (tel_world t)) amount"
    and "length (cells (tel_world (RecordCost now c amount prov t))) = length (cells (tel_world t))"
    and "map mv_Value (metrics (RecordCost now c amount prov t)) = map mv_Value (metrics t) @ [amount]"
  using assms by (simp_all add: RecordCost_def CounterAdd_def recordMetric_def Let_def AddSpent_def Spent_def)

lemma costs_effect:
  assumes "GetCostBudget c = Some b" and "cb_spentBits b = Some p" and "p < length (cells (tel_world t))"
  shows "Spent b (tel_world (costs_of costs c t)) = fold (\<lambda>a s. fadd s a) (map (fst \<circ> snd) costs) (Spent b (tel_world t))
    \<and> map mv_Value (metrics (costs_of costs c t)) = map mv_Value (metrics t) @ map (fst \<circ> snd) costs"
  using assms(3)
proof (induction costs arbitrary: t)
  case (Cons x costs)
  obtain now a prov where x: "x = (now, a, prov)" by (cases x) auto
  note e = RecordCost_effect [OF assms(1,2) Cons.prems, of now a prov]
  from Cons.IH [of "RecordCost now c a prov t"] e Cons.prems show ?case by (simp add: costs_of_def x)
qed (simp add: costs_of_def)

text \<open>
  The books agree.  For a budget attached to a context, what it has spent after any recorded costs is
  the \<open>float64\<close> sum, in order, of the values of the cost metrics.
\<close>
theorem spent_is_recorded:
  "let (c, w) = exec_WithCostBudget limit parent w0; t = costs_of costs c (NewInMemoryTelemetry exps w)
   in case GetCostBudget c of
        None \<Rightarrow> False
      | Some b \<Rightarrow> map mv_Value (metrics t) = map (fst \<circ> snd) costs \<and>
          Spent b (tel_world t) = fold (\<lambda>a s. fadd s a) (map mv_Value (metrics t)) 0"
proof -
  let ?b = "\<lparr>cb_Limit = limit, cb_spentBits = Some (length (cells w0)), cb_Currency = ''USD''\<rparr>"
  let ?w = "w0\<lparr>cells := cells w0 @ [0]\<rparr>"
  obtain c where c: "exec_WithCostBudget limit parent w0 = (c, ?w)" "GetCostBudget c = Some ?b"
    by (simp add: exec_WithCostBudget_def NewCostBudget_def WithCostBudget_def GetCostBudget_def exec_keys ctx_simps)
  from costs_effect [OF c(2), of "length (cells w0)" "NewInMemoryTelemetry exps ?w" costs] show ?thesis
    by (simp add: c NewInMemoryTelemetry_def Spent_def)
qed

section \<open>Finished spans\<close>

text \<open>
  The finished record shares its attributes with the span: a change after the end changes the record, and
  a second \<open>End\<close> records the span again.
\<close>

lemma attribute_after_end:
  assumes "sp_sampled s" and "sp_attributes s < length (span_attrs t)" and "\<not> sensitive_in (Some (sp_ctx s)) key"
  shows "(span_attrs (SetAttribute s key v (EndSpan now1 now2 s t)) !
            fs_attributes (last (finishedSpans (SetAttribute s key v (EndSpan now1 now2 s t))))) key = Some v"
  using assms by (simp add: SetAttribute_def EndSpan_def recordSpanEnd_def)

lemma ended_twice:
  "sp_sampled s \<Longrightarrow>
     length (finishedSpans (EndSpan now3 now4 s (EndSpan now1 now2 s t))) = length (finishedSpans t) + 2"
  by (simp add: EndSpan_def recordSpanEnd_def)

end
