(* ===== verification/Core_Runtime.thy ===== *)
theory Core_Runtime
  imports Exec_Machine Event_Bus Middleware Telemetry
begin

text \<open>
  \<open>core/runtime.go\<close> and \<open>core/bootstrap.go\<close>: the runtime that puts the components together.  Its state
  holds the components it builds and the package variables of \<open>core/telemetry\<close> that it sets.  The
  lifecycle manager is shared by pointer with the execution manager: \<open>set_lifecycle\<close> and
  \<open>set_execution\<close> keep the two views equal.  An operation returns an \<open>outcome\<close>, whose \<open>Inl\<close> is a
  panic; the clock is the sequence of its readings.
\<close>

section \<open>State\<close>

datatype logger_value = PlatformLogger "field list" | OtherLogger string

datatype telemetry_value = InMemoryTelemetry telemetry | OtherTelemetry string

record 'c runtime =
  rt_cfg :: "config option"
  rt_configFile :: string
  rt_overrides :: "config option"
  rt_lifecycle :: lifecycle_manager
  rt_execution :: "em option"
  rt_registry :: "string registry option"
  rt_pipeline :: "'c middleware list option"
  rt_events :: "any bus option"
  rt_logger :: "logger_value option"
  rt_telemetry :: "telemetry_value option"
  rt_providers :: "string option list"
  rt_middlewares :: "'c middleware list"
  pkg_logging :: logging
  pkg_globals :: tel_globals

text \<open>
  The process around it: the configuration's file system and environment, the files a log sink can
  open, the sinks' own environment, the order of ranges over subscribers, the fuel of nested
  publications, the trace identifier of the caller's context.
\<close>

record host =
  ho_loader :: loader
  ho_env :: "string \<Rightarrow> string"
  ho_can_open :: "string \<Rightarrow> bool"
  ho_sinks :: sink_env
  ho_rng :: "any event \<Rightarrow> string list \<Rightarrow> string list"
  ho_fuel :: nat
  ho_tid :: string

definition set_lifecycle :: "lifecycle_manager \<Rightarrow> 'c runtime \<Rightarrow> 'c runtime" where
  "set_lifecycle lm rt =
     rt\<lparr>rt_lifecycle := lm, rt_execution := map_option (\<lambda>em. em\<lparr>lc := lm\<rparr>) (rt_execution rt)\<rparr>"

definition set_execution :: "em \<Rightarrow> 'c runtime \<Rightarrow> 'c runtime" where
  "set_execution em rt = rt\<lparr>rt_execution := Some em, rt_lifecycle := lc em\<rparr>"

section \<open>Construction\<close>

datatype 'c runtime_option =
    WithConfigFile string
  | WithConfigOverrides config
  | WithLogger logger_value
  | WithTelemetry telemetry_value
  | WithProvider "string option"
  | WithMiddleware "'c middleware"

fun apply_option :: "'c runtime_option \<Rightarrow> 'c runtime \<Rightarrow> 'c runtime" where
  "apply_option (WithConfigFile path) rt = rt\<lparr>rt_configFile := path\<rparr>"
| "apply_option (WithConfigOverrides ov) rt = rt\<lparr>rt_overrides := Some ov\<rparr>"
| "apply_option (WithLogger l) rt = rt\<lparr>rt_logger := Some l\<rparr>"
| "apply_option (WithTelemetry t) rt = rt\<lparr>rt_telemetry := Some t\<rparr>"
| "apply_option (WithProvider p) rt = rt\<lparr>rt_providers := rt_providers rt @ [p]\<rparr>"
| "apply_option (WithMiddleware m) rt = rt\<lparr>rt_middlewares := rt_middlewares rt @ [m]\<rparr>"

definition NewRuntime :: "instant \<Rightarrow> 'c runtime_option list \<Rightarrow> 'c runtime" where
  "NewRuntime now opts =
     fold apply_option opts
       \<lparr>rt_cfg = None, rt_configFile = [], rt_overrides = None, rt_lifecycle = NewLifecycleManager now,
        rt_execution = None, rt_registry = None, rt_pipeline = None, rt_events = None, rt_logger = None,
        rt_telemetry = None, rt_providers = [], rt_middlewares = [], pkg_logging = boot_logging, pkg_globals = boot_globals\<rparr>"

section \<open>Logging and telemetry\<close>

definition add_sink :: "(string \<Rightarrow> bool) \<Rightarrow> logging_config \<Rightarrow> bool \<Rightarrow> string \<Rightarrow> log_registry \<Rightarrow> log_registry" where
  "add_sink can_open cfg isJSON sinkName r =
     (let name = to_lower sinkName
      in if name = ''stdout'' then RegisterLogSink (NewStdoutSink isJSON) r
         else if name = ''file'' then
           (if lg_FilePath cfg \<noteq> []
            then (case NewFileSink can_open (lg_FilePath cfg) isJSON of None \<Rightarrow> r | Some s \<Rightarrow> RegisterLogSink s r) else r)
         else if name = ''otlp'' then
           (if lg_OTLPEndpoint cfg \<noteq> [] then RegisterLogSink (NewOTLPSink (lg_OTLPEndpoint cfg)) r else r)
         else r)"

definition configureLogging :: "(string \<Rightarrow> bool) \<Rightarrow> logging_config \<Rightarrow> logging \<Rightarrow> logging" where
  "configureLogging can_open cfg lg =
     (let lg = SetGlobalLogLevel (ParseLevel (lg_Level cfg)) lg;
          r = ClearLogSinks (registry lg);
          isJSON = (to_lower (lg_Format cfg) = ''json'')
      in lg\<lparr>registry := fold (add_sink can_open cfg isJSON) (lg_Sinks cfg) r\<rparr>)"

definition configureSampling :: "config \<Rightarrow> tel_globals \<Rightarrow> tel_globals" where
  "configureSampling cfg g =
     (let g = SetDebugMode (DebugMode cfg) g;
          sampling = tr_Sampling (Tracing (Runtime_Config.Telemetry cfg));
          g = SetGlobalSamplingRate (DefaultRate sampling) g
      in fold (\<lambda>(k, rate). SetPriorityOverride k rate) (PriorityOverrides sampling) g)"

definition configureLoggerAndTelemetry :: "(string \<Rightarrow> bool) \<Rightarrow> config \<Rightarrow> 'c runtime \<Rightarrow> 'c runtime" where
  "configureLoggerAndTelemetry can_open cfg rt =
     rt\<lparr>pkg_logging := configureLogging can_open (Runtime_Config.Logging cfg) (pkg_logging rt),
        pkg_globals := configureSampling cfg (pkg_globals rt)\<rparr>"

section \<open>Booting\<close>

definition transit :: "instant \<Rightarrow> lc_state \<Rightarrow> 'c runtime \<Rightarrow> go_error + 'c runtime" where
  "transit now to rt =
     (case Transition now to (rt_lifecycle rt) of Inl e \<Rightarrow> Inl e | Inr lm \<Rightarrow> Inr (set_lifecycle lm rt))"

text \<open>\<open>_ = r.lifecycle.Transition(lifecycle.StateFailed)\<close>.\<close>

definition fail :: "instant \<Rightarrow> 'c runtime \<Rightarrow> 'c runtime" where
  "fail now rt = (case transit now StateFailed rt of Inl _ \<Rightarrow> rt | Inr rt \<Rightarrow> rt)"

definition runtime_event :: "string \<Rightarrow> instant \<Rightarrow> any \<Rightarrow> any event" where
  "runtime_event etype now payload = Event [] etype [] (Some now) (Plain payload) [] []"

definition nil_dereference :: string where
  "nil_dereference = ''invalid memory address or nil pointer dereference''"

text \<open>\<open>_ = r.events.Publish(...)\<close>: a call on a nil interface panics.\<close>

definition publish :: "host \<Rightarrow> instant \<Rightarrow> string \<Rightarrow> any \<Rightarrow> 'c runtime \<Rightarrow> 'c runtime outcome" where
  "publish ho now etype payload rt =
     (case rt_events rt of
        None \<Rightarrow> Some (Inl nil_dereference)
      | Some eb \<Rightarrow>
          and_then (Publish (Suc (ho_fuel ho)) (ho_rng ho) now (ho_tid ho) (runtime_event etype now payload) eb)
            (\<lambda>(_, eb). ok (rt\<lparr>rt_events := Some eb\<rparr>)))"

fun register_providers :: "string option list \<Rightarrow> string registry \<Rightarrow> go_error option \<times> string registry" where
  "register_providers [] reg = (None, reg)"
| "register_providers (p # ps) reg =
     (case Register (\<lambda>name. name) p reg of
        Inl err \<Rightarrow> (Some err, reg)
      | Inr reg \<Rightarrow> register_providers ps reg)"

text \<open>What \<open>Initialize\<close> and \<open>Restart\<close> have in common, from the first event on.\<close>

definition new_manager :: "config \<Rightarrow> string registry \<Rightarrow> 'c runtime \<Rightarrow> em" where
  "new_manager cfg reg rt =
     (let cc = Concurrency (Runtime cfg)
      in NewExecutionManager (GlobalLimit cc) (QueueSize cc) (rt_lifecycle rt) reg True (rt_logger rt \<noteq> None))"

definition boot_components :: "host \<Rightarrow> (nat \<Rightarrow> instant) \<Rightarrow> config \<Rightarrow> 'c runtime \<Rightarrow> (go_error option \<times> 'c runtime) outcome" where
  "boot_components ho now cfg rt =
     and_then (publish ho (now 0) ''runtime.starting'' ANil rt)
       (\<lambda>rt. case register_providers (rt_providers rt) NewRegistry of
          (Some err, reg) \<Rightarrow> ok (Some err, fail (now 1) (rt\<lparr>rt_registry := Some reg\<rparr>))
        | (None, reg) \<Rightarrow>
            (let rt = rt\<lparr>rt_registry := Some reg\<rparr>;
                 pipe = NewPipeline (rt_middlewares rt)
             in case PipelineValidate pipe of
                  Some err \<Rightarrow> ok (Some (GoError err), fail (now 1) rt)
                | None \<Rightarrow>
                    (let rt = rt\<lparr>rt_pipeline := Some pipe\<rparr>;
                         rt = rt\<lparr>rt_execution := Some (new_manager cfg reg rt)\<rparr>
                     in case transit (now 2) StateReady rt of
                          Inl err \<Rightarrow> ok (Some err, rt)
                        | Inr rt \<Rightarrow> and_then (publish ho (now 3) ''runtime.ready'' ANil rt) (\<lambda>rt. ok (None, rt)))))"

definition use_config :: "host \<Rightarrow> config \<Rightarrow> 'c runtime \<Rightarrow> 'c runtime" where
  "use_config ho cfg rt =
     (let lcfg = Runtime_Config.Lifecycle cfg;
          rt = rt\<lparr>rt_cfg := Some cfg\<rparr>;
          rt = set_lifecycle (Configure (RestartCooldownMS lcfg) (AcceptWhenDegraded lcfg) (rt_lifecycle rt)) rt
      in configureLoggerAndTelemetry (ho_can_open ho) cfg rt)"

definition or_else :: "'a option \<Rightarrow> 'a \<Rightarrow> 'a option" where
  "or_else x d = (case x of None \<Rightarrow> Some d | Some v \<Rightarrow> Some v)"

definition Initialize :: "host \<Rightarrow> (nat \<Rightarrow> instant) \<Rightarrow> 'c runtime \<Rightarrow> (go_error option \<times> 'c runtime) outcome" where
  "Initialize ho now rt =
     (if stateVal (rt_lifecycle rt) \<noteq> StateUninitialized then
        ok (Some (NewError ErrCategoryInternal ''runtime already initialized or initialization in progress'' False None), rt)
      else case transit (now 0) StateBooting rt of
             Inl err \<Rightarrow> ok (Some err, rt)
           | Inr rt \<Rightarrow>
               (case LoadConfig (ho_loader ho) (ho_env ho) (rt_configFile rt) (rt_overrides rt) of
                  Inl err \<Rightarrow> ok (Some err, fail (now 1) rt)
                | Inr cfg \<Rightarrow>
                    (let rt = use_config ho cfg rt;
                         rt = rt\<lparr>rt_logger := or_else (rt_logger rt) (PlatformLogger NewPlatformLogger)\<rparr>;
                         rt = rt\<lparr>rt_events := or_else (rt_events rt) NewInProcessEventBus\<rparr>;
                         rt = rt\<lparr>rt_telemetry :=
                                or_else (rt_telemetry rt) (InMemoryTelemetry (NewInMemoryTelemetry [] initial_world))\<rparr>
                     in boot_components ho (\<lambda>i. now (i + 2)) cfg rt)))"

section \<open>Executing\<close>

definition no_engine :: go_error where
  "no_engine = NewError ErrCategoryInternal ''runtime execution engine not initialized'' False None"

text \<open>\<open>Execute\<close> submits and then waits; it reads \<open>r.execution\<close> for each of the two calls.\<close>

definition Execute_submit :: "instant \<Rightarrow> string \<Rightarrow> request \<Rightarrow> 'c runtime \<Rightarrow> (go_error + string) \<times> 'c runtime" where
  "Execute_submit now fresh_id req rt =
     (case rt_execution rt of
        None \<Rightarrow> (Inl no_engine, rt)
      | Some em \<Rightarrow>
          (case Submit now fresh_id req em of
             (Inl err, em) \<Rightarrow> (Inl err, set_execution em rt)
           | (Inr r, em) \<Rightarrow> (Inr (id_of em r), set_execution em rt)))"

definition Execute_wait :: "string \<Rightarrow> 'c runtime \<Rightarrow> (go_error + exec_result option option) \<times> 'c runtime" where
  "Execute_wait executionID rt =
     (case rt_execution rt of
        None \<Rightarrow> (Inl no_engine, rt)
      | Some em \<Rightarrow> (case wait_check executionID em of (res, em) \<Rightarrow> (res, set_execution em rt)))"

definition RuntimeStream :: "instant \<Rightarrow> string \<Rightarrow> request \<Rightarrow> 'c runtime \<Rightarrow> (go_error + nat) \<times> 'c runtime" where
  "RuntimeStream now fresh_id req rt =
     (case rt_execution rt of
        None \<Rightarrow> (Inl no_engine, rt)
      | Some em \<Rightarrow> (case Stream now fresh_id req em of (res, em) \<Rightarrow> (res, set_execution em rt)))"

definition RuntimeHealth :: "instant \<Rightarrow> string list \<Rightarrow> 'c runtime \<Rightarrow> health_status" where
  "RuntimeHealth now ord rt =
     (let status = HealthStatus (rt_lifecycle rt);
          registeredCount = (case rt_registry rt of None \<Rightarrow> 0 | Some reg \<Rightarrow> length (RegistryList ord reg))
      in status\<lparr>hs_Components := (hs_Components status)(''registry'' \<mapsto>
           \<lparr>ch_State = HealthHealthy, ch_Details = show_int (int registeredCount) @ '' registered'', ch_Fatal = True,
            ch_LastError = [], ch_CheckedAt = Some now\<rparr>)\<rparr>)"

section \<open>Shutting down\<close>

text \<open>
  The loop that waits for the executions: a tick of the timer, the end of the shutdown timeout or of the
  caller's context, and between them the steps of the execution manager.  Without a further event it waits on.
\<close>

datatype drain_event = DrainTick | DrainTimeout | DrainDone | DrainMachine em_op

definition warn_deadline :: "host \<Rightarrow> instant \<Rightarrow> ctx option \<Rightarrow> 'c runtime \<Rightarrow> 'c runtime outcome" where
  "warn_deadline ho now c rt =
     (case rt_logger rt of
        Some (PlatformLogger l) \<Rightarrow>
          (case log_call (ho_sinks ho) now c LevelWarn ''shutdown deadline exceeded; cancelling remaining requests'' [] l
                  (pkg_logging rt) of
             Inl panic \<Rightarrow> Some (Inl panic)
           | Inr lg \<Rightarrow> ok (rt\<lparr>pkg_logging := lg\<rparr>))
      | _ \<Rightarrow> ok rt)"

fun drain_loop :: "host \<Rightarrow> instant \<Rightarrow> ctx option \<Rightarrow> drain_event list \<Rightarrow> 'c runtime \<Rightarrow> 'c runtime outcome" where
  "drain_loop ho now c [] rt = None"
| "drain_loop ho now c (DrainTick # es) rt =
     (if (case rt_execution rt of None \<Rightarrow> True | Some em \<Rightarrow> ActiveCount em = 0) then ok rt
      else drain_loop ho now c es rt)"
| "drain_loop ho now c (DrainTimeout # es) rt = warn_deadline ho now c rt"
| "drain_loop ho now c (DrainDone # es) rt = ok rt"
| "drain_loop ho now c (DrainMachine op # es) rt =
     (case rt_execution rt of
        None \<Rightarrow> None
      | Some em \<Rightarrow> (case em_piece op em of None \<Rightarrow> None | Some em' \<Rightarrow> drain_loop ho now c es (set_execution em' rt)))"

definition stop_execution :: "'c runtime \<Rightarrow> 'c runtime outcome" where
  "stop_execution rt =
     (case rt_execution rt of
        None \<Rightarrow> ok rt
      | Some em \<Rightarrow> (case Shutdown em of Inl panic \<Rightarrow> Some (Inl panic) | Inr em \<Rightarrow> ok (rt\<lparr>rt_execution := Some em\<rparr>)))"

definition RuntimeShutdown ::
  "host \<Rightarrow> (nat \<Rightarrow> instant) \<Rightarrow> ctx option \<Rightarrow> drain_event list \<Rightarrow> 'c runtime \<Rightarrow> (go_error option \<times> 'c runtime) outcome" where
  "RuntimeShutdown ho now c es rt =
     (if stateVal (rt_lifecycle rt) = StateStopped then
        ok (Some (NewError ErrCategoryInternal ''runtime already shutdown'' False None), rt)
      else case transit (now 0) StateDraining rt of
             Inl err \<Rightarrow> ok (Some err, rt)
           | Inr rt \<Rightarrow>
               and_then (stop_execution rt)
                 (\<lambda>rt. and_then (publish ho (now 1) ''runtime.shutdown_started'' ANil rt)
                 (\<lambda>rt. and_then (drain_loop ho (now 2) c es rt)
                 (\<lambda>rt. let rt = (case transit (now 3) StateStopped rt of Inl _ \<Rightarrow> rt | Inr rt \<Rightarrow> rt)
                       in and_then (publish ho (now 4) ''runtime.shutdown_completed'' ANil rt) (\<lambda>rt. ok (None, rt))))))"

section \<open>Restarting\<close>

definition Restart :: "host \<Rightarrow> (nat \<Rightarrow> instant) \<Rightarrow> 'c runtime \<Rightarrow> (go_error option \<times> 'c runtime) outcome" where
  "Restart ho now rt =
     (if stateVal (rt_lifecycle rt) \<noteq> StateFailed then
        ok (Some (NewError ErrCategoryInternal ''cannot restart: runtime is not in FAILED state'' False None), rt)
      else case CheckRestartCooldown (now 0) (rt_lifecycle rt) of
             Inl err \<Rightarrow>
               and_then (publish ho (now 1) ''runtime.restart_rejected'' (AMap [(''reason'', AStr ''cooldown_active'')]) rt)
                 (\<lambda>rt. ok (Some err, rt))
           | Inr lm \<Rightarrow>
               and_then (publish ho (now 1) ''runtime.restart_requested'' ANil (set_lifecycle lm rt))
                 (\<lambda>rt. case transit (now 2) StateBooting rt of
                    Inl err \<Rightarrow> ok (Some err, rt)
                  | Inr rt \<Rightarrow>
                      and_then (stop_execution rt)
                        (\<lambda>rt. case LoadConfig (ho_loader ho) (ho_env ho) (rt_configFile rt) (rt_overrides rt) of
                           Inl err \<Rightarrow> ok (Some err, fail (now 3) rt)
                         | Inr cfg \<Rightarrow>
                             (let rt = use_config ho cfg rt;
                                  rt = rt\<lparr>rt_logger := Some (PlatformLogger NewPlatformLogger),
                                          rt_events := Some NewInProcessEventBus,
                                          rt_telemetry := Some (InMemoryTelemetry (NewInMemoryTelemetry [] initial_world))\<rparr>
                              in boot_components ho (\<lambda>i. now (i + 4)) cfg rt))))"

end
