(* ===== verification/Runtime_Laws.thy ===== *)
theory Runtime_Laws
  imports Core_Runtime Logger_Laws Exec_Races Registry
begin

text \<open>
  What the composition of \<open>Core_Runtime\<close> guarantees and where it does not: the outcome of booting, the
  settings that reach no component, restarts and shutdowns.
\<close>

section \<open>Events nobody listens to\<close>

lemma silent_bus: "subscribers eb = [] \<Longrightarrow> getMatchingSubscribers rng ev eb = []"
  by (auto simp: getMatchingSubscribers_def subs_of_def)

lemma publish_silent:
  assumes "rt_events rt = Some eb" and "subscribers eb = []" and "validateTopic etype eb = None"
  shows "publish ho now etype payload rt = ok rt"
proof -
  have "rt\<lparr>rt_events := Some eb\<rparr> = rt" using assms(1) by (cases rt) simp
  then show ?thesis
    using assms by (simp add: publish_def Publish.simps(2) runtime_event_def normalize_def with_trace_def silent_bus ok_def and_then_def Let_def)
qed

lemma new_bus:
  "subscribers NewInProcessEventBus = []"
  "validateTopic ''runtime.starting'' NewInProcessEventBus = None"
  "validateTopic ''runtime.ready'' NewInProcessEventBus = None"
  by code_simp+

lemma publish_new_bus:
  assumes "rt_events rt = Some NewInProcessEventBus"
  shows "publish ho now ''runtime.starting'' payload rt = ok rt" and "publish ho now ''runtime.ready'' payload rt = ok rt"
  using publish_silent [OF assms] new_bus by auto

lemma and_then_panic [simp]: "and_then (Some (Inl p)) f = Some (Inl p)"
  by (simp add: and_then_def)

section \<open>Registering the providers\<close>

lemma register_providers_all:
  "register_providers ps reg = (None, reg') \<longleftrightarrow>
     None \<notin> set ps \<and> register_all (\<lambda>p. Register (\<lambda>n. n) (Some p)) (map the ps) reg = Inr reg'"
proof (induction ps arbitrary: reg)
  case (Cons p ps)
  then show ?case by (cases p) (auto simp: Register_def split: sum.splits)
qed auto

definition distinct_providers :: "string option list \<Rightarrow> bool" where
  "distinct_providers ps \<longleftrightarrow> list_all (\<lambda>p. p \<noteq> None \<and> p \<noteq> Some []) ps \<and> distinct ps"

lemma the_inj: "None \<notin> set ps \<Longrightarrow> distinct (map the ps) = distinct ps"
  by (auto simp: distinct_map inj_on_def) (metis option.exhaust_sel)

lemma the_in: "None \<notin> set ps \<Longrightarrow> n \<in> the ` set ps \<longleftrightarrow> Some n \<in> set ps"
  by (auto simp: image_iff) (metis option.exhaust_sel, metis option.sel)

lemma map_of_diagonal: "map_of (map (\<lambda>p. (p, p)) xs) n = (if n \<in> set xs then Some n else None)"
  by (induction xs) auto

lemma register_providers_ok:
  "fst (register_providers ps NewRegistry) = None \<longleftrightarrow> distinct_providers ps"
proof -
  let ?all = "register_all (\<lambda>p. Register (\<lambda>n. n) (Some p)) (map the ps) NewRegistry"
  have "fst (register_providers ps NewRegistry) = None \<longleftrightarrow> None \<notin> set ps \<and> (\<exists>r. ?all = Inr r)"
    unfolding register_providers_all [symmetric] ex_simps(1) [symmetric] ex_simps(2) [symmetric]
    by (cases "register_providers ps NewRegistry") auto
  also have "\<dots> \<longleftrightarrow> None \<notin> set ps \<and> [] \<notin> the ` set ps \<and> distinct (map the ps)"
    unfolding preg.register_all_Inr_iff [of "\<lambda>n. n" "map the ps" NewRegistry] by (auto simp: NewRegistry_def image_iff)
  also have "\<dots> \<longleftrightarrow> None \<notin> set ps \<and> Some [] \<notin> set ps \<and> distinct ps"
    using the_inj [of ps] the_in [of ps "[]"] by blast
  also have "\<dots> \<longleftrightarrow> distinct_providers ps" by (auto simp: distinct_providers_def list_all_iff) (metis option.exhaust)
  finally show ?thesis .
qed

lemma register_providers_lookup:
  assumes "distinct_providers ps"
  shows "providers (snd (register_providers ps NewRegistry)) = (\<lambda>n. if Some n \<in> set ps then Some n else None)"
proof -
  let ?reg = "snd (register_providers ps NewRegistry)"
  have "register_providers ps NewRegistry = (None, ?reg)"
    using assms register_providers_ok [of ps] by (cases "register_providers ps NewRegistry") simp
  then have all: "None \<notin> set ps" "register_all (\<lambda>p. Register (\<lambda>n. n) (Some p)) (map the ps) NewRegistry = Inr ?reg"
    unfolding register_providers_all by (blast, blast)
  have look: "providers ?reg = map_of (rev (map (\<lambda>p. (p, p)) (map the ps)))"
    using preg.register_all_lookup [OF all(2)] by (simp add: NewRegistry_def)
  show ?thesis
  proof
    fix n
    show "providers ?reg n = (if Some n \<in> set ps then Some n else None)"
      unfolding look rev_map map_of_diagonal using the_in [OF all(1), of n] by simp
  qed
qed

section \<open>Booting\<close>

lemma transit_simps:
  "stateVal (rt_lifecycle rt) = StateBooting \<Longrightarrow> transit now StateReady rt =
     Inr (set_lifecycle ((rt_lifecycle rt)\<lparr>stateVal := StateReady, since := now\<rparr>) rt)"
  "stateVal (rt_lifecycle rt) = StateBooting \<Longrightarrow>
     fail now rt = set_lifecycle ((rt_lifecycle rt)\<lparr>stateVal := StateFailed, since := now\<rparr>) rt"
  "stateVal (rt_lifecycle rt) = StateUninitialized \<Longrightarrow> transit now StateBooting rt =
     Inr (set_lifecycle ((rt_lifecycle rt)\<lparr>stateVal := StateBooting, since := now, components := Map.empty, reason := []\<rparr>) rt)"
  by (simp_all add: transit_def fail_def Transition_def valid_transition_def Let_def)

text \<open>What the options must be for the components to come up.\<close>

definition bootable :: "'c runtime \<Rightarrow> bool" where
  "bootable rt \<longleftrightarrow> distinct_providers (rt_providers rt) \<and> PipelineValidate (rt_middlewares rt) = None"

text \<open>A runtime that is up as its configuration says.\<close>

definition booted :: "config \<Rightarrow> 'c runtime \<Rightarrow> bool" where
  "booted cfg rt \<longleftrightarrow>
     stateVal (rt_lifecycle rt) = StateReady \<and> rt_cfg rt = Some cfg \<and>
     cooldownMS (rt_lifecycle rt) = RestartCooldownMS (Runtime_Config.Lifecycle cfg) \<and>
     rt_logger rt \<noteq> None \<and> rt_events rt \<noteq> None \<and> rt_telemetry rt \<noteq> None \<and>
     rt_pipeline rt = Some (rt_middlewares rt) \<and>
     currentLogLevel (pkg_logging rt) = ParseLevel (lg_Level (Runtime_Config.Logging cfg)) \<and>
     (case (rt_execution rt, rt_registry rt) of
        (Some em, Some reg) \<Rightarrow>
          int (sem_cap em) = GlobalLimit (Concurrency (Runtime cfg)) \<and> 0 < sem_cap em \<and>
          int (queue_cap em) = QueueSize (Concurrency (Runtime cfg)) \<and>
          heap em = [] \<and> executions em = Map.empty \<and> ActiveCount em = 0 \<and> \<not> stopped em \<and> has_logger em \<and> lc em = rt_lifecycle rt \<and> IsReady (lc em) \<and>
          em_registry em = reg \<and> providers reg = (\<lambda>n. if Some n \<in> set (rt_providers rt) then Some n else None)
      | _ \<Rightarrow> False)"

lemma boot_components_outcome:
  assumes ev: "rt_events rt = Some NewInProcessEventBus" and st: "stateVal (rt_lifecycle rt) = StateBooting"
  shows "boot_components ho now cfg rt =
    (if bootable rt then
       let reg = snd (register_providers (rt_providers rt) NewRegistry);
           lm = (rt_lifecycle rt)\<lparr>stateVal := StateReady, since := now 2\<rparr>
       in ok (None, rt\<lparr>rt_registry := Some reg, rt_pipeline := Some (rt_middlewares rt),
                       rt_lifecycle := lm, rt_execution := Some ((new_manager cfg reg rt)\<lparr>lc := lm\<rparr>)\<rparr>)
     else let reg = snd (register_providers (rt_providers rt) NewRegistry);
              e = (case fst (register_providers (rt_providers rt) NewRegistry) of
                     Some e \<Rightarrow> e | None \<Rightarrow> GoError (the (PipelineValidate (rt_middlewares rt))));
              lm = (rt_lifecycle rt)\<lparr>stateVal := StateFailed, since := now 1\<rparr>
          in ok (Some e, set_lifecycle lm (rt\<lparr>rt_registry := Some reg\<rparr>)))"
proof (cases "register_providers (rt_providers rt) NewRegistry")
  case (Pair err reg)
  show ?thesis
  proof (cases err)
    case None
    with Pair register_providers_ok [of "rt_providers rt"] have d: "distinct_providers (rt_providers rt)" by simp
    show ?thesis
    proof (cases "PipelineValidate (rt_middlewares rt)")
      case None
      let ?rt1 = "rt\<lparr>rt_registry := Some reg, rt_pipeline := Some (rt_middlewares rt)\<rparr>"
      have m: "new_manager cfg reg ?rt1 = new_manager cfg reg rt" by (simp add: new_manager_def)
      show ?thesis
        using \<open>err = None\<close> None d st
        by (simp add: boot_components_def publish_new_bus [OF ev] Pair bootable_def NewPipeline_def transit_simps m
            set_lifecycle_def publish_new_bus ev Let_def)
    next
      case (Some e)
      then show ?thesis
        using \<open>err = None\<close> d st
        by (simp add: boot_components_def publish_new_bus [OF ev] Pair bootable_def NewPipeline_def transit_simps Let_def)
    qed
  next
    case (Some e)
    with Pair register_providers_ok [of "rt_providers rt"] have d: "\<not> distinct_providers (rt_providers rt)" by simp
    with Some show ?thesis
      using st by (simp add: boot_components_def publish_new_bus [OF ev] Pair bootable_def transit_simps Let_def)
  qed
qed

lemma options_keep [simp]:
  "rt_lifecycle (fold apply_option opts rt) = rt_lifecycle rt"
  "rt_execution (fold apply_option opts rt) = rt_execution rt"
  "rt_events (fold apply_option opts rt) = rt_events rt"
proof -
  have "rt_lifecycle (apply_option opt rt) = rt_lifecycle rt \<and> rt_execution (apply_option opt rt) = rt_execution rt \<and>
      rt_events (apply_option opt rt) = rt_events rt" for opt and rt :: "'a runtime"
    by (cases opt) simp_all
  then show "rt_lifecycle (fold apply_option opts rt) = rt_lifecycle rt"
    "rt_execution (fold apply_option opts rt) = rt_execution rt" "rt_events (fold apply_option opts rt) = rt_events rt"
    by (induction opts arbitrary: rt) simp_all
qed

lemma new_runtime:
  "stateVal (rt_lifecycle (NewRuntime t opts)) = StateUninitialized"
  "rt_execution (NewRuntime t opts) = None"
  "rt_events (NewRuntime t opts) = None"
  by (simp_all add: NewRuntime_def NewLifecycleManager_def)

lemma use_config_fields [simp]:
  "rt_events (use_config ho cfg rt) = rt_events rt" "rt_providers (use_config ho cfg rt) = rt_providers rt"
  "rt_middlewares (use_config ho cfg rt) = rt_middlewares rt" "rt_logger (use_config ho cfg rt) = rt_logger rt"
  "rt_telemetry (use_config ho cfg rt) = rt_telemetry rt" "rt_cfg (use_config ho cfg rt) = Some cfg"
  "rt_execution (use_config ho cfg rt) = map_option (\<lambda>em. em\<lparr>lc := rt_lifecycle (use_config ho cfg rt)\<rparr>) (rt_execution rt)"
  "stateVal (rt_lifecycle (use_config ho cfg rt)) = stateVal (rt_lifecycle rt)"
  "cooldownMS (rt_lifecycle (use_config ho cfg rt)) = RestartCooldownMS (Runtime_Config.Lifecycle cfg)"
  "currentLogLevel (pkg_logging (use_config ho cfg rt)) = ParseLevel (lg_Level (Runtime_Config.Logging cfg))"
  by (simp_all add: use_config_def set_lifecycle_def configureLoggerAndTelemetry_def Configure_def configureLogging_def
      SetGlobalLogLevel_def Let_def)

lemma loaded_valid: "LoadConfig ld env file ov = Inr cfg \<Longrightarrow> valid_config cfg"
  by (auto simp: LoadConfig_def Let_def Validate_def no_errors_iff split: sum.splits option.splits if_splits)

lemma set_lifecycle_fields [simp]:
  "rt_lifecycle (set_lifecycle lm rt) = lm" "rt_events (set_lifecycle lm rt) = rt_events rt"
  "rt_execution (set_lifecycle lm rt) = map_option (\<lambda>em. em\<lparr>lc := lm\<rparr>) (rt_execution rt)"
  "rt_configFile (set_lifecycle lm rt) = rt_configFile rt" "rt_overrides (set_lifecycle lm rt) = rt_overrides rt"
  "rt_providers (set_lifecycle lm rt) = rt_providers rt" "rt_middlewares (set_lifecycle lm rt) = rt_middlewares rt"
  by (simp_all add: set_lifecycle_def)

text \<open>The components that come up, for any runtime that has an event bus of its own and is booting.\<close>

lemma boot_components_booted:
  assumes ev: "rt_events rt = Some NewInProcessEventBus" and st: "stateVal (rt_lifecycle rt) = StateBooting"
    and cfg: "valid_config cfg" "rt_cfg rt = Some cfg" "cooldownMS (rt_lifecycle rt) = RestartCooldownMS (Runtime_Config.Lifecycle cfg)"
      "currentLogLevel (pkg_logging rt) = ParseLevel (lg_Level (Runtime_Config.Logging cfg))"
    and set: "rt_logger rt \<noteq> None" "rt_telemetry rt \<noteq> None" and ok: "bootable rt"
  obtains rt' where "boot_components ho now cfg rt = ok (None, rt')" and "booted cfg rt'"
    and "rt_providers rt' = rt_providers rt" and "rt_events rt' = rt_events rt"
proof -
  have g: "0 < GlobalLimit (Concurrency (Runtime cfg))" "0 \<le> QueueSize (Concurrency (Runtime cfg))"
    using cfg(1) by (auto simp: valid_config_def)
  have "distinct_providers (rt_providers rt)" using ok by (simp add: bootable_def)
  note look = register_providers_lookup [OF this]
  show ?thesis
    by (rule that, subst boot_components_outcome [OF ev st], simp only: ok if_True Let_def)
      (use cfg set g look in \<open>simp_all add: booted_def new_manager_def NewExecutionManager_def Let_def ActiveCount_def IsReady_def ev\<close>)
qed

text \<open>What \<open>Initialize\<close> has done of a new runtime when it starts to load, and when it has loaded.\<close>

definition loading :: "(nat \<Rightarrow> int) \<Rightarrow> 'a runtime \<Rightarrow> 'a runtime" where
  "loading now rt = set_lifecycle ((rt_lifecycle rt)\<lparr>stateVal := StateBooting, since := now 0,
      components := Map.empty, reason := []\<rparr>) rt"

lemma loading_simps [simp]:
  "stateVal (rt_lifecycle (loading now rt)) = StateBooting" "rt_events (loading now rt) = rt_events rt"
  "rt_execution (loading now (NewRuntime t opts)) = None"
  "rt_configFile (loading now rt) = rt_configFile rt" "rt_overrides (loading now rt) = rt_overrides rt"
  "rt_providers (loading now rt) = rt_providers rt" "rt_middlewares (loading now rt) = rt_middlewares rt"
  by (simp_all add: loading_def new_runtime)

lemma Initialize_loads:
  "Initialize ho now (NewRuntime t opts) =
    (let rt = loading now (NewRuntime t opts) in
     case LoadConfig (ho_loader ho) (ho_env ho) (rt_configFile rt) (rt_overrides rt) of
       Inl e \<Rightarrow> ok (Some e, fail (now 1) rt)
     | Inr cfg \<Rightarrow> boot_components ho (\<lambda>i. now (i + 2)) cfg ((use_config ho cfg rt)
         \<lparr>rt_logger := or_else (rt_logger (use_config ho cfg rt)) (PlatformLogger NewPlatformLogger),
          rt_events := Some NewInProcessEventBus,
          rt_telemetry := or_else (rt_telemetry (use_config ho cfg rt)) (InMemoryTelemetry (NewInMemoryTelemetry [] initial_world))\<rparr>))"
  by (simp add: Initialize_def new_runtime transit_simps loading_def [symmetric] or_else_def [of None] Let_def split: sum.split)

text \<open>
  C17: booting.  Whatever options a runtime is made with, \<open>Initialize\<close> returns.  With a configuration that
  loads, pairwise distinct named providers and a chain of middlewares in order, the runtime is READY and
  accepts requests: the slots and the queue are those of the configuration, nothing runs, every provider is
  registered under its name.  Otherwise the error is returned, the runtime is FAILED and has no manager.
\<close>
theorem Initialize_outcome:
  "let rt0 = NewRuntime t opts
   in case Initialize ho now rt0 of
        Some (Inr (err, rt)) \<Rightarrow>
          (case LoadConfig (ho_loader ho) (ho_env ho) (rt_configFile rt0) (rt_overrides rt0) of
             Inl e \<Rightarrow> err = Some e \<and> stateVal (rt_lifecycle rt) = StateFailed \<and> rt_execution rt = None
           | Inr cfg \<Rightarrow>
               if bootable rt0 then err = None \<and> booted cfg rt \<and> rt_providers rt = rt_providers rt0
               else err \<noteq> None \<and> stateVal (rt_lifecycle rt) = StateFailed \<and> rt_execution rt = None)
      | _ \<Rightarrow> False"
proof -
  define rt0 where "rt0 = NewRuntime t opts"
  note init = Initialize_loads [of ho now t opts, folded rt0_def, unfolded Let_def loading_simps]
  show ?thesis
  proof (cases "LoadConfig (ho_loader ho) (ho_env ho) (rt_configFile rt0) (rt_overrides rt0)")
    case (Inl e)
    then show ?thesis
      unfolding rt0_def [symmetric] Let_def
      by (simp add: init ok_def transit_simps) (simp add: rt0_def)
  next
    case (Inr cfg)
    let ?rt1 = "loading now rt0"
    define rt2 where "rt2 = (use_config ho cfg ?rt1)
        \<lparr>rt_logger := or_else (rt_logger (use_config ho cfg ?rt1)) (PlatformLogger NewPlatformLogger),
         rt_events := Some NewInProcessEventBus,
         rt_telemetry := or_else (rt_telemetry (use_config ho cfg ?rt1)) (InMemoryTelemetry (NewInMemoryTelemetry [] initial_world))\<rparr>"
    have rt2: "stateVal (rt_lifecycle rt2) = StateBooting" "rt_events rt2 = Some NewInProcessEventBus" "rt_execution rt2 = None"
      "bootable rt2 = bootable rt0" "rt_providers rt2 = rt_providers rt0" "rt_logger rt2 \<noteq> None" "rt_telemetry rt2 \<noteq> None"
      "rt_cfg rt2 = Some cfg" "cooldownMS (rt_lifecycle rt2) = RestartCooldownMS (Runtime_Config.Lifecycle cfg)"
      "currentLogLevel (pkg_logging rt2) = ParseLevel (lg_Level (Runtime_Config.Logging cfg))"
      by (simp_all add: rt2_def rt0_def bootable_def or_else_def split: option.split)
    have boots: "Initialize ho now rt0 = boot_components ho (\<lambda>i. now (i + 2)) cfg rt2"
      by (simp add: init Inr rt2_def)
    show ?thesis
    proof (cases "bootable rt0")
      case True
      from boot_components_booted [OF rt2(2,1) loaded_valid [OF Inr] rt2(8,9,10,6,7)] rt2(4) True
      obtain rt' where "Initialize ho now rt0 = ok (None, rt')" "booted cfg rt'" "rt_providers rt' = rt_providers rt2"
        unfolding boots by metis
      then show ?thesis unfolding rt0_def [symmetric] Let_def by (simp add: Inr True ok_def rt2)
    next
      case False
      then show ?thesis
        unfolding rt0_def [symmetric] Let_def boots boot_components_outcome [OF rt2(2,1)]
        by (simp add: Inr rt2 ok_def)
    qed
  qed
qed

section \<open>Settings that reach nothing\<close>

text \<open>
  The log level, the startup timeout and the environment of the runtime section, the order of the
  middlewares, the configured providers and the redaction switch are read and validated, but a runtime
  that boots with other values for them differs in nothing but the configuration it stores.
\<close>
theorem settings_without_effect:
  "let cfg' = cfg\<lparr>Runtime := (Runtime cfg)\<lparr>LogLevel := l, StartupTimeoutMS := s, Environment := v\<rparr>, MiddlewareOrder := ms,
                  Providers := ps, Logging := (Runtime_Config.Logging cfg)\<lparr>lg_RedactionEnabled := b\<rparr>\<rparr>
   in use_config ho cfg' rt = (use_config ho cfg (rt :: 'a runtime))\<lparr>rt_cfg := Some cfg'\<rparr> \<and>
      boot_components ho now cfg' = (boot_components ho now cfg :: 'a runtime \<Rightarrow> _)"
proof -
  have as: "add_sink f (lg\<lparr>lg_RedactionEnabled := b\<rparr>) = add_sink f lg" for f lg
    by (intro ext) (simp add: add_sink_def Let_def)
  have cl: "configureLogging f (lg\<lparr>lg_RedactionEnabled := b\<rparr>) = configureLogging f lg" for f lg
    by (intro ext) (simp add: configureLogging_def as)
  have cs: "configureSampling (cfg\<lparr>Runtime := r, MiddlewareOrder := ms, Providers := ps, Logging := lg\<rparr>) = configureSampling cfg" for r lg
    by (simp add: configureSampling_def [abs_def])
  let ?cfg = "cfg\<lparr>Runtime := (Runtime cfg)\<lparr>LogLevel := l, StartupTimeoutMS := s, Environment := v\<rparr>, MiddlewareOrder := ms,
      Providers := ps, Logging := (Runtime_Config.Logging cfg)\<lparr>lg_RedactionEnabled := b\<rparr>\<rparr>"
  have "new_manager ?cfg = (new_manager cfg :: _ \<Rightarrow> 'a runtime \<Rightarrow> _)" by (intro ext) (simp add: new_manager_def)
  then have "boot_components ho now ?cfg = (boot_components ho now cfg :: 'a runtime \<Rightarrow> _)"
    by (intro ext) (simp only: boot_components_def)
  then show ?thesis
    by (simp add: Let_def use_config_def set_lifecycle_def configureLoggerAndTelemetry_def cl cs)
qed

section \<open>Restarting\<close>


text \<open>A runtime that has failed once it was up.\<close>

definition failed_runtime :: "unit runtime" where
  "failed_runtime = (NewRuntime 0 [WithProvider (Some ''openai-primary'')])
     \<lparr>rt_lifecycle := (NewLifecycleManager 0)\<lparr>stateVal := StateFailed\<rparr>, rt_execution := Some boot_em,
      rt_events := Some NewInProcessEventBus\<rparr>"

definition plain_host :: host where
  "plain_host = \<lparr>ho_loader = no_files, ho_env = (\<lambda>_. []), ho_can_open = (\<lambda>_. False), ho_sinks = plain_sinks,
     ho_rng = (\<lambda>_ ks. ks), ho_fuel = 0, ho_tid = []\<rparr>"

lemma default_loads: "\<exists>cfg. LoadConfig no_files (\<lambda>_. []) [] None = Inr cfg"
proof -
  have "case LoadConfig no_files (\<lambda>_. []) [] None of Inl _ \<Rightarrow> False | Inr _ \<Rightarrow> True" by code_simp
  then show ?thesis by (auto split: sum.splits)
qed


text \<open>
  A runtime whose first configuration did not load has no event bus: restarting it ends in a panic,
  whatever the configuration has become.
\<close>

lemma restart_after_failed_load:
  "case LoadConfig (ho_loader ho) (ho_env ho) (rt_configFile (NewRuntime t opts)) (rt_overrides (NewRuntime t opts)) of
     Inl e \<Rightarrow>
       (case Initialize ho now (NewRuntime t opts) of
          Some (Inr (_, rt)) \<Rightarrow> Restart ho' now' rt = Some (Inl nil_dereference)
        | _ \<Rightarrow> False)
   | Inr _ \<Rightarrow> True"
proof (cases "LoadConfig (ho_loader ho) (ho_env ho) (rt_configFile (NewRuntime t opts)) (rt_overrides (NewRuntime t opts))")
  case (Inl e)
  let ?rt0 = "NewRuntime t opts"
  let ?rt1 = "set_lifecycle ((rt_lifecycle ?rt0)\<lparr>stateVal := StateBooting, since := now 0, components := Map.empty, reason := []\<rparr>) ?rt0"
  have "Initialize ho now ?rt0 = ok (Some e, fail (now 1) ?rt1)"
    using Inl by (simp add: Initialize_def new_runtime transit_simps)
  moreover have "stateVal (rt_lifecycle (fail (now 1) ?rt1)) = StateFailed" "rt_events (fail (now 1) ?rt1) = None"
    by (simp_all add: transit_simps new_runtime)
  ultimately show ?thesis
    by (auto simp: Inl ok_def Restart_def publish_def split: sum.split)
qed simp

text \<open>
  A restart that fails on the configuration has stopped the manager; the next one stops it again, which
  closes a closed channel.
\<close>

lemma second_restart_panics:
  assumes "rt_execution rt = Some em" and "stopped em" and "stateVal (rt_lifecycle rt) = StateFailed"
    and "CheckRestartCooldown (now 0) (rt_lifecycle rt) = Inr lm"
    and "rt_events rt = Some eb" and "subscribers eb = []" and "validateTopic ''runtime.restart_requested'' eb = None"
  shows "Restart ho now rt = Some (Inl ''close of closed channel'')"
proof -
  have lm: "stateVal lm = StateFailed" using assms(3,4) by (auto simp: CheckRestartCooldown_def Let_def split: option.splits if_splits)
  have ev: "publish ho (now 1) ''runtime.restart_requested'' ANil (set_lifecycle lm rt) = ok (set_lifecycle lm rt)"
    by (rule publish_silent [OF _ assms(6,7)]) (simp add: assms(5))
  show ?thesis
    using assms(1-4) by (simp add: Restart_def ev [unfolded One_nat_def] transit_def Transition_def valid_transition_def lm Let_def
        stop_execution_def Shutdown_def)
qed

lemma restart_stops_manager:
  assumes "rt_execution rt = Some em" and "\<not> stopped em" and "stateVal (rt_lifecycle rt) = StateFailed"
    and "CheckRestartCooldown (now 0) (rt_lifecycle rt) = Inr lm"
    and "rt_events rt = Some eb" and "subscribers eb = []" and "validateTopic ''runtime.restart_requested'' eb = None"
    and "LoadConfig (ho_loader ho) (ho_env ho) (rt_configFile rt) (rt_overrides rt) = Inl e"
  obtains rt' em' where "Restart ho now rt = ok (Some e, rt')" and "stateVal (rt_lifecycle rt') = StateFailed"
    and "rt_execution rt' = Some em'" and "stopped em'" and "rt_events rt' = Some eb"
proof -
  have lm: "stateVal lm = StateFailed" using assms(3,4) by (auto simp: CheckRestartCooldown_def Let_def split: option.splits if_splits)
  have ev: "publish ho (now 1) ''runtime.restart_requested'' ANil (set_lifecycle lm rt) = ok (set_lifecycle lm rt)"
    by (rule publish_silent [OF _ assms(6,7)]) (simp add: assms(5))
  let ?lm = "lm\<lparr>stateVal := StateBooting, since := now 2, components := Map.empty, reason := []\<rparr>"
  let ?rt1 = "set_lifecycle ?lm (set_lifecycle lm rt)"
  let ?rt2 = "?rt1\<lparr>rt_execution := Some (em\<lparr>lc := ?lm, stopped := True\<rparr>)\<rparr>"
  have t: "transit (now 2) StateBooting (set_lifecycle lm rt) = Inr ?rt1"
    by (simp add: transit_def Transition_def valid_transition_def lm Let_def)
  have st: "stop_execution ?rt1 = ok ?rt2" using assms(1,2) by (simp add: stop_execution_def Shutdown_def)
  have "Restart ho now rt = ok (Some e, fail (now 3) ?rt2)"
    unfolding Restart_def assms(4) sum.case ev and_then_ok t st using assms(3,8) by simp
  then show ?thesis by (rule that) (simp_all add: transit_simps assms(5), simp)
qed

text \<open>\<open>Execute\<close> that submitted before a restart asks the new manager, which does not know the execution.\<close>

lemma wait_on_new_manager: "booted cfg rt \<Longrightarrow> fst (Execute_wait i rt) = Inl not_found"
  by (auto simp: booted_def Execute_wait_def wait_check_def split: option.splits)

section \<open>Shutting down\<close>

text \<open>Once the runtime drains, no step of the manager changes its lifecycle.\<close>

lemma lc_pieces [simp]:
  "lc (upd r f em) = lc em" "lc (set_run r pc em) = lc em" "lc (set_submit r spc em) = lc em" "lc (emit es em) = lc em"
  "lc (signal em) = lc em" "lc (set_stream c g em) = lc em" "lc (notifyWaiters i em) = lc em"
  by (simp_all add: upd_def set_run_def set_submit_def emit_def signal_def set_stream_def notifyWaiters_def)

lemma lc_calls [simp]:
  "lc (snd (submit_check now i req em)) = lc em" "lc (submit_mark r em) = lc em" "lc (submit_enqueue r em) = lc em"
  "lc (snd (stream_register r em)) = lc em" "lc (snd (wait_check i em)) = lc em" "lc (snd (wait_register i em)) = lc em"
  "lc (snd (Cancel now ord i em)) = lc em"
  by (simp_all add: submit_check_def submit_mark_def submit_enqueue_def stream_register_def wait_check_def wait_register_def
      Cancel_def Let_def split: option.split)

lemma lc_runs [simp]:
  "lc (schedule_iter em) = lc em" "lc (releaseSlots r em) = lc em" "lc (run_begin now r em) = lc em"
  "lc (run_arm r em) = lc em" "lc (run_resolve now names r em) = lc em" "lc (next_attempt now p k r em) = lc em"
  "lc (attempt_end now out p k started r em) = lc em" "lc (decide draw p k res err r em) = lc em"
  "lc (backoff_over now p k r em) = lc em" "lc (run_handle now d res err r em) = lc em" "lc (run_publish r em) = lc em"
  "lc (run_recover now msg r em) = lc em"
  by (simp_all add: schedule_iter_def releaseSlots_def run_begin_def run_arm_def run_resolve_def next_attempt_def
      attempt_end_def decide_def backoff_over_def run_handle_def run_publish_def run_recover_def Let_def
      split: prod.split option.split sum.split list.split)

lemma lc_streams [simp]:
  "lc (stream_opened err c r em) = lc em" "lc (stream_failed now e c r em) = lc em" "lc (stream_ended now c r em) = lc em"
  "lc (stream_aborted now e c r em) = lc em" "lc (stream_close c r em) = lc em"
  by (simp_all add: stream_opened_def stream_failed_def stream_ended_def stream_aborted_def stream_close_def Let_def
      split: option.split)

lemma lc_stream_send: "stream_send now c chunk nxt r em = Some em' \<Longrightarrow> lc em' = lc em"
  by (auto simp: stream_send_def Let_def split: if_splits stream_next.splits)

lemma lc_submit_finish: "stateVal (lc em) \<noteq> StateReady \<Longrightarrow> lc (submit_finish now r em) = lc em"
  by (simp add: submit_finish_def Let_def)

lemma lc_submit_check: "submit_check now i req em = (x, em') \<Longrightarrow> lc em' = lc em"
  by (metis lc_calls(1) snd_conv)

lemma piece_lifecycle:
  assumes "em_piece op em = Some em'" and "stateVal (lc em) \<noteq> StateReady"
  shows "lc em' = lc em"
proof (cases op)
  case (SubmitCheck now i req st)
  then show ?thesis
    using assms by (auto split: prod.splits sum.splits if_splits dest: lc_submit_check)
next
  case (StreamRegister r)
  then show ?thesis using assms(1) lc_calls(4) [of r "em\<lparr>stream_waiting := remove_first (\<lambda>i. i = r) (stream_waiting em)\<rparr>"] by simp
next
  case (SubmitFinish now r)
  then show ?thesis using assms by (auto simp: lc_submit_finish)
next
  case (StreamSends now r)
  then show ?thesis using assms(1) by (auto split: run_pc.splits dest: lc_stream_send)
next
  case (StreamReads c)
  then show ?thesis using assms(1) by (auto split: if_splits list.splits)
next
  case ShutdownCall
  then show ?thesis using assms(1) by (auto simp: Shutdown_def split: if_splits)
next
  case (BackoffCut r)
  then show ?thesis using assms(1) by (auto split: run_pc.splits option.splits)
next
  case (StreamAborts r)
  then show ?thesis using assms(1) by (auto split: run_pc.splits option.splits)
next
  case (NotifyWaiters r)
  then show ?thesis using assms(1) by (auto split: run_pc.splits option.splits)
qed (use assms(1) in \<open>auto split: run_pc.splits\<close>)

text \<open>What holds of a draining runtime until the loop ends.\<close>

definition draining :: "'c runtime \<Rightarrow> bool" where
  "draining rt \<longleftrightarrow> stateVal (rt_lifecycle rt) = StateDraining \<and>
     (case rt_execution rt of None \<Rightarrow> True | Some em \<Rightarrow> lc em = rt_lifecycle rt)"

definition idle_manager :: "'c runtime \<Rightarrow> bool" where
  "idle_manager rt \<longleftrightarrow> (case rt_execution rt of None \<Rightarrow> True | Some em \<Rightarrow> ActiveCount em = 0)"

lemma drain_result:
  "drain_loop ho now c es rt = Some (Inr rt') \<Longrightarrow> draining rt \<Longrightarrow>
     draining rt' \<and> (DrainTimeout \<in> set es \<or> DrainDone \<in> set es \<or> idle_manager rt')"
proof (induction es arbitrary: rt)
  case (Cons e es)
  show ?case
  proof (cases e)
    case DrainTick
    with Cons show ?thesis by (auto simp: idle_manager_def ok_def split: if_splits)
  next
    case DrainTimeout
    with Cons.prems show ?thesis
      by (auto simp: warn_deadline_def draining_def ok_def split: option.splits logger_value.splits sum.splits)
  next
    case DrainDone
    with Cons.prems show ?thesis by (auto simp: ok_def)
  next
    case (DrainMachine op)
    with Cons.prems obtain em em' where em: "rt_execution rt = Some em" "em_piece op em = Some em'"
      "drain_loop ho now c es (set_execution em' rt) = Some (Inr rt')"
      by (auto split: option.splits)
    have "stateVal (lc em) = StateDraining" "lc em = rt_lifecycle rt" using Cons.prems(2) em(1) by (auto simp: draining_def)
    then have "draining (set_execution em' rt)"
      using piece_lifecycle [OF em(2)] by (simp add: draining_def set_execution_def)
    from Cons.IH [OF em(3) this] show ?thesis by auto
  qed
qed simp

lemma publish_keeps:
  "publish ho now etype payload rt = Some (Inr rt') \<Longrightarrow> \<exists>eb. rt' = rt\<lparr>rt_events := Some eb\<rparr>"
  by (auto simp: publish_def and_then_def ok_def split: option.splits sum.splits)

text \<open>
  C40: a shutdown without an error ends STOPPED.  Unless the shutdown timeout or the caller's context
  cut it short, no execution is running when it returns, whatever the manager did meanwhile.
\<close>
theorem shutdown_drains:
  "case RuntimeShutdown ho now c es rt of
     Some (Inr (None, rt')) \<Rightarrow>
       stateVal (rt_lifecycle rt') = StateStopped \<and> (DrainTimeout \<in> set es \<or> DrainDone \<in> set es \<or> idle_manager rt')
   | _ \<Rightarrow> True"
proof -
  {
    fix rt' assume sd: "RuntimeShutdown ho now c es rt = Some (Inr (None, rt'))"
    then obtain rt1 rt2 rt3 rt4 where
      st: "transit (now 0) StateDraining rt = Inr rt1"
      and steps: "stop_execution rt1 = Some (Inr rt2)" "publish ho (now 1) ''runtime.shutdown_started'' ANil rt2 = Some (Inr rt3)"
        "drain_loop ho (now 2) c es rt3 = Some (Inr rt4)"
      and fin: "publish ho (now 4) ''runtime.shutdown_completed'' ANil
          (case transit (now 3) StateStopped rt4 of Inl _ \<Rightarrow> rt4 | Inr rt \<Rightarrow> rt) = Some (Inr rt')"
      by (auto simp: RuntimeShutdown_def and_then_def ok_def Let_def split: if_splits sum.splits option.splits)
    have d1: "draining rt1"
      using st by (auto simp: transit_def Transition_def draining_def set_lifecycle_def Let_def split: sum.splits if_splits option.split)
    then have "draining rt2"
      using steps(1) by (auto simp: stop_execution_def draining_def Shutdown_def ok_def split: option.splits sum.splits if_splits)
    then have d3: "draining rt3" using publish_keeps [OF steps(2)] by (auto simp: draining_def split: option.splits)
    note d4 = drain_result [OF steps(3) d3]
    then have "transit (now 3) StateStopped rt4 = Inr (set_lifecycle ((rt_lifecycle rt4)\<lparr>stateVal := StateStopped, since := now 3\<rparr>) rt4)"
      by (simp add: transit_def Transition_def valid_transition_def draining_def Let_def)
    with fin publish_keeps obtain eb where
      "rt' = (set_lifecycle ((rt_lifecycle rt4)\<lparr>stateVal := StateStopped, since := now 3\<rparr>) rt4)\<lparr>rt_events := Some eb\<rparr>"
      by fastforce
    with d4 have "stateVal (rt_lifecycle rt') = StateStopped \<and> (DrainTimeout \<in> set es \<or> DrainDone \<in> set es \<or> idle_manager rt')"
      by (auto simp: idle_manager_def ActiveCount_def split: option.splits)
  }
  then show ?thesis by (auto split: option.split sum.split)
qed

text \<open>
  A shutdown leaves the queue behind.  Once the manager's loop has seen the stop, the first tick finds
  nothing running and the shutdown succeeds, with every execution still queued, its state and its waiters
  as they were: whoever waits for one of them waits for ever, since the loop is gone.
\<close>
theorem shutdown_abandons_queue:
  assumes "rt_execution rt = Some em" and "lc em = rt_lifecycle rt" and "stateVal (lc em) = StateRunning"
    and "sem em = 0" and "\<not> stopped em" and "\<not> scheduling em"
    and "rt_events rt = Some eb" and "subscribers eb = []" and "validateTopic ''runtime.shutdown_started'' eb = None"
    and "validateTopic ''runtime.shutdown_completed'' eb = None"
  shows "case RuntimeShutdown ho now c [DrainMachine LoopExit, DrainTick] rt of
     Some (Inr (err, rt')) \<Rightarrow>
       err = None \<and> stateVal (rt_lifecycle rt') = StateStopped \<and>
       (case rt_execution rt' of
          None \<Rightarrow> False
        | Some em' \<Rightarrow>
            sched em' = sched em \<and> heap em' = heap em \<and> waiters em' = waiters em \<and> closed_waiters em' = closed_waiters em \<and>
            em_piece LoopWake em' = None \<and> em_piece LoopTurn em' = None)
   | _ \<Rightarrow> False"
proof -
  let ?lm = "(rt_lifecycle rt)\<lparr>stateVal := StateDraining, since := now 0\<rparr>"
  let ?rt1 = "set_lifecycle ?lm rt"
  let ?rt2 = "?rt1\<lparr>rt_execution := Some (em\<lparr>lc := ?lm, stopped := True\<rparr>)\<rparr>"
  let ?em3 = "em\<lparr>lc := ?lm, stopped := True, loop_done := True\<rparr>"
  let ?rt3 = "set_execution ?em3 ?rt2"
  let ?rt4 = "set_lifecycle (?lm\<lparr>stateVal := StateStopped, since := now 3\<rparr>) ?rt3"
  have "transit (now 0) StateDraining rt = Inr ?rt1"
    using assms(2,3) by (simp add: transit_def Transition_def valid_transition_def)
  moreover have "stop_execution ?rt1 = ok ?rt2" using assms(1,5) by (simp add: stop_execution_def Shutdown_def)
  moreover have "publish ho (now 1) ''runtime.shutdown_started'' ANil ?rt2 = ok ?rt2"
    by (rule publish_silent [OF _ assms(8,9)]) (simp add: assms(7))
  moreover have "drain_loop ho (now 2) c [DrainMachine LoopExit, DrainTick] ?rt2 = ok ?rt3"
    using assms(4,6) by (simp add: set_execution_def ActiveCount_def guarded_def)
  moreover have "transit (now 3) StateStopped ?rt3 = Inr ?rt4"
    by (simp add: transit_def Transition_def valid_transition_def set_execution_def)
  moreover have "publish ho (now 4) ''runtime.shutdown_completed'' ANil ?rt4 = ok ?rt4"
    by (rule publish_silent [OF _ assms(8,10)]) (simp add: assms(7) set_execution_def)
  moreover have "stateVal (rt_lifecycle rt) \<noteq> StateStopped" using assms(2,3) by simp
  ultimately have "RuntimeShutdown ho now c [DrainMachine LoopExit, DrainTick] rt = ok (None, ?rt4)"
    unfolding RuntimeShutdown_def by (simp only: if_False sum.case and_then_ok Let_def)
  then show ?thesis using assms(6) by (simp add: ok_def set_execution_def guarded_def)
qed

text \<open>A running runtime with one execution in its queue.\<close>

definition waiting_em :: em where
  "waiting_em = snd (Submit 5 [] (sample_request ''a'') boot_em)"

definition waiting_runtime :: "unit runtime" where
  "waiting_runtime = (NewRuntime 0 [])
     \<lparr>rt_lifecycle := lc waiting_em, rt_execution := Some waiting_em, rt_events := Some NewInProcessEventBus\<rparr>"

lemma shutdown_abandons_queue_witness:
  "Size (sched waiting_em) = 1 \<and> ex_State (heap waiting_em ! 0) = ExecStateQueued \<and>
   (case RuntimeShutdown plain_host int None [DrainMachine LoopExit, DrainTick] waiting_runtime of
     Some (Inr (err, rt')) \<Rightarrow>
       err = None \<and> stateVal (rt_lifecycle rt') = StateStopped \<and>
       (case rt_execution rt' of
          None \<Rightarrow> False
        | Some em' \<Rightarrow>
            sched em' = sched waiting_em \<and> heap em' = heap waiting_em \<and> waiters em' = waiters waiting_em \<and>
            closed_waiters em' = closed_waiters waiting_em \<and>
            em_piece LoopWake em' = None \<and> em_piece LoopTurn em' = None)
   | _ \<Rightarrow> False)"
proof (intro conjI)
  have em: "stateVal (lc waiting_em) = StateRunning" "sem waiting_em = 0" "\<not> stopped waiting_em" "\<not> scheduling waiting_em"
    "Size (sched waiting_em) = 1" "ex_State (heap waiting_em ! 0) = ExecStateQueued"
    by (simp_all add: waiting_em_def Submit_def submit_check_def submit_mark_def submit_enqueue_def submit_finish_def boot_em_def
        NewExecutionManager_def ready_lc_def NewLifecycleManager_def IsReady_def sample_request_def signal_def emit_def set_submit_def
        upd_def with_id_def new_execution_def Transition_def valid_transition_def Let_def Size_def NewPriorityScheduler_def
        Enqueue_def prio_def set_queue_def queue_of_def)
  have v: "validateTopic ''runtime.shutdown_started'' (NewInProcessEventBus :: any bus) = None"
    "validateTopic ''runtime.shutdown_completed'' (NewInProcessEventBus :: any bus) = None"
    by code_simp+
  show "Size (sched waiting_em) = 1" "ex_State (heap waiting_em ! 0) = ExecStateQueued" by (fact em(5), fact em(6))
  show "case RuntimeShutdown plain_host int None [DrainMachine LoopExit, DrainTick] waiting_runtime of
     Some (Inr (err, rt')) \<Rightarrow>
       err = None \<and> stateVal (rt_lifecycle rt') = StateStopped \<and>
       (case rt_execution rt' of
          None \<Rightarrow> False
        | Some em' \<Rightarrow>
            sched em' = sched waiting_em \<and> heap em' = heap waiting_em \<and> waiters em' = waiters waiting_em \<and>
            closed_waiters em' = closed_waiters waiting_em \<and>
            em_piece LoopWake em' = None \<and> em_piece LoopTurn em' = None)
   | _ \<Rightarrow> False"
    by (rule shutdown_abandons_queue [where eb = NewInProcessEventBus])
      (simp_all add: waiting_runtime_def em v new_bus)
qed

end
