(* ===== verification/Spec2Isabelle.thy ===== *)
theory Spec2Isabelle
  imports Scheduler Retry Registry Lifecycle Event_Bus_Laws Exec_Ends Context_Laws Cost_Budget
    Wire_Context Runtime_Config Middleware_Laws Rate_Limit Exec_Context Logger_Laws Telemetry_Laws Runtime_Laws
begin

text \<open>
  A verification of the Go core of the repository, \<open>src/core\<close>: a runtime that accepts execution
  requests, queues them by priority, runs them through a chain of middlewares against providers, retries
  and reports them, and takes itself through boot, degradation, restart and shutdown.

  \<^bold>\<open>The program.\<close>
  \<open>runtime.go\<close> builds everything else.  It loads the configuration (\<open>config/manager.go\<close>), starts the
  logger and telemetry (\<open>telemetry/\<close>), the event bus (\<open>events/bus.go\<close>), the registry of providers and
  the execution manager (\<open>execution/\<close>), and moves the lifecycle manager (\<open>lifecycle/manager.go\<close>) from
  state to state.  A request becomes an \<open>Execution\<close>; the scheduler (\<open>execution/scheduler.go\<close>) hands it
  out when a global slot and a slot of its provider are free; a goroutine then makes its attempts, with
  the delays of \<open>execution/retry.go\<close>, each through the pipeline of \<open>middleware/\<close>.  What belongs to a
  request travels in a \<open>context.Context\<close>, whose layers are those of \<open>context/\<close>.  Errors are the
  structured errors of \<open>errors/error.go\<close>.

  \<^bold>\<open>The theories, by the code they model.\<close>
  \<^item> Prelude.  \<open>Go_Base\<close>: strings as byte lists, 64-bit integers with their wrap-around, instants, the
    functions of \<open>strings\<close>, \<open>strconv\<close> and \<open>fmt\<close> that the code calls, the collections of facts.
    \<open>Float64\<close>: finite floating-point numbers as rationals with rounding.  \<open>Go_Any\<close>: values of type
    \<open>any\<close>.  \<open>Step_Machine\<close>: runs of labelled steps and what they keep.
  \<^item> \<open>Platform_Error\<close>: \<open>errors/error.go\<close>.
  \<^item> \<open>Priority_Class\<close>, \<open>Work_Queue\<close>, \<open>Scheduler\<close>: \<open>execution/scheduler.go\<close>.  \<open>PriorityScheduler\<close> is a
    record with the queues and the credits; \<open>Enqueue\<close>, \<open>Dequeue\<close>, \<open>Remove\<close> are its methods.
  \<^item> \<open>Retry\<close>: \<open>execution/retry.go\<close>.  \<open>Registry\<close>: \<open>execution/registry.go\<close>.
  \<^item> \<open>Lifecycle\<close>: \<open>lifecycle/manager.go\<close>; \<open>lc_step\<close> is the step relation of its methods.
  \<^item> \<open>Topic_Match\<close>, \<open>Bounded_Buffer\<close>, \<open>Event_Bus\<close>, \<open>Event_Bus_Laws\<close>: \<open>events/bus.go\<close>.
  \<^item> \<open>Execution\<close> (data and the functions of one execution), \<open>Exec_Attempts\<close> (the attempts),
    \<open>Exec_Machine\<close> (the shared state and the goroutines), \<open>Slot_Machine\<close> (the abstract machine),
    \<open>Exec_Laws\<close> (the refinement and what follows), \<open>Exec_Life\<close> (the life of one execution as a second abstract
    machine), \<open>Exec_Ends\<close> (how executions end), \<open>Exec_Races\<close> (interleavings outside the contract):
    \<open>execution/execution.go\<close> and \<open>execution/manager.go\<close>.
  \<^item> \<open>Rt_Context\<close>, \<open>Context_Laws\<close>: \<open>context/context.go\<close> and \<open>context/session.go\<close>.  \<open>Cost_Budget\<close>: the
    compare-and-swap loop of \<open>AddSpent\<close>.  \<open>Wire_Context\<close>: \<open>context/serialization.go\<close>.  \<open>Exec_Context\<close>:
    \<open>execution/context.go\<close>.
  \<^item> \<open>Runtime_Config\<close>: \<open>config/manager.go\<close>.
  \<^item> \<open>Middleware\<close>, \<open>Middleware_Laws\<close>, \<open>Rate_Limit\<close>: the files of \<open>middleware/\<close>.
  \<^item> \<open>Logger\<close>, \<open>Logger_Laws\<close>: \<open>telemetry/logger.go\<close>.  \<open>Telemetry\<close>, \<open>Telemetry_Laws\<close>:
    \<open>telemetry/telemetry.go\<close>.
  \<^item> \<open>Core_Runtime\<close>, \<open>Runtime_Laws\<close>: \<open>runtime.go\<close> and \<open>bootstrap.go\<close>, over the models above.

  A definition has the name of the Go function or type it translates where that name is free.  A struct
  is a record with the fields of the code, a method a function from the state to its result and the new
  state, an error a value of a sum or option type, a panic the \<open>Inl\<close> of an outcome.

  \<^bold>\<open>Concurrency.\<close>
  A method that runs under its component's lock is one atomic function.  The execution manager is a
  machine whose steps (\<open>em_op\<close>, \<open>em_step\<close>) are the pieces of its goroutines between two synchronisation
  points, so that every interleaving of the goroutines is a sequence of steps; the goroutines that race
  in \<open>AddSpent\<close> are a step relation (\<open>Cost_Budget\<close>); the logger's callers and its writing goroutine
  are sequences of operations (\<open>Logger_Laws\<close>).  Clock readings, random draws, the order in which
  a Go map is ranged over, and what a provider, a handler or a token verifier answers are arguments:
  what is proved holds for all of them.

  \<^bold>\<open>The interfaces.\<close>
  \<open>work_queue\<close> (a bag with selective dequeue) is what the engine relies on, given by the scheduler.
  \<open>once_table\<close> (entries written once) is shared by the provider registry and the namespaces of the bus.
  \<open>bounded_buffer\<close> is shared by the two overflow policies of a subscription and the queue of the logger.
  \<open>gate\<close> (calls its successor at most once, and decides on it before it sees an answer) is what the
  pipeline relies on, given by each of the seven middlewares and closed under their composition.
  \<open>step_order\<close> and \<open>step_invariant\<close> lift what one step keeps to runs; the lifecycle manager, the slot
  machine, the execution manager and the adders of a budget are instances.

  \<^bold>\<open>What is shown.\<close>
  \<^item> Scheduler: the dequeue equals a loop-free reference, no work is lost, duplicated or invented, and
    the oldest execution of each class is served within 62 dequeues.
  \<^item> Execution manager: each of its steps is a step of the abstract slot machine, as long as no
    identifier is submitted twice.  So the count of active executions is exact and within
    the limits, nothing is dispatched twice, and the scheduler loop never sleeps on work it could
    start.  Each of its steps is also a step in the life of every execution.  So attempts are numbered and
    bounded, a goroutine makes a bounded number of steps and is never stuck, results agree with
    states, final states stay, and waiters are woken.  One execution: the attempts it makes, and its
    final state and result in every case.
  \<^item> Runtime: the outcome of booting and of a restart for every configuration; a shutdown drains
    the running executions and abandons the queued ones.
  \<^item> Lifecycle: the absorbing states, the effect of a health report, the restart cooldown.
  \<^item> Event bus: publishing returns, the content and order of each queue, the calls of a handler, and the
    pattern language of topics.
  \<^item> Context: the bound on metadata, inheritance, merging, isolation of sessions, no lost update of a
    budget, and the round trip over the wire.
  \<^item> Configuration: the result of loading, layer by layer.
  \<^item> Middleware: which chains are valid, one call of the core at most, no unauthenticated
    request, the reuse of cached answers, the rate that the limiter admits, rounding included.
  \<^item> Telemetry and logging: no secret in the log, in metrics or in spans, what a full queue keeps,
    where every entry ends, the continuity of traces, and costs equal to what budgets have spent.
  \<^item> The theorems of \<open>Exec_Races\<close>, and those of the other theories that evaluate one concrete run,
    exhibit behaviour that the code's contract does not allow.

  \<^bold>\<open>Bounds and fuel.\<close>
  Only publishing takes fuel, because a dead letter is published in turn.  \<open>Publish_returns\<close> shows that
  more than the pending events plus the receivers is enough, from any state of the bus that the
  invariant allows.  The runtime publishes with \<open>ho_fuel\<close> plus one, of which a bus without subscribers
  needs only the one.  Every other loop is total by a termination measure or a structural recursion; a loop that the
  code leaves only on an outside event (the drain loop of the shutdown, the retries of \<open>AddSpent\<close>)
  runs over the list or the relation of those events.  Capacities are positive naturals.

  \<^bold>\<open>Not modelled.\<close>
  \<^item> \<open>execution/engine.go\<close> and \<open>execution/provider.go\<close> only declare interfaces; \<open>internal\<close>, \<open>providers\<close>
    and \<open>testing\<close> hold no logic of their own.  The Python client, the schemas, the examples, the
    command line and the build files are outside the core.
  \<^item> A nil \<open>Context\<close>, and the cancellation of a context except where the manager or the shutdown waits for it.
  \<^item> Opening files, the YAML and JSON libraries, the layout of times: arguments.  How long a timer
    takes: timers are events that may happen.
  \<^item> Floating-point overflow, subnormal numbers, NaN and signed zero.
  \<^item> Data races on fields that the code reads without its lock, beyond the interleaving of whole pieces,
    and a panic in the goroutine that calls a provider, which ends the process.
\<close>

end
